(* ===== verification/VA_Prelude.thy ===== *)
theory VA_Prelude
  imports Main "HOL-Library.Word" "HOL-Library.Signed_Division"
begin

text \<open>
  Shared vocabulary of the development: the C and C++ integer types as words, results that
  may be an error, byte buffers whose cells may be uninitialised, the little-endian layout
  of integers in memory (the hosts of the program are x86), and checked arithmetic on the C
  type \<open>int\<close>.
\<close>

unbundle bit_operations_syntax

section \<open>Machine types and fact collections\<close>

type_synonym byte = "8 word"
type_synonym u16 = "16 word"
type_synonym u32 = "32 word"
type_synonym u64 = "64 word"

text \<open>
  \<open>buffer_simps\<close> carries the laws of buffers and byte layouts, \<open>c_arith\<close> the laws of
  checked C arithmetic, \<open>bit_facts\<close> the single-bit laws used by the device models.
\<close>

named_theorems buffer_simps
named_theorems c_arith
named_theorems bit_facts

section \<open>Results that may be errors\<close>

type_synonym ('e, 'a) result = "'e + 'a"

definition bindR :: "'e + 'a \<Rightarrow> ('a \<Rightarrow> 'e + 'b) \<Rightarrow> 'e + 'b" where
  "bindR r f = (case r of Inl e \<Rightarrow> Inl e | Inr a \<Rightarrow> f a)"

lemma bindR_simps [simp]:
  "bindR (Inl e) f = Inl e"
  "bindR (Inr a) f = f a"
  by (simp_all add: bindR_def)

lemma bindR_Inr_iff: "bindR r f = Inr b \<longleftrightarrow> (\<exists>a. r = Inr a \<and> f a = Inr b)"
  by (cases r) simp_all

lemma bindR_Inl_iff: "bindR r f = Inl e \<longleftrightarrow> r = Inl e \<or> (\<exists>a. r = Inr a \<and> f a = Inl e)"
  by (cases r) simp_all

lemma bindR_Inr [simp]: "bindR r Inr = r"
  by (cases r) simp_all

lemma bindR_assoc: "bindR (bindR r f) g = bindR r (\<lambda>a. bindR (f a) g)"
  by (cases r) simp_all

section \<open>Buffers\<close>

text \<open>
  A heap block of \<open>n\<close> bytes is a list of \<open>n\<close> cells; a cell that was never written after
  the allocation is \<open>None\<close>.  A load or store outside the block, and a load of a cell that
  was never written, are errors of their own.
\<close>

datatype mem_error = OutOfBounds | Uninitialised

type_synonym buffer = "byte option list"

definition buf_alloc :: "nat \<Rightarrow> buffer" where
  "buf_alloc n = replicate n None"

definition buf_store :: "buffer \<Rightarrow> nat \<Rightarrow> byte list \<Rightarrow> mem_error + buffer" where
  "buf_store b p bs =
     (if p + length bs \<le> length b
      then Inr (take p b @ map Some bs @ drop (p + length bs) b)
      else Inl OutOfBounds)"

definition buf_load :: "buffer \<Rightarrow> nat \<Rightarrow> nat \<Rightarrow> mem_error + byte list" where
  "buf_load b p n =
     (if p + n \<le> length b
      then (let cells = take n (drop p b)
            in if None \<in> set cells then Inl Uninitialised else Inr (map the cells))
      else Inl OutOfBounds)"

text \<open>The bytes \<open>bs\<close> are the initialised prefix of the block \<open>b\<close>.\<close>

definition buf_holds :: "buffer \<Rightarrow> byte list \<Rightarrow> bool" where
  "buf_holds b bs \<longleftrightarrow> length bs \<le> length b \<and> take (length bs) b = map Some bs"

lemma length_buf_alloc [simp]: "length (buf_alloc n) = n"
  by (simp add: buf_alloc_def)

lemma buf_store_length [buffer_simps]: "buf_store b p bs = Inr b' \<Longrightarrow> length b' = length b"
  by (auto simp: buf_store_def split: if_splits)

lemma buf_holds_Nil [simp]: "buf_holds b []"
  by (simp add: buf_holds_def)

lemma buf_holds_length: "buf_holds b bs \<Longrightarrow> length bs \<le> length b"
  by (simp add: buf_holds_def)

lemma buf_holds_append:
  assumes "buf_holds b xs" and "length xs + length ys \<le> length b"
  shows "\<exists>b'. buf_store b (length xs) ys = Inr b' \<and> buf_holds b' (xs @ ys) \<and> length b' = length b"
  using assms by (auto simp: buf_store_def buf_holds_def)

lemma buf_holds_load:
  assumes "buf_holds b bs" and "p + n \<le> length bs"
  shows "buf_load b p n = Inr (take n (drop p bs))"
proof -
  from assms have "take n (drop p b) = take n (drop p (take (length bs) b))"
    by (simp add: drop_take min_def)
  also have "\<dots> = map Some (take n (drop p bs))"
    using assms by (simp add: buf_holds_def drop_map take_map)
  finally have cells: "take n (drop p b) = map Some (take n (drop p bs))" .
  have "p + n \<le> length b"
    using assms by (auto simp: buf_holds_def)
  then show ?thesis
    by (auto simp: buf_load_def cells Let_def comp_def)
qed

lemma buf_load_out_of_bounds [buffer_simps]: "length b < p + n \<Longrightarrow> buf_load b p n = Inl OutOfBounds"
  by (simp add: buf_load_def)

lemma buf_load_length: "buf_load b p n = Inr bs \<Longrightarrow> length bs = n"
  by (auto simp: buf_load_def Let_def split: if_splits)

text \<open>The block \<open>malloc\<close>ed for \<open>n\<close> bytes, into which the prefix of \<open>b\<close> is copied (\<open>memcpy\<close>).\<close>

definition buf_grow :: "buffer \<Rightarrow> nat \<Rightarrow> nat \<Rightarrow> mem_error + buffer" where
  "buf_grow b used n =
     (if used \<le> length b \<and> used \<le> n
      then Inr (take used b @ replicate (n - used) None)
      else Inl OutOfBounds)"

lemma buf_grow_holds:
  assumes "buf_holds b bs" and "length bs \<le> n"
  shows "\<exists>b'. buf_grow b (length bs) n = Inr b' \<and> buf_holds b' bs \<and> length b' = n"
  using assms by (auto simp: buf_grow_def buf_holds_def)

section \<open>Little-endian layout of integers\<close>

fun le_bytes :: "nat \<Rightarrow> 'a::len word \<Rightarrow> byte list" where
  "le_bytes 0 w = []"
| "le_bytes (Suc n) w = ucast w # le_bytes n (drop_bit 8 w)"

fun le_word :: "byte list \<Rightarrow> 'a::len word" where
  "le_word [] = 0"
| "le_word (b # bs) = ucast b OR push_bit 8 (le_word bs)"

lemma length_le_bytes [simp]: "length (le_bytes n w) = n"
  by (induction n arbitrary: w) simp_all

lemma le_bytes_numeral: "le_bytes (numeral k) w = ucast w # le_bytes (pred_numeral k) (drop_bit 8 w)"
  by (simp add: numeral_eq_Suc)

lemma le_word_bytes_mask: "le_word (le_bytes n w) = take_bit (8 * n) w"
proof (induction n arbitrary: w)
  case 0
  then show ?case by simp
next
  case (Suc n)
  have "le_word (le_bytes (Suc n) w) = ucast (ucast w :: byte) OR push_bit 8 (take_bit (8 * n) (drop_bit 8 w))"
    by (simp add: Suc.IH)
  also have "\<dots> = take_bit (8 * Suc n) w"
    by (rule bit_eqI) (auto simp: bit_simps)
  finally show ?case .
qed

lemma le_word_bytes:
  fixes w :: "'a::len word"
  assumes "LENGTH('a) \<le> 8 * n"
  shows "le_word (le_bytes n w) = w"
  using assms by (simp add: le_word_bytes_mask take_bit_word_eq_self)

lemma le_word_roundtrip [simp]:
  "le_word (le_bytes 1 (a :: byte)) = a"
  "le_word (le_bytes 2 (b :: u16)) = b"
  "le_word (le_bytes 4 (c :: u32)) = c"
  "le_word (le_bytes 8 (d :: u64)) = d"
  by (rule le_word_bytes; simp)+

section \<open>Errors of the C++ layer\<close>

text \<open>
  The exceptions the code throws, each with its message, and the faults C++ leaves undefined
  (an access outside a block or to memory that was freed), which the models turn into values
  so that their absence can be proved.
\<close>

datatype va_error =
    MemFault mem_error
  | UseAfterFree
  | ReaderException string
  | ConnectionException string
  | UdpException string

fun is_exception :: "va_error \<Rightarrow> bool" where
  "is_exception (MemFault m) = False"
| "is_exception UseAfterFree = False"
| "is_exception (ReaderException s) = True"
| "is_exception (ConnectionException s) = True"
| "is_exception (UdpException s) = True"

definition liftM :: "mem_error + 'a \<Rightarrow> va_error + 'a" where
  "liftM r = (case r of Inl e \<Rightarrow> Inl (MemFault e) | Inr a \<Rightarrow> Inr a)"

lemma liftM_simps [simp]: "liftM (Inl e) = Inl (MemFault e)" "liftM (Inr a) = Inr a"
  by (simp_all add: liftM_def)

lemma unat_of_nat_add_small:
  fixes w :: "'a::len word"
  assumes "unat w + n < 2 ^ LENGTH('a)"
  shows "unat (w + of_nat n) = unat w + n"
proof -
  have "unat (of_nat n :: 'a word) = n"
    using assms by (simp add: unsigned_of_nat take_bit_nat_eq_self)
  with assms show ?thesis
    by (simp add: unat_word_ariths)
qed

lemma unat_u32_less: "unat (w :: u32) < 4294967296"
  using unsigned_less [of w, where ?'a = nat] by simp

lemma u32_eq_of_nat: "unat (w :: u32) = n \<Longrightarrow> w = of_nat n"
  by auto

section \<open>Checked arithmetic on int\<close>

text \<open>
  Arithmetic on the 32-bit signed type of C: a result outside the type, a division by zero
  and an access through a null pointer are faults (undefined in C), division truncates
  towards zero.
\<close>

datatype c_fault = SignedOverflow | DivByZero | NullPointer

definition c_int :: "int \<Rightarrow> c_fault + int" where
  "c_int n = (if - (2 ^ 31) \<le> n \<and> n < 2 ^ 31 then Inr n else Inl SignedOverflow)"

definition c_add :: "int \<Rightarrow> int \<Rightarrow> c_fault + int" where
  "c_add a b = c_int (a + b)"

definition c_sub :: "int \<Rightarrow> int \<Rightarrow> c_fault + int" where
  "c_sub a b = c_int (a - b)"

definition c_mul :: "int \<Rightarrow> int \<Rightarrow> c_fault + int" where
  "c_mul a b = c_int (a * b)"

definition c_div :: "int \<Rightarrow> int \<Rightarrow> c_fault + int" where
  "c_div a b = (if b = 0 then Inl DivByZero else c_int (a sdiv b))"

lemma c_int_small [c_arith]: "\<bar>n\<bar> < 2 ^ 31 \<Longrightarrow> c_int n = Inr n"
  by (auto simp: c_int_def)

lemma c_ops_small [c_arith]:
  "\<bar>a + b\<bar> < 2 ^ 31 \<Longrightarrow> c_add a b = Inr (a + b)"
  "\<bar>a - b\<bar> < 2 ^ 31 \<Longrightarrow> c_sub a b = Inr (a - b)"
  "\<bar>a * b\<bar> < 2 ^ 31 \<Longrightarrow> c_mul a b = Inr (a * b)"
  by (simp_all add: c_add_def c_sub_def c_mul_def c_int_small)

lemma sdiv_pos: "0 \<le> a \<Longrightarrow> 0 < b \<Longrightarrow> (a :: int) sdiv b = a div b"
  by (simp add: signed_divide_int_def sgn_if)

lemma abs_sdiv_le: "0 < b \<Longrightarrow> \<bar>(a :: int) sdiv b\<bar> \<le> \<bar>a\<bar>"
proof -
  assume b: "0 < b"
  have "\<bar>a\<bar> div b \<le> \<bar>a\<bar>"
    using b by (metis abs_ge_zero int_one_le_iff_zero_less zdiv_mono2 div_by_1 zero_less_one)
  moreover have "0 \<le> \<bar>a\<bar> div b" using b by (simp add: pos_imp_zdiv_nonneg_iff)
  ultimately show ?thesis
    using b by (auto simp: signed_divide_int_def sgn_if)
qed

lemma c_div_small [c_arith]: "0 < b \<Longrightarrow> \<bar>a\<bar> < 2 ^ 31 \<Longrightarrow> c_div a b = Inr (a sdiv b)"
  using abs_sdiv_le [of b a] by (simp add: c_div_def c_int_small)

lemma c_div_zero [simp]: "c_div a 0 = Inl DivByZero"
  by (simp add: c_div_def)

lemma c_ops_not_null [simp]:
  "c_int n \<noteq> Inl NullPointer" "c_add a b \<noteq> Inl NullPointer" "c_sub a b \<noteq> Inl NullPointer"
  "c_mul a b \<noteq> Inl NullPointer" "c_div a b \<noteq> Inl NullPointer"
  by (simp_all add: c_int_def c_add_def c_sub_def c_mul_def c_div_def)

lemma bindR_not_Inl: "r \<noteq> Inl e \<Longrightarrow> (\<And>a. r = Inr a \<Longrightarrow> f a \<noteq> Inl e) \<Longrightarrow> bindR r f \<noteq> Inl e"
  by (auto simp: bindR_Inl_iff)

section \<open>Low bits of words\<close>

lemma and7_less [bit_facts]: "unat ((w :: 'a::len word) AND 7) < 8"
proof -
  have "w AND 7 = take_bit 3 w" by (simp add: take_bit_eq_mask mask_eq_exp_minus_1)
  then have "unat (w AND 7) = take_bit 3 (unat w)" by (simp add: unsigned_take_bit_eq)
  also have "\<dots> < 2 ^ 3" by (rule take_bit_nat_less_exp)
  finally show ?thesis by simp
qed

lemma ucast_and7 [bit_facts]: "unat (ucast ((w :: u32) AND 7) :: byte) < 8"
proof -
  have "ucast (w AND 7) = (ucast w AND 7 :: byte)" by (rule bit_eqI) (auto simp: bit_simps)
  then show ?thesis using and7_less [of "ucast w :: byte"] by simp
qed

lemma ucast_f8_and7 [bit_facts]: "ucast ((w :: u32) AND 0xf8) AND 7 = (0 :: byte)"
proof -
  have "ucast (w AND 0xf8) = (ucast w AND 0xf8 :: byte)" by (rule bit_eqI) (auto simp: bit_simps)
  then have "ucast (w AND 0xf8) AND 7 = (ucast w AND (0xf8 AND 7) :: byte)" by (simp only: and.assoc)
  then show ?thesis by simp
qed

lemma unat_of_nat_mod8 [bit_facts]: "unat (of_nat (k mod 8) :: byte) = k mod 8"
  by (simp add: unsigned_of_nat take_bit_nat_eq_self)

end
