(* ===== verification/Messages.thy ===== *)
theory Messages
  imports VA_Prelude
begin

text \<open>
  The message layer of the front end and back end (\<^verbatim>\<open>comm/bknd\<close>): the reference-counted
  buffers behind \<^verbatim>\<open>Message\<close>, the growing buffer of \<^verbatim>\<open>MessageBuilder\<close> and the bounds-checked
  cursor of \<^verbatim>\<open>MessageReader\<close>.
\<close>

section \<open>Refbuf and Message\<close>

text \<open>
  A \<open>Refbuf\<close> owns the block its constructor is given.  The heap maps the address of every
  live \<open>Refbuf\<close> to it; \<open>next_ref\<close> is the address the next \<open>new\<close> returns.  A \<open>Message\<close> is a
  value with a pointer to its \<open>Refbuf\<close>; a copy of the value is a second owner.  The C++
  type \<open>int\<close> of the header is its two's complement bit pattern.
\<close>

record Refbuf =
  rb_content :: buffer
  refcount :: u32

record heap =
  refbufs :: "nat \<Rightarrow> Refbuf option"
  next_ref :: nat

record Message =
  msg_header :: u32
  msg_length :: u32
  msg_content :: nat

definition Refbuf_new :: "heap \<Rightarrow> buffer \<Rightarrow> heap \<times> nat" where
  "Refbuf_new h buf =
     (h\<lparr>refbufs := (refbufs h)(next_ref h \<mapsto> \<lparr>rb_content = buf, refcount = 1\<rparr>),
        next_ref := Suc (next_ref h)\<rparr>, next_ref h)"

definition Refbuf_getContentPtr :: "heap \<Rightarrow> nat \<Rightarrow> va_error + buffer" where
  "Refbuf_getContentPtr h r =
     (case refbufs h r of None \<Rightarrow> Inl UseAfterFree | Some b \<Rightarrow> Inr (rb_content b))"

definition Refbuf_inc :: "heap \<Rightarrow> nat \<Rightarrow> va_error + heap" where
  "Refbuf_inc h r =
     (case refbufs h r of
        None \<Rightarrow> Inl UseAfterFree
      | Some b \<Rightarrow> Inr (h\<lparr>refbufs := (refbufs h)(r \<mapsto> b\<lparr>refcount := refcount b + 1\<rparr>)\<rparr>))"

text \<open>\<open>dec\<close> deletes the object, and with it the block, when the count reaches zero.\<close>

definition Refbuf_dec :: "heap \<Rightarrow> nat \<Rightarrow> va_error + heap" where
  "Refbuf_dec h r =
     (case refbufs h r of
        None \<Rightarrow> Inl UseAfterFree
      | Some b \<Rightarrow>
          (let c = refcount b - 1
           in if c = 0 then Inr (h\<lparr>refbufs := (refbufs h)(r := None)\<rparr>)
              else Inr (h\<lparr>refbufs := (refbufs h)(r \<mapsto> b\<lparr>refcount := c\<rparr>)\<rparr>)))"

definition Message_new :: "heap \<Rightarrow> u32 \<Rightarrow> u32 \<Rightarrow> buffer \<Rightarrow> heap \<times> Message" where
  "Message_new h hdr len buf =
     (let (h', r) = Refbuf_new h buf
      in (h', \<lparr>msg_header = hdr, msg_length = len, msg_content = r\<rparr>))"

definition Message_getContentPtr :: "heap \<Rightarrow> Message \<Rightarrow> va_error + buffer" where
  "Message_getContentPtr h m = Refbuf_getContentPtr h (msg_content m)"

definition Message_copy :: "heap \<Rightarrow> Message \<Rightarrow> va_error + heap \<times> Message" where
  "Message_copy h other =
     bindR (Refbuf_inc h (msg_content other))
       (\<lambda>h'. Inr (h', \<lparr>msg_header = msg_header other, msg_length = msg_length other,
                       msg_content = msg_content other\<rparr>))"

lemma message_eta [simp]:
  "\<lparr>msg_header = msg_header m, msg_length = msg_length m, msg_content = msg_content m\<rparr> = (m :: Message)"
  "m'\<lparr>msg_header := msg_header m, msg_length := msg_length m, msg_content := msg_content m\<rparr> = (m :: Message)"
  by simp_all

text \<open>\<open>same\<close> is the self-assignment test \<^verbatim>\<open>this == &other\<close>.\<close>

definition Message_assign :: "heap \<Rightarrow> bool \<Rightarrow> Message \<Rightarrow> Message \<Rightarrow> va_error + heap \<times> Message" where
  "Message_assign h same this other =
     (if same then Inr (h, this)
      else bindR (Refbuf_dec h (msg_content this))
        (\<lambda>h1. bindR (Refbuf_inc h1 (msg_content other))
          (\<lambda>h2. Inr (h2, this\<lparr>msg_header := msg_header other, msg_length := msg_length other,
                              msg_content := msg_content other\<rparr>))))"

definition Message_destroy :: "heap \<Rightarrow> Message \<Rightarrow> va_error + heap" where
  "Message_destroy h m = Refbuf_dec h (msg_content m)"

subsection \<open>Programs over message variables\<close>

text \<open>
  A program holds \<open>Message\<close> objects at addresses of the 32-bit hosts; it constructs them,
  copies them into fresh storage, assigns and destroys them, in any order.
\<close>

record mstate =
  mheap :: heap
  mobjs :: "u32 \<Rightarrow> Message option"

definition mstate_init :: mstate where
  "mstate_init = \<lparr>mheap = \<lparr>refbufs = (\<lambda>_. None), next_ref = 0\<rparr>, mobjs = (\<lambda>_. None)\<rparr>"

datatype msg_op =
    Construct u32 u32 u32 buffer
  | CopyTo u32 u32
  | AssignTo u32 u32
  | Destruct u32

text \<open>The operations the language allows: constructors on free non-null storage, everything
  else on live objects.\<close>

fun msg_enabled :: "mstate \<Rightarrow> msg_op \<Rightarrow> bool" where
  "msg_enabled s (Construct a hdr len buf) \<longleftrightarrow> a \<noteq> 0 \<and> mobjs s a = None"
| "msg_enabled s (CopyTo a b) \<longleftrightarrow> a \<noteq> 0 \<and> mobjs s a = None \<and> mobjs s b \<noteq> None"
| "msg_enabled s (AssignTo a b) \<longleftrightarrow> mobjs s a \<noteq> None \<and> mobjs s b \<noteq> None"
| "msg_enabled s (Destruct a) \<longleftrightarrow> mobjs s a \<noteq> None"

fun msg_exec :: "mstate \<Rightarrow> msg_op \<Rightarrow> va_error + mstate" where
  "msg_exec s (Construct a hdr len buf) =
     (let (h, m) = Message_new (mheap s) hdr len buf
      in Inr (s\<lparr>mheap := h, mobjs := (mobjs s)(a \<mapsto> m)\<rparr>))"
| "msg_exec s (CopyTo a b) =
     bindR (Message_copy (mheap s) (the (mobjs s b)))
       (\<lambda>(h, m). Inr (s\<lparr>mheap := h, mobjs := (mobjs s)(a \<mapsto> m)\<rparr>))"
| "msg_exec s (AssignTo a b) =
     bindR (Message_assign (mheap s) (a = b) (the (mobjs s a)) (the (mobjs s b)))
       (\<lambda>(h, m). Inr (s\<lparr>mheap := h, mobjs := (mobjs s)(a \<mapsto> m)\<rparr>))"
| "msg_exec s (Destruct a) =
     bindR (Message_destroy (mheap s) (the (mobjs s a)))
       (\<lambda>h. Inr (s\<lparr>mheap := h, mobjs := (mobjs s)(a := None)\<rparr>))"

inductive msg_reachable :: "mstate \<Rightarrow> bool" where
  start: "msg_reachable mstate_init"
| step: "msg_reachable s \<Longrightarrow> msg_enabled s op \<Longrightarrow> msg_exec s op = Inr t \<Longrightarrow> msg_reachable t"

definition owners :: "mstate \<Rightarrow> nat \<Rightarrow> u32 set" where
  "owners s r = {a. \<exists>m. mobjs s a = Some m \<and> msg_content m = r}"

text \<open>The ownership invariant: the live \<open>Refbuf\<close>s are those some message points to, and every
  count is the number of its owners.\<close>

definition refcount_inv :: "mstate \<Rightarrow> bool" where
  "refcount_inv s \<longleftrightarrow>
     mobjs s 0 = None \<and>
     (\<forall>r. next_ref (mheap s) \<le> r \<longrightarrow> owners s r = {}) \<and>
     (\<forall>r. case refbufs (mheap s) r of
            None \<Rightarrow> owners s r = {}
          | Some b \<Rightarrow> owners s r \<noteq> {} \<and> unat (refcount b) = card (owners s r))"

lemma refcount_inv_slot:
  "refcount_inv s \<Longrightarrow> refbufs (mheap s) r = None \<Longrightarrow> owners s r = {}"
  "refcount_inv s \<Longrightarrow> refbufs (mheap s) r = Some b \<Longrightarrow> owners s r \<noteq> {} \<and> unat (refcount b) = card (owners s r)"
  "refcount_inv s \<Longrightarrow> next_ref (mheap s) \<le> r \<Longrightarrow> owners s r = {}"
  unfolding refcount_inv_def by (auto dest: spec [where x = r])

lemma refcount_invD:
  assumes inv: "refcount_inv s" and a: "mobjs s a = Some m"
  obtains b where "refbufs (mheap s) (msg_content m) = Some b"
    and "unat (refcount b) = card (owners s (msg_content m))"
    and "a \<in> owners s (msg_content m)"
    and "msg_content m < next_ref (mheap s)"
proof -
  have own: "a \<in> owners s (msg_content m)"
    using a by (auto simp: owners_def)
  then obtain b where b: "refbufs (mheap s) (msg_content m) = Some b"
    using refcount_inv_slot(1) [OF inv, of "msg_content m"] by (cases "refbufs (mheap s) (msg_content m)") auto
  moreover have "msg_content m < next_ref (mheap s)"
    using refcount_inv_slot(3) [OF inv, of "msg_content m"] own by (metis empty_iff not_le)
  ultimately show thesis
    using that own refcount_inv_slot(2) [OF inv b] by blast
qed

lemma refcount_inv_live:
  "refcount_inv s \<Longrightarrow> mobjs s a = Some m \<Longrightarrow> \<exists>b. refbufs (mheap s) (msg_content m) = Some b"
  by (rule refcount_invD) auto

lemma owners_update [simp]:
  "owners (s\<lparr>mheap := h, mobjs := (mobjs s)(a \<mapsto> m)\<rparr>) r =
     (if msg_content m = r then insert a (owners s r) else owners s r - {a})"
  "owners (s\<lparr>mheap := h, mobjs := (mobjs s)(a := None)\<rparr>) r = owners s r - {a}"
  by (auto simp: owners_def)

lemma owners_fresh: "mobjs s a = None \<Longrightarrow> a \<notin> owners s r"
  by (simp add: owners_def)

text \<open>No object lives at address 0, so a count never reaches \<open>2^32\<close>.\<close>

lemma card_owners_less: "0 \<notin> A \<Longrightarrow> card (A :: u32 set) < 2 ^ 32"
proof -
  assume "0 \<notin> A"
  then have "A \<subset> (UNIV :: u32 set)" by auto
  then have "card A < card (UNIV :: u32 set)"
    by (rule psubset_card_mono [rotated]) simp
  then show ?thesis by (simp add: card_word)
qed

lemma unat_Suc_refcount:
  assumes "unat (c :: u32) = card A" and "a \<notin> A" and "0 \<notin> insert a (A :: u32 set)"
  shows "unat (c + 1) = card (insert a A)"
proof -
  have "card (insert a A) = Suc (card A)"
    using assms(2) by (simp add: card_insert_disjoint)
  moreover from this have "Suc (card A) < 2 ^ 32"
    using card_owners_less [OF assms(3)] by simp
  ultimately show ?thesis
    using assms(1) unat_of_nat_add_small [of c 1] by simp
qed

lemma unat_pred_refcount:
  assumes "unat (c :: u32) = card A" and "a \<in> (A :: u32 set)"
  shows "unat (c - 1) = card (A - {a})" and "c - 1 = 0 \<longleftrightarrow> A - {a} = {}"
proof -
  have "0 < card A" using assms(2) by (auto simp: card_gt_0_iff)
  then have "c \<noteq> 0" using assms(1) by auto
  then have "unat (c - 1) = unat c - 1" by (simp add: unat_minus_one)
  then show *: "unat (c - 1) = card (A - {a})"
    using assms by (simp add: card_Diff_singleton)
  have "c - 1 = 0 \<longleftrightarrow> unat (c - 1) = 0" by (simp add: unat_eq_0)
  also have "\<dots> \<longleftrightarrow> A - {a} = {}" by (simp add: *)
  finally show "c - 1 = 0 \<longleftrightarrow> A - {a} = {}" .
qed

lemma refcount_inv_zero: "refcount_inv s \<Longrightarrow> 0 \<notin> owners s r"
  by (simp add: refcount_inv_def owners_fresh)

lemma refcount_inv_inc:
  assumes inv: "refcount_inv s" and a: "mobjs s a = None" "a \<noteq> 0"
    and live: "refbufs (mheap s) (msg_content m) = Some b"
  shows "\<exists>h. Refbuf_inc (mheap s) (msg_content m) = Inr h \<and>
    refcount_inv (s\<lparr>mheap := h, mobjs := (mobjs s)(a \<mapsto> m)\<rparr>)"
proof -
  let ?r = "msg_content m"
  have cnt: "unat (refcount b) = card (owners s ?r)" and ne: "owners s ?r \<noteq> {}"
    using refcount_inv_slot(2) [OF inv live] by auto
  have up: "unat (refcount b + 1) = card (insert a (owners s ?r))"
    using unat_Suc_refcount [OF cnt owners_fresh] a refcount_inv_zero [OF inv] by simp
  have lt: "?r < next_ref (mheap s)"
    using refcount_inv_slot(3) [OF inv, of ?r] ne by (metis not_le)
  have "owners s r - {a} = owners s r" for r
    using owners_fresh [of s a r] a(1) by auto
  moreover have "mobjs s 0 = None" using inv by (simp add: refcount_inv_def)
  ultimately show ?thesis
    using a(2) live up lt refcount_inv_slot [OF inv]
    by (auto simp: Refbuf_inc_def refcount_inv_def split: option.split)
qed

lemma refcount_inv_dec:
  assumes inv: "refcount_inv s" and a: "mobjs s a = Some m"
  shows "\<exists>h. Refbuf_dec (mheap s) (msg_content m) = Inr h \<and>
    refcount_inv (s\<lparr>mheap := h, mobjs := (mobjs s)(a := None)\<rparr>)"
proof -
  let ?r = "msg_content m"
  obtain b where live: "refbufs (mheap s) ?r = Some b"
    and cnt: "unat (refcount b) = card (owners s ?r)" and mem: "a \<in> owners s ?r"
    using refcount_invD [OF inv a] by metis
  note down = unat_pred_refcount [OF cnt mem]
  have other: "owners s r - {a} = owners s r" if "r \<noteq> ?r" for r
    using a that by (auto simp: owners_def)
  have z: "mobjs s 0 = None" using inv by (simp add: refcount_inv_def)
  then have "a \<noteq> 0" using a by auto
  with z show ?thesis
    using live down other refcount_inv_slot [OF inv]
    by (auto simp: Refbuf_dec_def Let_def refcount_inv_def split: option.split)
qed

lemma refcount_inv_new:
  assumes inv: "refcount_inv s" and a: "mobjs s a = None" "a \<noteq> 0"
    and new: "Message_new (mheap s) hdr len buf = (h, m)"
  shows "refcount_inv (s\<lparr>mheap := h, mobjs := (mobjs s)(a \<mapsto> m)\<rparr>)"
proof -
  have m: "msg_content m = next_ref (mheap s)" and nx: "next_ref h = Suc (next_ref (mheap s))"
    and h: "refbufs h = (refbufs (mheap s))(next_ref (mheap s) \<mapsto> \<lparr>rb_content = buf, refcount = 1\<rparr>)"
    using new by (auto simp: Message_new_def Refbuf_new_def)
  have "owners s r - {a} = owners s r" for r
    using owners_fresh [of s a r] a(1) by auto
  moreover have "mobjs s 0 = None" using inv by (simp add: refcount_inv_def)
  ultimately show ?thesis
    using a(2) m h nx refcount_inv_slot [OF inv]
    by (auto simp: refcount_inv_def split: option.split)
qed

lemma msg_exec_safe:
  assumes inv: "refcount_inv s" and en: "msg_enabled s op"
  shows "\<exists>t. msg_exec s op = Inr t \<and> refcount_inv t"
proof (cases op)
  case (Construct a hdr len buf)
  then show ?thesis
    using en refcount_inv_new [OF inv] by (auto split: prod.splits)
next
  case (CopyTo a b)
  with en obtain m where m: "mobjs s b = Some m" "mobjs s a = None" "a \<noteq> 0" by auto
  then obtain rb where "refbufs (mheap s) (msg_content m) = Some rb"
    using refcount_inv_live [OF inv] by blast
  from refcount_inv_inc [OF inv m(2,3) this] show ?thesis
    using m CopyTo by (auto simp: Message_copy_def)
next
  case (AssignTo a b)
  with en obtain ma mb where m: "mobjs s a = Some ma" "mobjs s b = Some mb" by auto
  show ?thesis
  proof (cases "a = b")
    case True
    moreover have "(mobjs s)(a \<mapsto> ma) = mobjs s" using m by auto
    ultimately show ?thesis using inv m AssignTo by (auto simp: Message_assign_def)
  next
    case False
    from refcount_inv_dec [OF inv m(1)] obtain h1 where
      h1: "Refbuf_dec (mheap s) (msg_content ma) = Inr h1"
      and inv1: "refcount_inv (s\<lparr>mheap := h1, mobjs := (mobjs s)(a := None)\<rparr>)" (is "refcount_inv ?s1")
      by blast
    have b1: "mobjs ?s1 b = Some mb" and a1: "mobjs ?s1 a = None" using m False by auto
    have "a \<noteq> 0" using inv m by (auto simp: refcount_inv_def)
    moreover obtain rb where "refbufs (mheap ?s1) (msg_content mb) = Some rb"
      using refcount_inv_live [OF inv1 b1] by blast
    ultimately show ?thesis
      using refcount_inv_inc [OF inv1 a1, of mb] h1 m AssignTo False
      by (auto simp: Message_assign_def)
  qed
next
  case (Destruct a)
  then show ?thesis
    using en refcount_inv_dec [OF inv] by (force simp: Message_destroy_def)
qed

lemma refcount_inv_init: "refcount_inv mstate_init"
  by (simp add: refcount_inv_def mstate_init_def owners_def)

lemma msg_reachable_inv: "msg_reachable s \<Longrightarrow> refcount_inv s"
proof (induction rule: msg_reachable.induct)
  case start
  show ?case by (rule refcount_inv_init)
next
  case (step s op t)
  then show ?case using msg_exec_safe [of s op] by auto
qed



end

