(* ===== verification/Marshal.thy ===== *)
theory Marshal
  imports Messages
begin

text \<open>
  \<^verbatim>\<open>MessageBuilder\<close> and \<^verbatim>\<open>MessageReader\<close> of \<^verbatim>\<open>comm/bknd\<close>: typed values are appended to a
  growing block, the block becomes the content of a \<open>Message\<close> without a copy, and a reader
  takes the values out again in the same order.  Signed and unsigned variants of one width
  share their bit pattern; \<open>float\<close> and \<open>double\<close> values are their 32 and 64 bits.
\<close>

section \<open>MessageBuilder\<close>

record MessageBuilder =
  mb_content :: buffer
  init_cap :: u32
  capacity :: u32
  mb_size :: u32
  mb_header :: u32

definition DEFAULT_CAP :: u32 where
  "DEFAULT_CAP = 10"

definition MessageBuilder_new :: "u32 \<Rightarrow> u32 \<Rightarrow> MessageBuilder" where
  "MessageBuilder_new hdr cap =
     \<lparr>mb_content = buf_alloc (unat cap), init_cap = cap, capacity = cap, mb_size = 0, mb_header = hdr\<rparr>"

definition MessageBuilder_default :: MessageBuilder where
  "MessageBuilder_default =
     \<lparr>mb_content = buf_alloc (unat DEFAULT_CAP), init_cap = DEFAULT_CAP, capacity = DEFAULT_CAP,
      mb_size = 0, mb_header = 0\<rparr>"

definition toMessage :: "heap \<Rightarrow> MessageBuilder \<Rightarrow> heap \<times> Message \<times> MessageBuilder" where
  "toMessage h mb =
     (let orgcontent = mb_content mb; orgsize = mb_size mb;
          mb1 = mb\<lparr>capacity := init_cap mb, mb_content := buf_alloc (unat (init_cap mb)), mb_size := 0\<rparr>;
          (h', m) = Message_new h (mb_header mb1) orgsize orgcontent
      in (h', m, mb1))"

definition setHeader :: "MessageBuilder \<Rightarrow> u32 \<Rightarrow> MessageBuilder" where
  "setHeader mb hdr = mb\<lparr>mb_header := hdr\<rparr>"

definition getHeader :: "MessageBuilder \<Rightarrow> u32" where
  "getHeader mb = mb_header mb"

definition reserve :: "MessageBuilder \<Rightarrow> u32 \<Rightarrow> va_error + MessageBuilder" where
  "reserve mb sz =
     (if capacity mb < sz
      then let cap1 = push_bit 1 (capacity mb);
               cap2 = (if cap1 < sz then sz else cap1)
           in bindR (liftM (buf_grow (mb_content mb) (unat (mb_size mb)) (unat cap2)))
                (\<lambda>new_content. Inr (mb\<lparr>mb_content := new_content, capacity := cap2\<rparr>))
      else Inr mb)"

text \<open>A store of \<open>bs\<close> at \<^verbatim>\<open>content + size\<close> followed by \<^verbatim>\<open>size +=\<close> the number of bytes.\<close>

definition append_raw :: "MessageBuilder \<Rightarrow> byte list \<Rightarrow> va_error + MessageBuilder" where
  "append_raw mb bs =
     bindR (liftM (buf_store (mb_content mb) (unat (mb_size mb)) bs))
       (\<lambda>c. Inr (mb\<lparr>mb_content := c, mb_size := mb_size mb + of_nat (length bs)\<rparr>))"

text \<open>The shared body of the scalar \<open>write\<close> overloads: reserve, store, advance.\<close>

definition write_scalar :: "MessageBuilder \<Rightarrow> byte list \<Rightarrow> va_error + MessageBuilder" where
  "write_scalar mb bs =
     bindR (reserve mb (mb_size mb + of_nat (length bs))) (\<lambda>mb1. append_raw mb1 bs)"

definition write_char :: "MessageBuilder \<Rightarrow> byte \<Rightarrow> va_error + MessageBuilder" where
  "write_char mb v = write_scalar mb (le_bytes 1 v)"

definition write_uchar :: "MessageBuilder \<Rightarrow> byte \<Rightarrow> va_error + MessageBuilder" where
  "write_uchar mb v = write_scalar mb (le_bytes 1 v)"

definition write_short :: "MessageBuilder \<Rightarrow> u16 \<Rightarrow> va_error + MessageBuilder" where
  "write_short mb v = write_scalar mb (le_bytes 2 v)"

definition write_ushort :: "MessageBuilder \<Rightarrow> u16 \<Rightarrow> va_error + MessageBuilder" where
  "write_ushort mb v = write_scalar mb (le_bytes 2 v)"

definition write_int :: "MessageBuilder \<Rightarrow> u32 \<Rightarrow> va_error + MessageBuilder" where
  "write_int mb v = write_scalar mb (le_bytes 4 v)"

definition write_uint :: "MessageBuilder \<Rightarrow> u32 \<Rightarrow> va_error + MessageBuilder" where
  "write_uint mb v = write_scalar mb (le_bytes 4 v)"

definition write_int64 :: "MessageBuilder \<Rightarrow> u64 \<Rightarrow> va_error + MessageBuilder" where
  "write_int64 mb v = write_scalar mb (le_bytes 8 v)"

definition write_uint64 :: "MessageBuilder \<Rightarrow> u64 \<Rightarrow> va_error + MessageBuilder" where
  "write_uint64 mb v = write_scalar mb (le_bytes 8 v)"

definition write_float :: "MessageBuilder \<Rightarrow> u32 \<Rightarrow> va_error + MessageBuilder" where
  "write_float mb v = write_scalar mb (le_bytes 4 v)"

definition write_double :: "MessageBuilder \<Rightarrow> u64 \<Rightarrow> va_error + MessageBuilder" where
  "write_double mb v = write_scalar mb (le_bytes 8 v)"

definition write_string :: "MessageBuilder \<Rightarrow> byte list \<Rightarrow> va_error + MessageBuilder" where
  "write_string mb value =
     bindR (reserve mb (mb_size mb + 4 + of_nat (length value)))
       (\<lambda>mb1. bindR (append_raw mb1 (le_bytes 4 (of_nat (length value) :: u32)))
         (\<lambda>mb2. append_raw mb2 value))"

definition write_bytes :: "MessageBuilder \<Rightarrow> byte list \<Rightarrow> va_error + MessageBuilder" where
  "write_bytes mb bytes =
     bindR (reserve mb (mb_size mb + of_nat (length bytes))) (\<lambda>mb1. append_raw mb1 bytes)"

section \<open>MessageReader\<close>

text \<open>The reader owns a copy of the message, which keeps the block of \<open>content\<close> alive.\<close>

record MessageReader =
  rd_message :: Message
  rd_content :: buffer
  seek_pos :: u32

definition MessageReader_new :: "heap \<Rightarrow> Message \<Rightarrow> va_error + heap \<times> MessageReader" where
  "MessageReader_new h mess =
     bindR (Message_copy h mess)
       (\<lambda>(h', m). bindR (Message_getContentPtr h' m)
         (\<lambda>c. Inr (h', \<lparr>rd_message = m, rd_content = c, seek_pos = 0\<rparr>)))"

definition MessageReader_destroy :: "heap \<Rightarrow> MessageReader \<Rightarrow> va_error + heap" where
  "MessageReader_destroy h r = Message_destroy h (rd_message r)"

definition getSize :: "MessageReader \<Rightarrow> u32" where
  "getSize r = msg_length (rd_message r)"

definition getSeekPos :: "MessageReader \<Rightarrow> u32" where
  "getSeekPos r = seek_pos r"

definition tell :: "MessageReader \<Rightarrow> u32" where
  "tell r = seek_pos r"

definition seek :: "MessageReader \<Rightarrow> u32 \<Rightarrow> va_error + MessageReader" where
  "seek r pos =
     (if getSize r < pos then Inl (ReaderException ''Seek out of range.'')
      else Inr (r\<lparr>seek_pos := pos\<rparr>))"

definition assureSize :: "MessageReader \<Rightarrow> u32 \<Rightarrow> va_error + unit" where
  "assureSize r size_to_read =
     (if getSize r < seek_pos r + size_to_read then Inl (ReaderException ''Not enough data to read.'')
      else Inr ())"

text \<open>A load of \<open>n\<close> bytes at \<^verbatim>\<open>content + seek_pos\<close>, after which the cursor moves by \<open>n\<close>.\<close>

definition take_raw :: "MessageReader \<Rightarrow> u32 \<Rightarrow> va_error + byte list \<times> MessageReader" where
  "take_raw r n =
     bindR (liftM (buf_load (rd_content r) (unat (seek_pos r)) (unat n)))
       (\<lambda>bs. Inr (bs, r\<lparr>seek_pos := seek_pos r + n\<rparr>))"

definition read_scalar :: "u32 \<Rightarrow> MessageReader \<Rightarrow> va_error + 'a::len word \<times> MessageReader" where
  "read_scalar n r =
     bindR (assureSize r n)
       (\<lambda>_. bindR (take_raw r n) (\<lambda>(bs, r'). Inr (le_word bs, r')))"

definition readSByte :: "MessageReader \<Rightarrow> va_error + byte \<times> MessageReader" where
  "readSByte r = read_scalar 1 r"

definition readByte :: "MessageReader \<Rightarrow> va_error + byte \<times> MessageReader" where
  "readByte r = read_scalar 1 r"

definition readInt16 :: "MessageReader \<Rightarrow> va_error + u16 \<times> MessageReader" where
  "readInt16 r = read_scalar 2 r"

definition readUInt16 :: "MessageReader \<Rightarrow> va_error + u16 \<times> MessageReader" where
  "readUInt16 r = read_scalar 2 r"

definition readInt32 :: "MessageReader \<Rightarrow> va_error + u32 \<times> MessageReader" where
  "readInt32 r = read_scalar 4 r"

definition readUInt32 :: "MessageReader \<Rightarrow> va_error + u32 \<times> MessageReader" where
  "readUInt32 r = read_scalar 4 r"

definition readInt64 :: "MessageReader \<Rightarrow> va_error + u64 \<times> MessageReader" where
  "readInt64 r = read_scalar 8 r"

definition readUInt64 :: "MessageReader \<Rightarrow> va_error + u64 \<times> MessageReader" where
  "readUInt64 r = read_scalar 8 r"

definition readString :: "MessageReader \<Rightarrow> va_error + byte list \<times> MessageReader" where
  "readString r =
     bindR (readUInt32 r)
       (\<lambda>(sz, r1). bindR (assureSize r1 sz) (\<lambda>_. take_raw r1 sz))"

definition readBytes :: "MessageReader \<Rightarrow> u32 \<Rightarrow> va_error + byte list \<times> MessageReader" where
  "readBytes r sz = bindR (assureSize r sz) (\<lambda>_. take_raw r sz)"

section \<open>The abstract view: a builder or reader over a byte string\<close>

text \<open>
  \<open>mb_rep mb bs\<close>: the block has the recorded capacity and its initialised prefix, of the
  recorded size, is \<open>bs\<close>.  \<open>rd_rep r bs\<close>: the reader's message has the content \<open>bs\<close>.
\<close>

definition mb_rep :: "MessageBuilder \<Rightarrow> byte list \<Rightarrow> bool" where
  "mb_rep mb bs \<longleftrightarrow> buf_holds (mb_content mb) bs \<and> length (mb_content mb) = unat (capacity mb) \<and>
     unat (mb_size mb) = length bs"

definition rd_rep :: "MessageReader \<Rightarrow> byte list \<Rightarrow> bool" where
  "rd_rep r bs \<longleftrightarrow> buf_holds (rd_content r) bs \<and> unat (msg_length (rd_message r)) = length bs"

lemma mb_rep_new: "mb_rep (MessageBuilder_new hdr cap) []" "mb_rep MessageBuilder_default []"
  by (simp_all add: mb_rep_def MessageBuilder_new_def MessageBuilder_default_def)

lemma mb_rep_size: "mb_rep mb bs \<Longrightarrow> unat (mb_size mb) = length bs"
  by (simp add: mb_rep_def)

lemma mb_rep_bound: "mb_rep mb bs \<Longrightarrow> length bs < 2 ^ 32"
  using unat_u32_less [of "mb_size mb"] by (simp add: mb_rep_def)

text \<open>\<open>reserve\<close> always leaves room for the requested size, whatever the doubling wraps to, and
  keeps the bytes written so far.\<close>

lemma reserve_rep:
  assumes "mb_rep mb bs" and "length bs \<le> unat sz"
  shows "\<exists>mb'. reserve mb sz = Inr mb' \<and> mb_rep mb' bs \<and> sz \<le> capacity mb' \<and>
    mb_size mb' = mb_size mb \<and> mb_header mb' = mb_header mb \<and> init_cap mb' = init_cap mb"
proof (cases "capacity mb < sz")
  case True
  define cap2 where "cap2 = (if push_bit 1 (capacity mb) < sz then sz else push_bit 1 (capacity mb))"
  have "sz \<le> cap2" by (auto simp: cap2_def not_less)
  then have "length bs \<le> unat cap2"
    using assms(2) by (meson le_trans word_le_nat_alt)
  then obtain c where "buf_grow (mb_content mb) (length bs) (unat cap2) = Inr c"
    "buf_holds c bs" "length c = unat cap2"
    using buf_grow_holds [of "mb_content mb" bs "unat cap2"] assms(1) by (auto simp: mb_rep_def)
  moreover have "reserve mb sz =
      bindR (liftM (buf_grow (mb_content mb) (unat (mb_size mb)) (unat cap2)))
        (\<lambda>c. Inr (mb\<lparr>mb_content := c, capacity := cap2\<rparr>))"
    using True by (simp add: reserve_def cap2_def Let_def)
  ultimately show ?thesis
    using \<open>sz \<le> cap2\<close> assms(1) by (auto simp: mb_rep_def)
next
  case False
  then show ?thesis using assms by (auto simp: reserve_def)
qed

lemma append_raw_rep:
  assumes "mb_rep mb bs" and "length bs + length xs \<le> unat (capacity mb)"
  shows "\<exists>mb'. append_raw mb xs = Inr mb' \<and> mb_rep mb' (bs @ xs) \<and> capacity mb' = capacity mb \<and>
    mb_header mb' = mb_header mb \<and> init_cap mb' = init_cap mb"
proof -
  have "unat (mb_size mb) + length xs < 2 ^ LENGTH(32)"
    using assms unat_u32_less [of "capacity mb"] by (simp add: mb_rep_def)
  from unat_of_nat_add_small [OF this]
  have "unat (mb_size mb + of_nat (length xs)) = length bs + length xs"
    using assms(1) by (simp add: mb_rep_def)
  moreover obtain c where "buf_store (mb_content mb) (length bs) xs = Inr c"
    "buf_holds c (bs @ xs)" "length c = length (mb_content mb)"
    using buf_holds_append [of "mb_content mb" bs xs] assms by (auto simp: mb_rep_def)
  ultimately show ?thesis
    using assms(1) by (auto simp: append_raw_def mb_rep_def)
qed

lemma write_scalar_rep:
  assumes "mb_rep mb bs" and "length bs + length xs < 2 ^ 32"
  shows "\<exists>mb'. write_scalar mb xs = Inr mb' \<and> mb_rep mb' (bs @ xs) \<and>
    mb_header mb' = mb_header mb \<and> init_cap mb' = init_cap mb"
proof -
  have sz: "unat (mb_size mb + of_nat (length xs)) = length bs + length xs"
    using assms unat_of_nat_add_small [of "mb_size mb" "length xs"] by (simp add: mb_rep_def)
  then obtain mb1 where mb1: "reserve mb (mb_size mb + of_nat (length xs)) = Inr mb1" "mb_rep mb1 bs"
    "mb_size mb + of_nat (length xs) \<le> capacity mb1" "mb_header mb1 = mb_header mb" "init_cap mb1 = init_cap mb"
    using reserve_rep [OF assms(1), of "mb_size mb + of_nat (length xs)"] by auto
  then have "length bs + length xs \<le> unat (capacity mb1)"
    using sz by (metis word_le_nat_alt)
  from append_raw_rep [OF mb1(2) this] show ?thesis
    using mb1 by (auto simp: write_scalar_def)
qed

lemma write_bytes_eq: "write_bytes mb bs = write_scalar mb bs"
  by (simp add: write_bytes_def write_scalar_def)

lemma write_string_rep:
  assumes "mb_rep mb bs" and "length bs + 4 + length xs < 2 ^ 32"
  shows "\<exists>mb'. write_string mb xs = Inr mb' \<and>
    mb_rep mb' (bs @ le_bytes 4 (of_nat (length xs) :: u32) @ xs) \<and>
    mb_header mb' = mb_header mb \<and> init_cap mb' = init_cap mb"
proof -
  let ?sz = "mb_size mb + 4 + of_nat (length xs)"
  have "unat (mb_size mb + of_nat (4 + length xs)) = length bs + (4 + length xs)"
    using assms unat_of_nat_add_small [of "mb_size mb" "4 + length xs"] by (simp add: mb_rep_def)
  then have sz: "unat ?sz = length bs + 4 + length xs"
    by (simp add: add.assoc)
  then obtain mb1 where mb1: "reserve mb ?sz = Inr mb1" "mb_rep mb1 bs"
    "?sz \<le> capacity mb1" "mb_header mb1 = mb_header mb" "init_cap mb1 = init_cap mb"
    using reserve_rep [OF assms(1), of ?sz] by auto
  then have room: "length bs + 4 + length xs \<le> unat (capacity mb1)"
    using sz by (metis word_le_nat_alt)
  obtain mb2 where mb2: "append_raw mb1 (le_bytes 4 (of_nat (length xs) :: u32)) = Inr mb2"
    "mb_rep mb2 (bs @ le_bytes 4 (of_nat (length xs) :: u32))" "capacity mb2 = capacity mb1"
    "mb_header mb2 = mb_header mb" "init_cap mb2 = init_cap mb"
    using append_raw_rep [OF mb1(2), of "le_bytes 4 (of_nat (length xs) :: u32)"] room mb1 by auto
  obtain mb3 where "append_raw mb2 xs = Inr mb3"
    "mb_rep mb3 ((bs @ le_bytes 4 (of_nat (length xs) :: u32)) @ xs)"
    "mb_header mb3 = mb_header mb" "init_cap mb3 = init_cap mb"
    using append_raw_rep [OF mb2(2), of xs] room mb2 by auto
  then show ?thesis
    using mb1 mb2 by (auto simp: write_string_def)
qed

section \<open>Reading inside and outside the message\<close>

lemma rd_rep_seek [simp]: "rd_rep (r\<lparr>seek_pos := p\<rparr>) bs = rd_rep r bs"
  by (simp add: rd_rep_def)

lemma rd_rep_bound: "rd_rep r bs \<Longrightarrow> length bs < 2 ^ 32"
  using unat_u32_less [of "msg_length (rd_message r)"] by (simp add: rd_rep_def)

lemma unat_plus_u32:
  "unat (a :: u32) + unat b < 2 ^ 32 \<Longrightarrow> unat (a + b) = unat a + unat b"
  by (simp add: unat_word_ariths)

lemma unat_plus_u32_wrap:
  assumes "2 ^ 32 \<le> unat (a :: u32) + unat b"
  shows "unat (a + b) = unat a + unat b - 2 ^ 32"
proof -
  have "unat a + unat b < 2 * 2 ^ 32"
    using unat_u32_less [of a] unat_u32_less [of b] by simp
  then have "(unat a + unat b) mod 2 ^ 32 = unat a + unat b - 2 ^ 32"
    using assms by (simp add: mod_if)
  then show ?thesis by (simp add: unat_word_ariths)
qed

lemma assureSize_ok:
  assumes "rd_rep r bs" and "unat (seek_pos r) + unat n \<le> length bs"
  shows "assureSize r n = Inr ()"
proof -
  have "unat (seek_pos r + n) = unat (seek_pos r) + unat n"
    using assms rd_rep_bound [OF assms(1)] by (intro unat_plus_u32) simp
  then have "\<not> getSize r < seek_pos r + n"
    using assms by (simp add: rd_rep_def getSize_def word_less_nat_alt)
  then show ?thesis by (simp add: assureSize_def)
qed

lemma assureSize_short:
  assumes "rd_rep r bs" and "length bs < unat (seek_pos r) + unat n"
    and "unat (seek_pos r) + unat n < 2 ^ 32"
  shows "assureSize r n = Inl (ReaderException ''Not enough data to read.'')"
proof -
  have "getSize r < seek_pos r + n"
    using assms unat_plus_u32 [of "seek_pos r" n] by (simp add: rd_rep_def getSize_def word_less_nat_alt)
  then show ?thesis by (simp add: assureSize_def)
qed

lemma take_raw_rep:
  assumes "rd_rep r bs" and "unat (seek_pos r) + unat n \<le> length bs"
  shows "take_raw r n = Inr (take (unat n) (drop (unat (seek_pos r)) bs), r\<lparr>seek_pos := seek_pos r + n\<rparr>)"
  using assms by (simp add: take_raw_def rd_rep_def buf_holds_load [of "rd_content r" bs])

lemma read_scalar_rep:
  assumes "rd_rep r (pre @ le_bytes k w @ post)" and "unat (seek_pos r) = length pre"
    and "unat n = k" and "LENGTH('a) \<le> 8 * k"
  shows "read_scalar n r = Inr (w :: 'a::len word, r\<lparr>seek_pos := seek_pos r + n\<rparr>)"
proof -
  have "unat (seek_pos r) + unat n \<le> length (pre @ le_bytes k w @ post)"
    using assms by simp
  from assureSize_ok [OF assms(1) this] take_raw_rep [OF assms(1) this] show ?thesis
    using assms(2-4) by (simp add: read_scalar_def le_word_bytes)
qed

text \<open>What a reader that starts inside its message can do when it reads a value of fixed size.\<close>

lemma read_scalar_total:
  assumes "rd_rep r bs" and "unat (seek_pos r) \<le> length bs" and "length bs + unat n < 2 ^ 32"
  shows "(\<exists>v. read_scalar n r = Inr (v :: 'a::len word, r\<lparr>seek_pos := seek_pos r + n\<rparr>) \<and>
       unat (seek_pos r) + unat n \<le> length bs) \<or>
     read_scalar n r = (Inl (ReaderException ''Not enough data to read.'') :: va_error + 'a word \<times> MessageReader)"
proof (cases "unat (seek_pos r) + unat n \<le> length bs")
  case True
  then show ?thesis
    using assureSize_ok [OF assms(1) True] take_raw_rep [OF assms(1) True] by (simp add: read_scalar_def)
next
  case False
  then have "assureSize r n = Inl (ReaderException ''Not enough data to read.'')"
    using assms by (intro assureSize_short [OF assms(1)]) auto
  then show ?thesis by (simp add: read_scalar_def)
qed

section \<open>Wire types\<close>

text \<open>
  The contract between a \<open>write\<close> overload and its reader: the writer appends the encoding of
  the value, the reader standing at an encoding returns the value and moves behind it.
\<close>

locale wire_type =
  fixes wr :: "MessageBuilder \<Rightarrow> 'v \<Rightarrow> va_error + MessageBuilder"
    and rd :: "MessageReader \<Rightarrow> va_error + 'v \<times> MessageReader"
    and enc :: "'v \<Rightarrow> byte list"
    and ok :: "'v \<Rightarrow> bool"
  assumes wr_appends: "mb_rep mb bs \<Longrightarrow> ok v \<Longrightarrow> length bs + length (enc v) < 2 ^ 32 \<Longrightarrow>
      \<exists>mb'. wr mb v = Inr mb' \<and> mb_rep mb' (bs @ enc v) \<and>
        mb_header mb' = mb_header mb \<and> init_cap mb' = init_cap mb"
    and rd_takes: "rd_rep r (pre @ enc v @ post) \<Longrightarrow> ok v \<Longrightarrow> unat (seek_pos r) = length pre \<Longrightarrow>
      rd r = Inr (v, r\<lparr>seek_pos := seek_pos r + of_nat (length (enc v))\<rparr>)"
begin

lemma rd_next:
  assumes "rd_rep r (pre @ enc v @ post)" and "ok v" and "unat (seek_pos r) = length pre"
  shows "\<exists>r'. rd r = Inr (v, r') \<and> rd_rep r' ((pre @ enc v) @ post) \<and>
    unat (seek_pos r') = length (pre @ enc v) \<and> rd_message r' = rd_message r"
proof -
  have "length pre + length (enc v) < 2 ^ 32"
    using rd_rep_bound [OF assms(1)] by simp
  then have "unat (seek_pos r + of_nat (length (enc v))) = length pre + length (enc v)"
    using unat_of_nat_add_small [of "seek_pos r" "length (enc v)"] assms(3) by simp
  then show ?thesis
    using rd_takes [OF assms] assms(1) by simp
qed

end

interpretation w_sbyte: wire_type write_char readSByte "le_bytes 1" "\<lambda>_. True"
  by unfold_locales
    (simp_all add: write_char_def readSByte_def write_scalar_rep read_scalar_rep del: le_bytes.simps)

interpretation w_byte: wire_type write_uchar readByte "le_bytes 1" "\<lambda>_. True"
  by unfold_locales
    (simp_all add: write_uchar_def readByte_def write_scalar_rep read_scalar_rep del: le_bytes.simps)

interpretation w_int16: wire_type write_short readInt16 "le_bytes 2" "\<lambda>_. True"
  by unfold_locales
    (simp_all add: write_short_def readInt16_def write_scalar_rep read_scalar_rep del: le_bytes.simps)

interpretation w_uint16: wire_type write_ushort readUInt16 "le_bytes 2" "\<lambda>_. True"
  by unfold_locales
    (simp_all add: write_ushort_def readUInt16_def write_scalar_rep read_scalar_rep del: le_bytes.simps)

interpretation w_int32: wire_type write_int readInt32 "le_bytes 4" "\<lambda>_. True"
  by unfold_locales
    (simp_all add: write_int_def readInt32_def write_scalar_rep read_scalar_rep del: le_bytes.simps)

interpretation w_uint32: wire_type write_uint readUInt32 "le_bytes 4" "\<lambda>_. True"
  by unfold_locales
    (simp_all add: write_uint_def readUInt32_def write_scalar_rep read_scalar_rep del: le_bytes.simps)

interpretation w_int64: wire_type write_int64 readInt64 "le_bytes 8" "\<lambda>_. True"
  by unfold_locales
    (simp_all add: write_int64_def readInt64_def write_scalar_rep read_scalar_rep del: le_bytes.simps)

interpretation w_uint64: wire_type write_uint64 readUInt64 "le_bytes 8" "\<lambda>_. True"
  by unfold_locales
    (simp_all add: write_uint64_def readUInt64_def write_scalar_rep read_scalar_rep del: le_bytes.simps)

text \<open>A string is its length in four bytes and its characters; a byte block has no length of
  its own, so its reader is told how many bytes to take.\<close>

definition enc_string :: "byte list \<Rightarrow> byte list" where
  "enc_string xs = le_bytes 4 (of_nat (length xs) :: u32) @ xs"

lemma take_raw_wire:
  assumes "rd_rep r (pre @ xs @ post)" and "unat (seek_pos r) = length pre" and "unat n = length xs"
  shows "assureSize r n = Inr ()" and "take_raw r n = Inr (xs, r\<lparr>seek_pos := seek_pos r + n\<rparr>)"
proof -
  have le: "unat (seek_pos r) + unat n \<le> length (pre @ xs @ post)"
    using assms by simp
  show "assureSize r n = Inr ()" by (rule assureSize_ok [OF assms(1) le])
  show "take_raw r n = Inr (xs, r\<lparr>seek_pos := seek_pos r + n\<rparr>)"
    using take_raw_rep [OF assms(1) le] assms(2,3) by simp
qed

lemma readString_wire:
  assumes rep: "rd_rep r (pre @ enc_string xs @ post)" and pos: "unat (seek_pos r) = length pre"
  shows "readString r = Inr (xs, r\<lparr>seek_pos := seek_pos r + of_nat (length (enc_string xs))\<rparr>)"
proof -
  let ?n = "of_nat (length xs) :: u32"
  have "length xs < 2 ^ 32"
    using rd_rep_bound [OF rep] by (simp add: enc_string_def)
  then have n: "unat ?n = length xs"
    by (simp add: unsigned_of_nat take_bit_nat_eq_self)
  have rep1: "rd_rep r (pre @ le_bytes 4 ?n @ xs @ post)"
    using rep by (simp add: enc_string_def)
  obtain r1 where r1: "readUInt32 r = Inr (?n, r1)" "rd_rep r1 ((pre @ le_bytes 4 ?n) @ xs @ post)"
    "unat (seek_pos r1) = length (pre @ le_bytes 4 ?n)"
    using w_uint32.rd_next [OF rep1 TrueI pos] by blast
  have r1_eq: "r1 = r\<lparr>seek_pos := seek_pos r + 4\<rparr>"
    using w_uint32.rd_takes [OF rep1 TrueI pos] r1(1) by simp
  show ?thesis
    using r1(1) take_raw_wire [OF r1(2,3) n] r1_eq
    by (simp add: readString_def enc_string_def add.assoc)
qed

interpretation w_string: wire_type write_string readString enc_string "\<lambda>_. True"
proof
  fix mb bs v
  assume "mb_rep mb bs" "length bs + length (enc_string v) < 2 ^ 32"
  then show "\<exists>mb'. write_string mb v = Inr mb' \<and> mb_rep mb' (bs @ enc_string v) \<and>
      mb_header mb' = mb_header mb \<and> init_cap mb' = init_cap mb"
    using write_string_rep [of mb bs v] by (simp add: enc_string_def)
qed (rule readString_wire)

interpretation w_bytes: wire_type write_bytes "\<lambda>r. readBytes r (of_nat n)" "\<lambda>xs. xs"
  "\<lambda>xs. length xs = n \<and> n < 2 ^ 32" for n
proof
  fix r pre v post
  assume "rd_rep r (pre @ v @ post)" "length v = n \<and> n < 2 ^ 32" "unat (seek_pos r) = length pre"
  then show "readBytes r (of_nat n) = Inr (v, r\<lparr>seek_pos := seek_pos r + of_nat (length v)\<rparr>)"
    using take_raw_wire [of r pre v post "of_nat n"]
    by (simp add: readBytes_def unsigned_of_nat take_bit_nat_eq_self)
qed (simp add: write_bytes_eq write_scalar_rep)

section \<open>Whole messages\<close>

datatype field =
    SByte byte | Byte byte | Int16 u16 | UInt16 u16 | Int32 u32 | UInt32 u32
  | Int64 u64 | UInt64 u64 | Str "byte list" | Bytes "byte list"

datatype field_type =
    TSByte | TByte | TInt16 | TUInt16 | TInt32 | TUInt32 | TInt64 | TUInt64 | TStr | TBytes nat

fun type_of_field :: "field \<Rightarrow> field_type" where
  "type_of_field (SByte v) = TSByte"
| "type_of_field (Byte v) = TByte"
| "type_of_field (Int16 v) = TInt16"
| "type_of_field (UInt16 v) = TUInt16"
| "type_of_field (Int32 v) = TInt32"
| "type_of_field (UInt32 v) = TUInt32"
| "type_of_field (Int64 v) = TInt64"
| "type_of_field (UInt64 v) = TUInt64"
| "type_of_field (Str v) = TStr"
| "type_of_field (Bytes v) = TBytes (length v)"

fun enc_field :: "field \<Rightarrow> byte list" where
  "enc_field (SByte v) = le_bytes 1 v"
| "enc_field (Byte v) = le_bytes 1 v"
| "enc_field (Int16 v) = le_bytes 2 v"
| "enc_field (UInt16 v) = le_bytes 2 v"
| "enc_field (Int32 v) = le_bytes 4 v"
| "enc_field (UInt32 v) = le_bytes 4 v"
| "enc_field (Int64 v) = le_bytes 8 v"
| "enc_field (UInt64 v) = le_bytes 8 v"
| "enc_field (Str v) = enc_string v"
| "enc_field (Bytes v) = v"

fun write_field :: "MessageBuilder \<Rightarrow> field \<Rightarrow> va_error + MessageBuilder" where
  "write_field mb (SByte v) = write_char mb v"
| "write_field mb (Byte v) = write_uchar mb v"
| "write_field mb (Int16 v) = write_short mb v"
| "write_field mb (UInt16 v) = write_ushort mb v"
| "write_field mb (Int32 v) = write_int mb v"
| "write_field mb (UInt32 v) = write_uint mb v"
| "write_field mb (Int64 v) = write_int64 mb v"
| "write_field mb (UInt64 v) = write_uint64 mb v"
| "write_field mb (Str v) = write_string mb v"
| "write_field mb (Bytes v) = write_bytes mb v"

definition tag :: "('v \<Rightarrow> field) \<Rightarrow> va_error + 'v \<times> MessageReader \<Rightarrow> va_error + field \<times> MessageReader" where
  "tag c x = bindR x (\<lambda>(v, r). Inr (c v, r))"

lemma tag_Inr [simp]: "tag c (Inr (v, r)) = Inr (c v, r)"
  by (simp add: tag_def)

fun read_field :: "MessageReader \<Rightarrow> field_type \<Rightarrow> va_error + field \<times> MessageReader" where
  "read_field r TSByte = tag SByte (readSByte r)"
| "read_field r TByte = tag Byte (readByte r)"
| "read_field r TInt16 = tag Int16 (readInt16 r)"
| "read_field r TUInt16 = tag UInt16 (readUInt16 r)"
| "read_field r TInt32 = tag Int32 (readInt32 r)"
| "read_field r TUInt32 = tag UInt32 (readUInt32 r)"
| "read_field r TInt64 = tag Int64 (readInt64 r)"
| "read_field r TUInt64 = tag UInt64 (readUInt64 r)"
| "read_field r TStr = tag Str (readString r)"
| "read_field r (TBytes n) = tag Bytes (readBytes r (of_nat n))"

fun write_fields :: "MessageBuilder \<Rightarrow> field list \<Rightarrow> va_error + MessageBuilder" where
  "write_fields mb [] = Inr mb"
| "write_fields mb (f # fs) = bindR (write_field mb f) (\<lambda>mb'. write_fields mb' fs)"

fun read_fields :: "MessageReader \<Rightarrow> field_type list \<Rightarrow> va_error + field list \<times> MessageReader" where
  "read_fields r [] = Inr ([], r)"
| "read_fields r (t # ts) =
     bindR (read_field r t) (\<lambda>(f, r'). bindR (read_fields r' ts) (\<lambda>(fs, r''). Inr (f # fs, r'')))"

lemma write_field_appends:
  assumes "mb_rep mb bs" and "length bs + length (enc_field f) < 2 ^ 32"
  shows "\<exists>mb'. write_field mb f = Inr mb' \<and> mb_rep mb' (bs @ enc_field f) \<and>
    mb_header mb' = mb_header mb \<and> init_cap mb' = init_cap mb"
  using assms
  by (cases f)
    (simp_all add: w_sbyte.wr_appends w_byte.wr_appends w_int16.wr_appends w_uint16.wr_appends
      w_int32.wr_appends w_uint32.wr_appends w_int64.wr_appends w_uint64.wr_appends
      w_string.wr_appends write_bytes_eq write_scalar_rep del: le_bytes.simps One_nat_def)

lemma read_field_takes:
  assumes "rd_rep r (pre @ enc_field f @ post)" and "unat (seek_pos r) = length pre"
  shows "read_field r (type_of_field f) = Inr (f, r\<lparr>seek_pos := seek_pos r + of_nat (length (enc_field f))\<rparr>)"
proof -
  have "length (enc_field f) < 2 ^ 32"
    using rd_rep_bound [OF assms(1)] by simp
  then show ?thesis
    using assms
    by (cases f)
      (simp_all add: w_sbyte.rd_takes w_byte.rd_takes w_int16.rd_takes w_uint16.rd_takes
        w_int32.rd_takes w_uint32.rd_takes w_int64.rd_takes w_uint64.rd_takes
        w_string.rd_takes w_bytes.rd_takes del: le_bytes.simps One_nat_def)
qed

interpretation w_field: wire_type write_field "\<lambda>r. read_field r t" enc_field "\<lambda>f. type_of_field f = t" for t
  by unfold_locales (use write_field_appends read_field_takes in auto)

abbreviation enc_fields :: "field list \<Rightarrow> byte list" where
  "enc_fields fs \<equiv> concat (map enc_field fs)"

lemma write_fields_appends:
  assumes "mb_rep mb bs" and "length bs + length (enc_fields fs) < 2 ^ 32"
  shows "\<exists>mb'. write_fields mb fs = Inr mb' \<and> mb_rep mb' (bs @ enc_fields fs) \<and>
    mb_header mb' = mb_header mb \<and> init_cap mb' = init_cap mb"
  using assms
proof (induction fs arbitrary: mb bs)
  case Nil
  then show ?case by simp
next
  case (Cons f fs)
  then obtain mb1 where "write_field mb f = Inr mb1" "mb_rep mb1 (bs @ enc_field f)"
    "mb_header mb1 = mb_header mb" "init_cap mb1 = init_cap mb"
    using write_field_appends [of mb bs f] by auto
  with Cons.IH [of mb1 "bs @ enc_field f"] Cons.prems(2) show ?case by auto
qed

lemma read_fields_takes:
  assumes "rd_rep r (pre @ enc_fields fs)" and "unat (seek_pos r) = length pre"
  shows "\<exists>r'. read_fields r (map type_of_field fs) = Inr (fs, r') \<and>
    rd_rep r' (pre @ enc_fields fs) \<and> unat (seek_pos r') = length (pre @ enc_fields fs)"
  using assms
proof (induction fs arbitrary: r pre)
  case Nil
  then show ?case by simp
next
  case (Cons f fs)
  then obtain r1 where "read_field r (type_of_field f) = Inr (f, r1)"
    "rd_rep r1 ((pre @ enc_field f) @ enc_fields fs)" "unat (seek_pos r1) = length (pre @ enc_field f)"
    using w_field.rd_next [of r pre f "enc_fields fs"] by auto
  with Cons.IH [of r1 "pre @ enc_field f"] show ?case by auto
qed

text \<open>A message made from a builder, and a reader over it.\<close>

lemma toMessage_reader:
  assumes "mb_rep mb bs"
  shows "\<exists>h1 m mb' h2 r. toMessage h mb = (h1, m, mb') \<and> msg_header m = mb_header mb \<and>
    mb_rep mb' [] \<and> capacity mb' = init_cap mb \<and>
    MessageReader_new h1 m = Inr (h2, r) \<and> rd_rep r bs \<and> seek_pos r = 0"
  using assms
  by (auto simp: toMessage_def Message_new_def Refbuf_new_def MessageReader_new_def Message_copy_def
      Refbuf_inc_def Message_getContentPtr_def Refbuf_getContentPtr_def mb_rep_def rd_rep_def Let_def)

text \<open>
  C2. Marshalling round trip: whatever typed values are written to a builder, in whatever
  order and with whatever initial capacity, all writes succeed while the total fits in 32 bits,
  the message carries the builder's header, the builder is empty again, and a reader that asks
  for the same types gets exactly the values back and ends at the end of the message.
\<close>

theorem marshal_roundtrip:
  assumes "length (enc_fields fs) < 2 ^ 32"
  shows "\<exists>mb h1 m mb' h2 r r'. write_fields (MessageBuilder_new hdr cap) fs = Inr mb \<and>
    toMessage h mb = (h1, m, mb') \<and> msg_header m = hdr \<and> mb_size mb' = 0 \<and> capacity mb' = cap \<and>
    MessageReader_new h1 m = Inr (h2, r) \<and>
    read_fields r (map type_of_field fs) = Inr (fs, r') \<and> tell r' = getSize r'"
proof -
  obtain mb where mb: "write_fields (MessageBuilder_new hdr cap) fs = Inr mb" "mb_rep mb (enc_fields fs)"
    "mb_header mb = hdr" "init_cap mb = cap"
    using write_fields_appends [OF mb_rep_new(1), of fs hdr cap] assms by (auto simp: MessageBuilder_new_def)
  obtain h1 m mb' h2 r where m: "toMessage h mb = (h1, m, mb')" "msg_header m = hdr" "mb_rep mb' []"
    "capacity mb' = cap" "MessageReader_new h1 m = Inr (h2, r)" "rd_rep r (enc_fields fs)" "seek_pos r = 0"
    using toMessage_reader [OF mb(2), of h] mb(3,4) by auto
  obtain r' where r': "read_fields r (map type_of_field fs) = Inr (fs, r')" "rd_rep r' (enc_fields fs)"
    "unat (seek_pos r') = length (enc_fields fs)"
    using read_fields_takes [of r "[]" fs] m(6,7) by auto
  have "unat (tell r') = unat (getSize r')"
    using r'(2,3) by (simp add: tell_def getSize_def rd_rep_def)
  then have "tell r' = getSize r'" by (simp add: word_unat_eq_iff)
  moreover have "mb_size mb' = 0" using m(3) by (simp add: mb_rep_def unat_eq_0)
  ultimately show ?thesis using mb(1) m r'(1) by blast
qed

theorem marshal_roundtrip_witness:
  "length (enc_fields [Int32 5, Str [104, 105], Bytes [7]]) < 2 ^ 32 \<and>
   (\<exists>mb h1 m mb' h2 r r'. write_fields (MessageBuilder_new 4 10) [Int32 5, Str [104, 105], Bytes [7]] = Inr mb \<and>
    toMessage (mheap mstate_init) mb = (h1, m, mb') \<and> msg_header m = 4 \<and> mb_size mb' = 0 \<and> capacity mb' = 10 \<and>
    MessageReader_new h1 m = Inr (h2, r) \<and>
    read_fields r [TInt32, TStr, TBytes 1] = Inr ([Int32 5, Str [104, 105], Bytes [7]], r') \<and> tell r' = getSize r')"
proof
  show h: "length (enc_fields [Int32 5, Str [104, 105], Bytes [7]]) < 2 ^ 32"
    by (simp add: enc_string_def)
  show "\<exists>mb h1 m mb' h2 r r'. write_fields (MessageBuilder_new 4 10) [Int32 5, Str [104, 105], Bytes [7]] = Inr mb \<and>
    toMessage (mheap mstate_init) mb = (h1, m, mb') \<and> msg_header m = 4 \<and> mb_size mb' = 0 \<and> capacity mb' = 10 \<and>
    MessageReader_new h1 m = Inr (h2, r) \<and>
    read_fields r [TInt32, TStr, TBytes 1] = Inr ([Int32 5, Str [104, 105], Bytes [7]], r') \<and> tell r' = getSize r'"
    using marshal_roundtrip [OF h, of 4 10 "mheap mstate_init"] by simp
qed

lemma write_bytes_overflow:
  assumes "mb_rep mb bs" and "length xs < 2 ^ 32" and "2 ^ 32 \<le> length bs + length xs"
  shows "write_bytes mb xs = Inl (MemFault OutOfBounds)"
proof -
  let ?sz = "mb_size mb + of_nat (length xs)"
  have n: "unat (of_nat (length xs) :: u32) = length xs"
    using assms(2) by (simp add: unsigned_of_nat take_bit_nat_eq_self)
  then have "unat ?sz = length bs + length xs - 2 ^ 32"
    using unat_plus_u32_wrap [of "mb_size mb" "of_nat (length xs)"] assms by (simp add: mb_rep_def)
  also have "\<dots> \<le> length bs" using assms(2) by simp
  also have "\<dots> \<le> unat (capacity mb)"
    using assms(1) buf_holds_length [of "mb_content mb" bs] by (simp add: mb_rep_def)
  finally have "\<not> capacity mb < ?sz" by (simp add: word_less_nat_alt)
  then have "reserve mb ?sz = Inr mb" by (simp add: reserve_def)
  moreover have "\<not> unat (mb_size mb) + length xs \<le> length (mb_content mb)"
    using assms unat_u32_less [of "capacity mb"] by (simp add: mb_rep_def)
  ultimately show ?thesis
    by (simp add: write_bytes_def append_raw_def buf_store_def)
qed

text \<open>
  C24. A builder accepts a block of bytes exactly when the new total still fits in its 32-bit
  size; then the block is appended to what was written before, through any number of
  reallocations.  Beyond that the size check of \<open>reserve\<close> wraps and the copy leaves the block.
\<close>

theorem write_bytes_spec:
  assumes "mb_rep mb bs" and "length xs < 2 ^ 32"
  shows "if length bs + length xs < 2 ^ 32
    then \<exists>mb'. write_bytes mb xs = Inr mb' \<and> mb_rep mb' (bs @ xs) \<and> mb_header mb' = mb_header mb
    else write_bytes mb xs = Inl (MemFault OutOfBounds)"
  using write_scalar_rep [OF assms(1), of xs] write_bytes_overflow [OF assms]
  by (auto simp: write_bytes_eq not_less)

theorem write_bytes_spec_witness:
  "mb_rep (MessageBuilder_new 0 2) [] \<and>
   (\<exists>mb'. write_bytes (MessageBuilder_new 0 2) [1, 2, 3] = Inr mb' \<and> mb_rep mb' [1, 2, 3] \<and> mb_header mb' = 0)"
  using write_bytes_spec [OF mb_rep_new(1) [of 0 2], of "[1, 2, 3]"] mb_rep_new(1) [of 0 2]
  by (simp add: MessageBuilder_new_def)

section \<open>Safety of readers\<close>

lemma is_exception_tag: "tag c x = Inl e \<Longrightarrow> x = Inl e"
  by (cases x) (auto simp: tag_def split: prod.splits)


definition sample_reader :: "byte list \<Rightarrow> MessageReader" where
  "sample_reader bs =
     \<lparr>rd_message = \<lparr>msg_header = 0, msg_length = of_nat (length bs), msg_content = 0\<rparr>,
      rd_content = map Some bs, seek_pos = 0\<rparr>"

lemma sample_reader_rep: "length bs < 2 ^ 32 \<Longrightarrow> rd_rep (sample_reader bs) bs \<and> seek_pos (sample_reader bs) = 0"
  by (simp add: sample_reader_def rd_rep_def buf_holds_def unsigned_of_nat take_bit_nat_eq_self)


text \<open>
  C25. \<open>readString\<close> trusts the length in the message: when the position behind the length field
  plus that length passes \<open>2^32\<close>, the sum that \<open>assureSize\<close> compares has wrapped, the check
  passes, and the string is built from memory behind the end of the block.
\<close>

theorem readString_wraps:
  assumes rep: "rd_rep r (pre @ le_bytes 4 n @ post)" and pos: "unat (seek_pos r) = length pre"
    and wrap: "2 ^ 32 \<le> length pre + 4 + unat (n :: u32)"
    and block: "length (rd_content r) < 2 ^ 32"
  shows "readString r = Inl (MemFault OutOfBounds)"
proof -
  obtain r1 where r1: "readUInt32 r = Inr (n, r1)" "rd_rep r1 ((pre @ le_bytes 4 n) @ post)"
    "unat (seek_pos r1) = length (pre @ le_bytes 4 n)"
    using w_uint32.rd_next [OF rep TrueI pos] by blast
  have c: "rd_content r1 = rd_content r"
    using w_uint32.rd_takes [OF rep TrueI pos] r1(1) by auto
  have "unat (seek_pos r1 + n) = length pre + 4 + unat n - 2 ^ 32"
    using unat_plus_u32_wrap [of "seek_pos r1" n] r1(3) wrap by (simp add: add.commute)
  also have "\<dots> \<le> length pre + 4" using unat_u32_less [of n] by simp
  finally have "\<not> getSize r1 < seek_pos r1 + n"
    using r1(2) by (simp add: getSize_def rd_rep_def word_less_nat_alt)
  then have "assureSize r1 n = Inr ()" by (simp add: assureSize_def)
  moreover have "buf_load (rd_content r1) (unat (seek_pos r1)) (unat n) = Inl OutOfBounds"
    using c block wrap r1(3) by (intro buf_load_out_of_bounds) simp
  ultimately show ?thesis
    using r1(1) by (simp add: readString_def take_raw_def)
qed

theorem readString_wraps_witness:
  "rd_rep (sample_reader [252, 255, 255, 255, 65]) ([] @ le_bytes 4 (4294967292 :: u32) @ [65]) \<and>
   readString (sample_reader [252, 255, 255, 255, 65]) = Inl (MemFault OutOfBounds)"
proof -
  have bs: "[252, 255, 255, 255, 65] = [] @ le_bytes 4 (4294967292 :: u32) @ [65]"
    by (simp add: le_bytes_numeral)
  have rep: "rd_rep (sample_reader [252, 255, 255, 255, 65]) ([] @ le_bytes 4 (4294967292 :: u32) @ [65])"
    unfolding bs [symmetric] using sample_reader_rep [of "[252, 255, 255, 255, 65]"] by simp
  then show ?thesis
    using readString_wraps [OF rep] sample_reader_rep [of "[252, 255, 255, 255, 65]"]
    by (simp add: sample_reader_def del: le_bytes.simps)
qed

end
