(* ===== verification/Sockets.thy ===== *)
theory Sockets
  imports VA_Prelude
begin

text \<open>
  The four connection classes: \<^verbatim>\<open>Connection\<close> (TCP) and \<^verbatim>\<open>UdpConnection\<close> (UDT) of the back end
  (\<^verbatim>\<open>comm/bknd\<close>) and of the front end (\<^verbatim>\<open>comm/ftnd\<close>).  The socket library below them (BSD
  sockets, Winsock or UDT) is the parameter \<open>os\<close>: a record of calls over an operating-system
  state \<open>'w\<close> that the models thread through.  Return values are the C ones: \<open>-1\<close> is
  \<^verbatim>\<open>SOCKET_ERROR\<close>, \<^verbatim>\<open>UDT::ERROR\<close> and the invalid socket.  A call to \<open>recv\<close> yields its return
  value and the bytes it stored at the buffer it was given.
\<close>

section \<open>The socket library\<close>

record sockaddr_in =
  sin_addr :: u32
  sin_port :: u16

datatype sockopt = SO_SNDBUF | SO_RCVBUF | TCP_NODELAY

record 'w os =
  sys_send :: "'w \<Rightarrow> int \<Rightarrow> byte list \<Rightarrow> int \<times> 'w"
  sys_recv :: "'w \<Rightarrow> int \<Rightarrow> nat \<Rightarrow> bool \<Rightarrow> int \<times> byte list \<times> 'w"
  sys_close :: "'w \<Rightarrow> int \<Rightarrow> 'w"
  sys_startup :: "'w \<Rightarrow> int \<times> 'w"
  sys_getaddrinfo :: "'w \<Rightarrow> string \<Rightarrow> u16 \<Rightarrow> int \<times> sockaddr_in \<times> 'w"
  sys_socket :: "'w \<Rightarrow> int \<times> 'w"
  sys_bind :: "'w \<Rightarrow> int \<Rightarrow> sockaddr_in \<Rightarrow> int \<times> 'w"
  sys_listen :: "'w \<Rightarrow> int \<Rightarrow> int \<Rightarrow> int \<times> 'w"
  sys_accept :: "'w \<Rightarrow> int \<Rightarrow> int \<times> sockaddr_in \<times> 'w"
  sys_connect :: "'w \<Rightarrow> int \<Rightarrow> sockaddr_in \<Rightarrow> int \<times> 'w"
  sys_setsockopt :: "'w \<Rightarrow> int \<Rightarrow> sockopt \<Rightarrow> int \<Rightarrow> 'w"

definition PORT :: u16 where
  "PORT = 8199"

definition HOST_ADDR :: string where
  "HOST_ADDR = ''vmhost''"

definition TCP_WINDOW_SIZE :: int where
  "TCP_WINDOW_SIZE = 1048576"

definition BACKLOG :: int where
  "BACKLOG = 10"

text \<open>An object of a connection class, and the static members of the listening classes.\<close>

record Connection =
  client_fd :: int
  client_addr :: sockaddr_in
  conn_open :: bool

record Listener =
  sock_fd :: int
  sock_addr :: sockaddr_in
  listening :: bool

type_synonym ('a, 'w) io = "(va_error + 'a) \<times> Connection \<times> 'w"

text \<open>\<open>(unsigned int) n\<close> for a value of a signed C type.\<close>

definition to_unsigned :: "int \<Rightarrow> nat" where
  "to_unsigned n = nat (n mod 2 ^ 32)"

lemma to_unsigned_nonneg: "0 \<le> n \<Longrightarrow> n < 2 ^ 32 \<Longrightarrow> to_unsigned n = nat n"
  by (simp add: to_unsigned_def)

section \<open>TCP, back end: Connection of comm/bknd\<close>

definition Connection_close :: "'w os \<Rightarrow> Connection \<Rightarrow> 'w \<Rightarrow> Connection \<times> 'w" where
  "Connection_close os c w =
     (if \<not> conn_open c then (c, w)
      else (c\<lparr>conn_open := False\<rparr>, sys_close os w (client_fd c)))"

definition Connection_sendDirect :: "'w os \<Rightarrow> Connection \<Rightarrow> 'w \<Rightarrow> byte list \<Rightarrow> (unit, 'w) io" where
  "Connection_sendDirect os c w content =
     (let (bytes_send, w1) = sys_send os w (client_fd c) content
      in if bytes_send = -1 \<or> to_unsigned bytes_send < length content
         then (Inl (ConnectionException ''Send failed.''), Connection_close os c w1)
         else (Inr (), c, w1))"

definition Connection_receiveDirect :: "'w os \<Rightarrow> Connection \<Rightarrow> 'w \<Rightarrow> nat \<Rightarrow> (byte list, 'w) io" where
  "Connection_receiveDirect os c w sz =
     (let (bytes_recv, content, w1) = sys_recv os w (client_fd c) sz True
      in if bytes_recv = -1 \<or> to_unsigned bytes_recv < sz
         then (Inl (ConnectionException ''Receive failed.''), Connection_close os c w1)
         else (Inr content, c, w1))"

definition Connection_send :: "'w os \<Rightarrow> Connection \<Rightarrow> 'w \<Rightarrow> byte list \<Rightarrow> (unit, 'w) io" where
  "Connection_send os c w content =
     (if \<not> conn_open c then (Inl (ConnectionException ''Connection closed.''), c, w)
      else Connection_sendDirect os c w content)"

definition Connection_receive :: "'w os \<Rightarrow> Connection \<Rightarrow> 'w \<Rightarrow> nat \<Rightarrow> (byte list, 'w) io" where
  "Connection_receive os c w sz =
     (if \<not> conn_open c then (Inl (ConnectionException ''Connection closed.''), c, w)
      else Connection_receiveDirect os c w sz)"

definition setSocketOptions :: "'w os \<Rightarrow> 'w \<Rightarrow> int \<Rightarrow> 'w" where
  "setSocketOptions os w fd =
     (let w1 = sys_setsockopt os w fd SO_SNDBUF TCP_WINDOW_SIZE;
          w2 = sys_setsockopt os w1 fd SO_RCVBUF TCP_WINDOW_SIZE
      in sys_setsockopt os w2 fd TCP_NODELAY 1)"

definition Connection_closeListener :: "'w os \<Rightarrow> Listener \<Rightarrow> 'w \<Rightarrow> Listener \<times> 'w" where
  "Connection_closeListener os l w =
     (if \<not> listening l then (l, w)
      else (l\<lparr>listening := False\<rparr>, sys_close os w (sock_fd l)))"

text \<open>The port number that the code appends to two of the messages is left out.\<close>

definition Connection_listen :: "'w os \<Rightarrow> u16 \<Rightarrow> Listener \<Rightarrow> 'w \<Rightarrow> (va_error + unit) \<times> Listener \<times> 'w" where
  "Connection_listen os port l w =
     (let (l1, w1) = (if listening l then Connection_closeListener os l w else (l, w));
          (fd, w2) = sys_socket os w1;
          l2 = l1\<lparr>sock_fd := fd\<rparr>
      in if fd = -1 then (Inl (ConnectionException ''Unable to create socket!''), l2, w2)
         else
           let l3 = l2\<lparr>sock_addr := \<lparr>sin_addr = 0, sin_port = port\<rparr>\<rparr>;
               (b, w3) = sys_bind os w2 fd (sock_addr l3)
           in if b = -1 then (Inl (ConnectionException ''Unable to bind on port ''), l3, w3)
              else
                let (r, w4) = sys_listen os w3 fd BACKLOG
                in if r = -1 then (Inl (ConnectionException ''Unable to listen on port ''), l3, w4)
                   else (Inr (), l3\<lparr>listening := True\<rparr>, setSocketOptions os w4 fd))"

definition Connection_acceptConnection ::
  "'w os \<Rightarrow> Listener \<Rightarrow> 'w \<Rightarrow> (va_error + Connection) \<times> Listener \<times> 'w" where
  "Connection_acceptConnection os l w =
     (let (r, l1, w1) = (if \<not> listening l then Connection_listen os PORT l w else (Inr (), l, w))
      in case r of
           Inl e \<Rightarrow> (Inl e, l1, w1)
         | Inr _ \<Rightarrow>
             let (remote_fd, remote_addr, w2) = sys_accept os w1 (sock_fd l1)
             in if remote_fd = -1 then (Inl (ConnectionException ''Accept failed.''), l1, w2)
                else (Inr \<lparr>client_fd = remote_fd, client_addr = remote_addr, conn_open = True\<rparr>, l1, w2))"

section \<open>Receive loops: UDT, and TCP of the front end\<close>

text \<open>
  The loop shared by the three receive routines that do not ask the library to wait for all
  bytes: receive again behind what has arrived while the call returns a positive number of
  bytes below the number still missing (a positive \<open>int\<close> keeps its
  value as \<open>unsigned int\<close>).  The result is the last return value, what was
  stored, and the library's state.
\<close>

function receive_loop :: "('w \<Rightarrow> nat \<Rightarrow> int \<times> byte list \<times> 'w) \<Rightarrow> 'w \<Rightarrow> nat \<Rightarrow> byte list \<Rightarrow> int \<times> byte list \<times> 'w" where
  "receive_loop recv w sz content =
     (let (bytes_recv, bs, w1) = recv w sz
      in if 0 < bytes_recv \<and> nat bytes_recv < sz
         then receive_loop recv w1 (sz - nat bytes_recv) (content @ bs)
         else (bytes_recv, content @ bs, w1))"
  by pat_completeness auto
termination
  by (relation "measure (\<lambda>(recv, w, sz, content). sz)")
    auto

declare receive_loop.simps [simp del]

section \<open>UDT, back end: UdpConnection of comm/bknd\<close>

definition Udp_close :: "'w os \<Rightarrow> Connection \<Rightarrow> 'w \<Rightarrow> Connection \<times> 'w" where
  "Udp_close os c w =
     (if \<not> conn_open c then (c, w)
      else (c\<lparr>conn_open := False\<rparr>, sys_close os w (client_fd c)))"

definition Udp_sendDirect :: "'w os \<Rightarrow> Connection \<Rightarrow> 'w \<Rightarrow> byte list \<Rightarrow> (unit, 'w) io" where
  "Udp_sendDirect os c w content =
     (let (bytes_send, w1) = sys_send os w (client_fd c) content
      in if bytes_send = -1 \<or> to_unsigned bytes_send < length content
         then (Inl (UdpException ''Send failed.''), Udp_close os c w1)
         else (Inr (), c, w1))"

text \<open>The addresses, sizes and library text in the message of a failed receive are left out.\<close>

definition Udp_receiveDirect :: "'w os \<Rightarrow> Connection \<Rightarrow> 'w \<Rightarrow> nat \<Rightarrow> (byte list, 'w) io" where
  "Udp_receiveDirect os c w sz =
     (let (bytes_recv, content, w1) = receive_loop (\<lambda>w n. sys_recv os w (client_fd c) n False) w sz []
      in if bytes_recv \<le> 0
         then (Inl (UdpException ''Receive failed''), Udp_close os c w1)
         else (Inr content, c, w1))"

definition Udp_send :: "'w os \<Rightarrow> Connection \<Rightarrow> 'w \<Rightarrow> byte list \<Rightarrow> (unit, 'w) io" where
  "Udp_send os c w content =
     (if \<not> conn_open c then (Inl (UdpException ''UdpConnection closed.''), c, w)
      else Udp_sendDirect os c w content)"

definition Udp_receive :: "'w os \<Rightarrow> Connection \<Rightarrow> 'w \<Rightarrow> nat \<Rightarrow> (byte list, 'w) io" where
  "Udp_receive os c w sz =
     (if \<not> conn_open c then (Inl (UdpException ''UdpConnection closed.''), c, w)
      else Udp_receiveDirect os c w sz)"

definition Udp_closeListener :: "'w os \<Rightarrow> Listener \<Rightarrow> 'w \<Rightarrow> Listener \<times> 'w" where
  "Udp_closeListener os l w =
     (if \<not> listening l then (l, w)
      else (l\<lparr>listening := False\<rparr>, sys_close os w (sock_fd l)))"

definition Udp_listen :: "'w os \<Rightarrow> Listener \<Rightarrow> 'w \<Rightarrow> (va_error + unit) \<times> Listener \<times> 'w" where
  "Udp_listen os l w =
     (let (l1, w1) = (if listening l then Udp_closeListener os l w else (l, w));
          (s, w2) = sys_startup os w1;
          (g, a, w3) = sys_getaddrinfo os w2 [] PORT
      in if g \<noteq> 0 then (Inl (UdpException ''Illegal port number or port is busy.''), l1, w3)
         else
           let l2 = l1\<lparr>sock_addr := \<lparr>sin_addr = 0, sin_port = PORT\<rparr>\<rparr>;
               (fd, w4) = sys_socket os w3;
               l3 = l2\<lparr>sock_fd := fd\<rparr>;
               (b, w5) = sys_bind os w4 fd (sock_addr l3)
           in if b = -1 then (Inl (UdpException ''Unable to bind on port ''), l3, w5)
              else
                let (r, w6) = sys_listen os w5 fd BACKLOG
                in if r = -1 then (Inl (UdpException ''Unable to listen on port ''), l3, w6)
                   else (Inr (), l3\<lparr>listening := True\<rparr>, w6))"

definition Udp_acceptConnection ::
  "'w os \<Rightarrow> Listener \<Rightarrow> 'w \<Rightarrow> (va_error + Connection) \<times> Listener \<times> 'w" where
  "Udp_acceptConnection os l w =
     (let (r, l1, w1) = (if \<not> listening l then Udp_listen os l w else (Inr (), l, w))
      in case r of
           Inl e \<Rightarrow> (Inl e, l1, w1)
         | Inr _ \<Rightarrow>
             let (remote_fd, remote_addr, w2) = sys_accept os w1 (sock_fd l1)
             in if remote_fd = -1 then (Inl (UdpException ''Accept failed.''), l1, w2)
                else (Inr \<lparr>client_fd = remote_fd, client_addr = remote_addr, conn_open = True\<rparr>, l1, w2))"

section \<open>TCP, front end: Connection of comm/ftnd\<close>

definition Ftnd_close :: "'w os \<Rightarrow> Connection \<Rightarrow> 'w \<Rightarrow> Connection \<times> 'w" where
  "Ftnd_close os c w =
     (if \<not> conn_open c then (c, w)
      else (c\<lparr>conn_open := False\<rparr>, sys_close os w (client_fd c)))"

definition Ftnd_sendDirect :: "'w os \<Rightarrow> Connection \<Rightarrow> 'w \<Rightarrow> byte list \<Rightarrow> (unit, 'w) io" where
  "Ftnd_sendDirect os c w content =
     (let (bytes_send, w1) = sys_send os w (client_fd c) content
      in if bytes_send = -1 \<or> to_unsigned bytes_send < length content
         then (Inl (ConnectionException ''Send failed.''), Ftnd_close os c w1)
         else (Inr (), c, w1))"

definition Ftnd_receiveDirect :: "'w os \<Rightarrow> Connection \<Rightarrow> 'w \<Rightarrow> nat \<Rightarrow> (byte list, 'w) io" where
  "Ftnd_receiveDirect os c w sz =
     (let (bytes_recv, content, w1) = receive_loop (\<lambda>w n. sys_recv os w (client_fd c) n False) w sz []
      in if bytes_recv \<le> 0
         then (Inl (ConnectionException ''Receive failed''), Ftnd_close os c w1)
         else (Inr content, c, w1))"

definition Ftnd_send :: "'w os \<Rightarrow> Connection \<Rightarrow> 'w \<Rightarrow> byte list \<Rightarrow> (unit, 'w) io" where
  "Ftnd_send os c w content =
     (if \<not> conn_open c then (Inl (ConnectionException ''Connection closed.''), c, w)
      else Ftnd_sendDirect os c w content)"

definition Ftnd_receive :: "'w os \<Rightarrow> Connection \<Rightarrow> 'w \<Rightarrow> nat \<Rightarrow> (byte list, 'w) io" where
  "Ftnd_receive os c w sz =
     (if \<not> conn_open c then (Inl (ConnectionException ''Connection closed.''), c, w)
      else Ftnd_receiveDirect os c w sz)"

text \<open>\<open>initialized\<close> is the static flag; the version words of \<^verbatim>\<open>WSADATA\<close> count as part of the
  startup call's return value.\<close>

definition Ftnd_initialize :: "'w os \<Rightarrow> bool \<Rightarrow> 'w \<Rightarrow> (va_error + unit) \<times> bool \<times> 'w" where
  "Ftnd_initialize os initialized w =
     (if initialized then (Inr (), True, w)
      else
        let (hr, w1) = sys_startup os w
        in if hr \<noteq> 0
           then (Inl (ConnectionException ''WSAStartup failed: cannot find a suitable version of winsock.dll.''), False, w1)
           else (Inr (), True, w1))"

definition Ftnd_newConnection :: "'w os \<Rightarrow> u16 \<Rightarrow> bool \<Rightarrow> 'w \<Rightarrow> (va_error + Connection) \<times> bool \<times> 'w" where
  "Ftnd_newConnection os prt initialized w =
     (let (i, ini, w1) = (if \<not> initialized then Ftnd_initialize os initialized w else (Inr (), initialized, w))
      in case i of
           Inl e \<Rightarrow> (Inl e, ini, w1)
         | Inr _ \<Rightarrow>
             let (g, addr, w2) = sys_getaddrinfo os w1 HOST_ADDR prt
             in if g \<noteq> 0 then (Inl (ConnectionException ''Incorrect network address.''), ini, w2)
                else
                  let (fd, w3) = sys_socket os w2
                  in if fd = -1 then (Inl (ConnectionException ''Cannot create socket.''), ini, w3)
                     else
                       let w4 = setSocketOptions os w3 fd;
                           (hr, w5) = sys_connect os w4 fd addr
                       in if hr = -1 then (Inl (ConnectionException ''Cannot connect to va host.''), ini, w5)
                          else (Inr \<lparr>client_fd = fd, client_addr = addr, conn_open = True\<rparr>, ini, w5))"

section \<open>UDT, front end: UdpConnection of comm/ftnd\<close>

definition FtndUdp_close :: "'w os \<Rightarrow> Connection \<Rightarrow> 'w \<Rightarrow> Connection \<times> 'w" where
  "FtndUdp_close os c w =
     (if \<not> conn_open c then (c, w)
      else (c\<lparr>conn_open := False\<rparr>, sys_close os w (client_fd c)))"

definition FtndUdp_sendDirect :: "'w os \<Rightarrow> Connection \<Rightarrow> 'w \<Rightarrow> byte list \<Rightarrow> (unit, 'w) io" where
  "FtndUdp_sendDirect os c w content =
     (let (bytes_send, w1) = sys_send os w (client_fd c) content
      in if bytes_send = -1 \<or> to_unsigned bytes_send < length content
         then (Inl (UdpException ''Send failed.''), FtndUdp_close os c w1)
         else (Inr (), c, w1))"

definition FtndUdp_receiveDirect :: "'w os \<Rightarrow> Connection \<Rightarrow> 'w \<Rightarrow> nat \<Rightarrow> (byte list, 'w) io" where
  "FtndUdp_receiveDirect os c w sz =
     (let (bytes_recv, content, w1) = receive_loop (\<lambda>w n. sys_recv os w (client_fd c) n False) w sz []
      in if bytes_recv \<le> 0
         then (Inl (UdpException ''Receive failed''), FtndUdp_close os c w1)
         else (Inr content, c, w1))"

definition FtndUdp_send :: "'w os \<Rightarrow> Connection \<Rightarrow> 'w \<Rightarrow> byte list \<Rightarrow> (unit, 'w) io" where
  "FtndUdp_send os c w content =
     (if \<not> conn_open c then (Inl (UdpException ''UdpConnection closed.''), c, w)
      else FtndUdp_sendDirect os c w content)"

definition FtndUdp_receive :: "'w os \<Rightarrow> Connection \<Rightarrow> 'w \<Rightarrow> nat \<Rightarrow> (byte list, 'w) io" where
  "FtndUdp_receive os c w sz =
     (if \<not> conn_open c then (Inl (UdpException ''UdpConnection closed.''), c, w)
      else FtndUdp_receiveDirect os c w sz)"

definition FtndUdp_initialize :: "'w os \<Rightarrow> bool \<Rightarrow> 'w \<Rightarrow> bool \<times> 'w" where
  "FtndUdp_initialize os initialized w =
     (if initialized then (initialized, w)
      else let (s, w1) = sys_startup os w in (True, w1))"

definition FtndUdp_newConnection :: "'w os \<Rightarrow> bool \<Rightarrow> 'w \<Rightarrow> (va_error + Connection) \<times> bool \<times> 'w" where
  "FtndUdp_newConnection os initialized w =
     (let (ini, w1) = (if \<not> initialized then FtndUdp_initialize os initialized w else (initialized, w));
          (g, addr, w2) = sys_getaddrinfo os w1 HOST_ADDR PORT
      in if g \<noteq> 0 then (Inl (UdpException ''Incorrect network address.''), ini, w2)
         else
           let (remote_fd, w3) = sys_socket os w2;
               (hr, w4) = sys_connect os w3 remote_fd addr
           in if hr = -1 then (Inl (UdpException ''Connect failed.''), ini, w4)
              else (Inr \<lparr>client_fd = remote_fd, client_addr = addr, conn_open = True\<rparr>, ini, w4))"

end
