(* ===== verification/Transport.thy ===== *)
theory Transport
  imports Messages Sockets
begin

text \<open>
  \<^verbatim>\<open>IConnection\<close> and \<^verbatim>\<open>MessageConnection\<close> of \<^verbatim>\<open>comm/bknd\<close>: messages as frames on a byte stream.
  The abstract class is a table of its virtual methods over an object state \<open>'c\<close>; its contract
  is the locale \<open>stream_endpoint\<close>, which the four connection classes satisfy over a socket
  library that behaves as a reliable byte stream.
\<close>

section \<open>IConnection and MessageConnection\<close>

record 'c IConnection =
  ic_send :: "'c \<Rightarrow> byte list \<Rightarrow> (va_error + unit) \<times> 'c"
  ic_receive :: "'c \<Rightarrow> nat \<Rightarrow> (va_error + byte list) \<times> 'c"
  ic_flush :: "'c \<Rightarrow> 'c"
  ic_delete :: "'c \<Rightarrow> 'c"

text \<open>The default \<^verbatim>\<open>IConnection::flush\<close> does nothing.\<close>

definition IConnection_flush :: "'c \<Rightarrow> 'c" where
  "IConnection_flush c = c"

record msg_struct =
  ms_header :: u32
  ms_length :: u32

definition msg_struct_bytes :: "msg_struct \<Rightarrow> byte list" where
  "msg_struct_bytes s = le_bytes 4 (ms_header s) @ le_bytes 4 (ms_length s)"

definition msg_struct_of :: "byte list \<Rightarrow> msg_struct" where
  "msg_struct_of bs = \<lparr>ms_header = le_word (take 4 bs), ms_length = le_word (take 4 (drop 4 bs))\<rparr>"

lemma msg_struct_of_bytes [simp]: "msg_struct_of (msg_struct_bytes s) = s"
  by (simp add: msg_struct_of_def msg_struct_bytes_def)

lemma length_msg_struct_bytes [simp]: "length (msg_struct_bytes s) = 8"
  by (simp add: msg_struct_bytes_def)

definition readMessage :: "'c IConnection \<Rightarrow> 'c \<Rightarrow> heap \<Rightarrow> (va_error + Message) \<times> 'c \<times> heap" where
  "readMessage conn c h =
     (case ic_receive conn c 8 of
        (Inl e, c1) \<Rightarrow> (Inl e, c1, h)
      | (Inr bs, c1) \<Rightarrow>
          let msg = msg_struct_of bs;
              content = buf_alloc (max (unat (ms_length msg)) 1)
          in if 0 < ms_length msg
             then (case ic_receive conn c1 (unat (ms_length msg)) of
                     (Inl e, c2) \<Rightarrow> (Inl e, c2, h)
                   | (Inr data, c2) \<Rightarrow>
                       (case buf_store content 0 data of
                          Inl e \<Rightarrow> (Inl (MemFault e), c2, h)
                        | Inr filled \<Rightarrow>
                            let (h', m) = Message_new h (ms_header msg) (ms_length msg) filled
                            in (Inr m, c2, h')))
             else let (h', m) = Message_new h (ms_header msg) (ms_length msg) content
                  in (Inr m, c1, h'))"

definition writeMessage :: "'c IConnection \<Rightarrow> 'c \<Rightarrow> heap \<Rightarrow> Message \<Rightarrow> (va_error + unit) \<times> 'c" where
  "writeMessage conn c h mess =
     (let msg = \<lparr>ms_header = msg_header mess, ms_length = msg_length mess\<rparr>
      in case ic_send conn c (msg_struct_bytes msg) of
           (Inl e, c1) \<Rightarrow> (Inl e, c1)
         | (Inr _, c1) \<Rightarrow>
             if 0 < ms_length msg
             then (case bindR (Message_getContentPtr h mess)
                          (\<lambda>buf. liftM (buf_load buf 0 (unat (ms_length msg)))) of
                     Inl e \<Rightarrow> (Inl e, c1)
                   | Inr data \<Rightarrow> ic_send conn c1 data)
             else (Inr (), c1))"

definition MessageConnection_flush :: "'c IConnection \<Rightarrow> 'c \<Rightarrow> 'c" where
  "MessageConnection_flush conn c = ic_flush conn c"

definition MessageConnection_destroy :: "'c IConnection \<Rightarrow> 'c \<Rightarrow> 'c" where
  "MessageConnection_destroy conn c = ic_delete conn c"

text \<open>The tables of the four classes.\<close>

definition Connection_class :: "'w os \<Rightarrow> (Connection \<times> 'w) IConnection" where
  "Connection_class os =
     \<lparr>ic_send = (\<lambda>(c, w). Connection_send os c w), ic_receive = (\<lambda>(c, w). Connection_receive os c w),
      ic_flush = IConnection_flush, ic_delete = (\<lambda>(c, w). Connection_close os c w)\<rparr>"

definition Udp_class :: "'w os \<Rightarrow> (Connection \<times> 'w) IConnection" where
  "Udp_class os =
     \<lparr>ic_send = (\<lambda>(c, w). Udp_send os c w), ic_receive = (\<lambda>(c, w). Udp_receive os c w),
      ic_flush = (\<lambda>s. s), ic_delete = (\<lambda>(c, w). Udp_close os c w)\<rparr>"

definition Ftnd_class :: "'w os \<Rightarrow> (Connection \<times> 'w) IConnection" where
  "Ftnd_class os =
     \<lparr>ic_send = (\<lambda>(c, w). Ftnd_send os c w), ic_receive = (\<lambda>(c, w). Ftnd_receive os c w),
      ic_flush = IConnection_flush, ic_delete = (\<lambda>(c, w). Ftnd_close os c w)\<rparr>"

definition FtndUdp_class :: "'w os \<Rightarrow> (Connection \<times> 'w) IConnection" where
  "FtndUdp_class os =
     \<lparr>ic_send = (\<lambda>(c, w). FtndUdp_send os c w), ic_receive = (\<lambda>(c, w). FtndUdp_receive os c w),
      ic_flush = (\<lambda>s. s), ic_delete = (\<lambda>(c, w). FtndUdp_close os c w)\<rparr>"

text \<open>Reading and writing several messages one after the other.\<close>

fun readMessages :: "'c IConnection \<Rightarrow> nat \<Rightarrow> 'c \<Rightarrow> heap \<Rightarrow> (va_error + Message list) \<times> 'c \<times> heap" where
  "readMessages conn 0 c h = (Inr [], c, h)"
| "readMessages conn (Suc n) c h =
     (case readMessage conn c h of
        (Inl e, c1, h1) \<Rightarrow> (Inl e, c1, h1)
      | (Inr m, c1, h1) \<Rightarrow>
          (case readMessages conn n c1 h1 of
             (Inl e, c2, h2) \<Rightarrow> (Inl e, c2, h2)
           | (Inr ms, c2, h2) \<Rightarrow> (Inr (m # ms), c2, h2)))"

fun writeMessages :: "'c IConnection \<Rightarrow> 'c \<Rightarrow> heap \<Rightarrow> Message list \<Rightarrow> (va_error + unit) \<times> 'c" where
  "writeMessages conn c h [] = (Inr (), c)"
| "writeMessages conn c h (m # ms) =
     (case writeMessage conn c h m of
        (Inl e, c1) \<Rightarrow> (Inl e, c1)
      | (Inr _, c1) \<Rightarrow> writeMessages conn c1 h ms)"

section \<open>Frames\<close>

definition frame :: "u32 \<Rightarrow> byte list \<Rightarrow> byte list" where
  "frame hdr bs = msg_struct_bytes \<lparr>ms_header = hdr, ms_length = of_nat (length bs)\<rparr> @ bs"

text \<open>\<open>msg_rep h m p\<close>: in heap \<open>h\<close> the message has the header \<open>fst p\<close> and the content \<open>snd p\<close>.\<close>

definition msg_rep :: "heap \<Rightarrow> Message \<Rightarrow> u32 \<times> byte list \<Rightarrow> bool" where
  "msg_rep h m p \<longleftrightarrow> msg_header m = fst p \<and> unat (msg_length m) = length (snd p) \<and>
     (\<exists>buf. Message_getContentPtr h m = Inr buf \<and> buf_holds buf (snd p))"

text \<open>The heap only grows and keeps the blocks it has.\<close>

definition heap_extends :: "heap \<Rightarrow> heap \<Rightarrow> bool" where
  "heap_extends h h' \<longleftrightarrow> next_ref h \<le> next_ref h' \<and>
     (\<forall>r < next_ref h. refbufs h' r = refbufs h r)"

lemma heap_extends_refl [simp]: "heap_extends h h"
  by (simp add: heap_extends_def)

lemma heap_extends_trans: "heap_extends h1 h2 \<Longrightarrow> heap_extends h2 h3 \<Longrightarrow> heap_extends h1 h3"
  by (auto simp: heap_extends_def)

lemma msg_rep_extends:
  "msg_rep h m p \<Longrightarrow> msg_content m < next_ref h \<Longrightarrow> heap_extends h h' \<Longrightarrow> msg_rep h' m p"
  by (auto simp: msg_rep_def heap_extends_def Message_getContentPtr_def Refbuf_getContentPtr_def)

lemma Message_new_rep:
  assumes "Message_new h hdr len buf = (h', m)" and "unat len = length bs" and "buf_holds buf bs"
  shows "msg_rep h' m (hdr, bs)" and "heap_extends h h'" and "msg_content m < next_ref h'"
  using assms
  by (auto simp: Message_new_def Refbuf_new_def msg_rep_def heap_extends_def
      Message_getContentPtr_def Refbuf_getContentPtr_def)

section \<open>The contract of a connection\<close>

text \<open>
  \<open>ready c\<close> are the bytes still to be received, \<open>sent c\<close> those handed over so far.  A receive
  that finds enough bytes returns exactly the next ones; every failure is an exception after
  which the connection is closed.
\<close>

locale stream_endpoint =
  fixes conn :: "'c IConnection"
    and ready :: "'c \<Rightarrow> byte list"
    and sent :: "'c \<Rightarrow> byte list"
    and isopen :: "'c \<Rightarrow> bool"
  assumes rcv_enough: "isopen c \<Longrightarrow> 0 < n \<Longrightarrow> n < 2 ^ 31 \<Longrightarrow> n \<le> length (ready c) \<Longrightarrow>
      \<exists>c'. ic_receive conn c n = (Inr (take n (ready c)), c') \<and> ready c' = drop n (ready c) \<and> isopen c'"
    and rcv_exact: "0 < n \<Longrightarrow> n < 2 ^ 32 \<Longrightarrow> ic_receive conn c n = (Inr bs, c') \<Longrightarrow>
      isopen c' \<and> ready c = bs @ ready c' \<and> length bs = n"
    and rcv_fail: "ic_receive conn c n = (Inl e, c') \<Longrightarrow> is_exception e \<and> \<not> isopen c'"
    and snd_done: "length bs < 2 ^ 32 \<Longrightarrow> ic_send conn c bs = (Inr u, c') \<Longrightarrow>
      sent c' = sent c @ bs \<and> isopen c'"
    and snd_fail: "ic_send conn c bs = (Inl e, c') \<Longrightarrow> is_exception e \<and> \<not> isopen c'"
begin

lemma readMessage_frame:
  assumes "isopen c" and "ready c = frame hdr bs @ rest" and "length bs < 2 ^ 31"
  shows "\<exists>m c' h'. readMessage conn c h = (Inr m, c', h') \<and> msg_rep h' m (hdr, bs) \<and>
    msg_content m < next_ref h' \<and> heap_extends h h' \<and> ready c' = rest \<and> isopen c'"
proof -
  let ?s = "\<lparr>ms_header = hdr, ms_length = of_nat (length bs)\<rparr> :: msg_struct"
  have len: "unat (of_nat (length bs) :: u32) = length bs"
    using assms(3) by (simp add: unsigned_of_nat take_bit_nat_eq_self)
  have eight: "take 8 (ready c) = msg_struct_bytes ?s" "drop 8 (ready c) = bs @ rest"
    using assms(2) by (simp_all add: frame_def)
  have "8 \<le> length (ready c)" using assms(2) by (simp add: frame_def)
  then obtain c1 where c1: "ic_receive conn c 8 = (Inr (msg_struct_bytes ?s), c1)"
    "ready c1 = bs @ rest" "isopen c1"
    using rcv_enough [OF assms(1), of 8] eight by auto
  show ?thesis
  proof (cases "bs = []")
    case True
    obtain h' m where new: "Message_new h hdr (of_nat (length bs)) (buf_alloc 1) = (h', m)"
      by (cases "Message_new h hdr (of_nat (length bs)) (buf_alloc 1)")
    have "readMessage conn c h = (Inr m, c1, h')"
      using c1(1) new True by (simp add: readMessage_def)
    moreover have "msg_rep h' m (hdr, bs)" "heap_extends h h'" "msg_content m < next_ref h'"
      using Message_new_rep [OF new, of bs] True by simp_all
    ultimately show ?thesis using c1 True by auto
  next
    case False
    let ?n = "length bs"
    have pos: "0 < (of_nat ?n :: u32)"
      using False len by (simp add: word_less_nat_alt)
    obtain c2 where c2: "ic_receive conn c1 ?n = (Inr bs, c2)" "ready c2 = rest" "isopen c2"
      using rcv_enough [OF c1(3), of ?n] c1(2) assms(3) False by auto
    have max1: "max ?n 1 = ?n" using False by (cases bs) auto
    obtain buf where buf: "buf_store (buf_alloc ?n) 0 bs = Inr buf" "buf_holds buf bs"
      using buf_holds_append [OF buf_holds_Nil, where b = "buf_alloc ?n" and ys = bs] by auto
    obtain h' m where new: "Message_new h hdr (of_nat ?n) buf = (h', m)"
      by (cases "Message_new h hdr (of_nat ?n) buf")
    have "readMessage conn c h = (Inr m, c2, h')"
      using c1(1) c2(1) buf(1) new pos max1 len by (simp add: readMessage_def Let_def)
    then show ?thesis
      using Message_new_rep [OF new len buf(2)] c2 by blast
  qed
qed

lemma readMessage_fail:
  assumes "readMessage conn c h = (Inl e, c', h')"
  shows "is_exception e \<and> \<not> isopen c' \<and> h' = h"
proof -
  obtain r c1 where r: "ic_receive conn c 8 = (r, c1)" by (cases "ic_receive conn c 8")
  show ?thesis
  proof (cases r)
    case (Inl e1)
    then show ?thesis using assms r rcv_fail by (auto simp: readMessage_def)
  next
    case (Inr bs)
    define len where "len = ms_length (msg_struct_of bs)"
    have pos: "0 < len"
      using assms r Inr by (auto simp: readMessage_def Let_def len_def split: if_splits prod.splits)
    obtain r2 c2 where r2: "ic_receive conn c1 (unat len) = (r2, c2)"
      by (cases "ic_receive conn c1 (unat len)")
    show ?thesis
    proof (cases r2)
      case (Inl e2)
      then show ?thesis
        using assms r Inr r2 pos rcv_fail by (auto simp: readMessage_def Let_def len_def)
    next
      case (Inr data)
      have "0 < unat len" using pos by (simp add: word_less_nat_alt)
      then have "length data = unat len"
        using rcv_exact [of "unat len" c1 data c2] r2 Inr unat_u32_less [of len] by simp
      then have "\<exists>buf. buf_store (buf_alloc (max (unat len) 1)) 0 data = Inr buf"
        by (simp add: buf_store_def)
      then show ?thesis
        using assms r \<open>r = Inr bs\<close> Inr r2 pos
        by (auto simp: readMessage_def Let_def len_def split: prod.splits)
    qed
  qed
qed

lemma writeMessage_frame:
  assumes "msg_rep h m (hdr, bs)" and "writeMessage conn c h m = (Inr u, c')"
  shows "sent c' = sent c @ frame hdr bs \<and> isopen c'"
proof -
  let ?s = "\<lparr>ms_header = msg_header m, ms_length = msg_length m\<rparr> :: msg_struct"
  have s: "?s = \<lparr>ms_header = hdr, ms_length = of_nat (length bs)\<rparr>" and len: "unat (msg_length m) = length bs"
    using assms(1) by (auto simp: msg_rep_def dest: u32_eq_of_nat)
  obtain buf where buf: "Message_getContentPtr h m = Inr buf" "buf_holds buf bs"
    using assms(1) by (auto simp: msg_rep_def)
  have load: "buf_load buf 0 (unat (msg_length m)) = Inr bs"
    using buf_holds_load [OF buf(2), of 0 "length bs"] len by simp
  obtain c1 where c1: "ic_send conn c (msg_struct_bytes ?s) = (Inr (), c1)"
    using assms(2) by (auto simp: writeMessage_def Let_def split: prod.splits sum.splits)
  have sent1: "sent c1 = sent c @ msg_struct_bytes ?s \<and> isopen c1"
    using snd_done [OF _ c1] by simp
  have lt: "length bs < 2 ^ 32" using unat_u32_less [of "msg_length m"] len by simp
  show ?thesis
  proof (cases "0 < msg_length m")
    case True
    then have "ic_send conn c1 bs = (Inr u, c')"
      using assms(2) c1 buf(1) load by (simp add: writeMessage_def Let_def)
    from snd_done [OF lt this] sent1 show ?thesis by (simp add: frame_def flip: s)
  next
    case False
    then have "bs = []" using len by (simp add: word_neq_0_conv [symmetric])
    then show ?thesis
      using False assms(2) c1 sent1 s by (simp add: writeMessage_def Let_def frame_def)
  qed
qed

lemma writeMessage_fail:
  assumes "msg_rep h m p" and "writeMessage conn c h m = (Inl e, c')"
  shows "is_exception e \<and> \<not> isopen c'"
proof -
  obtain buf where buf: "Message_getContentPtr h m = Inr buf" "buf_holds buf (snd p)"
    using assms(1) by (auto simp: msg_rep_def)
  have load: "buf_load buf 0 (unat (msg_length m)) = Inr (snd p)"
    using buf_holds_load [OF buf(2), of 0 "length (snd p)"] assms(1) by (simp add: msg_rep_def)
  show ?thesis
    using assms(2) buf(1) load snd_fail
    by (auto simp: writeMessage_def Let_def split: prod.splits sum.splits if_splits)
qed

lemma readMessages_frames:
  assumes "isopen c" and "ready c = concat (map (\<lambda>(hdr, bs). frame hdr bs) ps) @ rest"
    and "\<forall>p \<in> set ps. length (snd p) < 2 ^ 31"
  shows "\<exists>ms c' h'. readMessages conn (length ps) c h = (Inr ms, c', h') \<and>
    list_all2 (msg_rep h') ms ps \<and> heap_extends h h' \<and> ready c' = rest \<and> isopen c'"
  using assms
proof (induction ps arbitrary: c h)
  case Nil
  then show ?case by simp
next
  case (Cons p ps)
  obtain hdr bs where p: "p = (hdr, bs)" by (cases p)
  from readMessage_frame [OF Cons.prems(1), of hdr bs "concat (map (\<lambda>(hdr, bs). frame hdr bs) ps) @ rest" h]
  obtain m c1 h1 where m: "readMessage conn c h = (Inr m, c1, h1)" "msg_rep h1 m p"
    "msg_content m < next_ref h1" "heap_extends h h1"
    "ready c1 = concat (map (\<lambda>(hdr, bs). frame hdr bs) ps) @ rest" "isopen c1"
    using Cons.prems p by auto
  obtain ms c2 h2 where ms: "readMessages conn (length ps) c1 h1 = (Inr ms, c2, h2)"
    "list_all2 (msg_rep h2) ms ps" "heap_extends h1 h2" "ready c2 = rest" "isopen c2"
    using Cons.IH [OF m(6,5)] Cons.prems(3) by fastforce
  show ?case
    using m ms msg_rep_extends [OF m(2,3) ms(3)] heap_extends_trans by auto
qed

lemma writeMessages_frames:
  assumes "list_all2 (msg_rep h) ms ps" and "writeMessages conn c h ms = (Inr u, c')"
  shows "sent c' = sent c @ concat (map (\<lambda>(hdr, bs). frame hdr bs) ps)"
  using assms
proof (induction ms ps arbitrary: c rule: list_all2_induct)
  case Nil
  then show ?case by simp
next
  case (Cons m ms p ps)
  obtain hdr bs where p: "p = (hdr, bs)" by (cases p)
  obtain c1 where c1: "writeMessage conn c h m = (Inr (), c1)" "writeMessages conn c1 h ms = (Inr u, c')"
    using Cons.prems by (auto split: prod.splits sum.splits)
  then show ?case
    using writeMessage_frame [OF _ c1(1), of hdr bs] Cons.IH [OF c1(2)] Cons.hyps(1) p by simp
qed

end

section \<open>Socket libraries that are reliable byte streams\<close>

text \<open>
  What the connection classes rely on: a receive returns at most what was asked for, stores
  the next bytes of the stream, returns at least one byte when there is one, and all of them
  when it was asked to wait (\<^verbatim>\<open>MSG_WAITALL\<close>); a send returns how many bytes it took.  \<open>inq w fd\<close>
  are the bytes the library will still deliver on the socket, \<open>outq w fd\<close> those it has taken.
\<close>

definition recv_contract :: "('w \<Rightarrow> byte list) \<Rightarrow> 'w \<Rightarrow> nat \<Rightarrow> bool \<Rightarrow> int \<times> byte list \<times> 'w \<Rightarrow> bool" where
  "recv_contract q w n waitall r = (case r of (m, bs, w') \<Rightarrow>
     -1 \<le> m \<and> m \<le> int n \<and>
     (0 \<le> m \<longrightarrow> nat m \<le> length (q w) \<and> bs = take (nat m) (q w) \<and> q w' = drop (nat m) (q w)) \<and>
     (0 < n \<and> n < 2 ^ 31 \<and> q w \<noteq> [] \<longrightarrow> 0 < m) \<and>
     (waitall \<and> 0 < n \<and> n < 2 ^ 31 \<and> n \<le> length (q w) \<longrightarrow> m = int n))"

definition send_contract :: "('w \<Rightarrow> byte list) \<Rightarrow> 'w \<Rightarrow> byte list \<Rightarrow> int \<times> 'w \<Rightarrow> bool" where
  "send_contract q w bs r = (case r of (m, w') \<Rightarrow>
     -1 \<le> m \<and> m \<le> int (length bs) \<and> (0 \<le> m \<longrightarrow> q w' = q w @ take (nat m) bs))"

definition socket_stream :: "'w os \<Rightarrow> ('w \<Rightarrow> int \<Rightarrow> byte list) \<Rightarrow> ('w \<Rightarrow> int \<Rightarrow> byte list) \<Rightarrow> bool" where
  "socket_stream os inq outq \<longleftrightarrow>
     (\<forall>w fd n waitall. recv_contract (\<lambda>w. inq w fd) w n waitall (sys_recv os w fd n waitall)) \<and>
     (\<forall>w fd bs. send_contract (\<lambda>w. outq w fd) w bs (sys_send os w fd bs))"

text \<open>The receive loop assembles exactly the bytes asked for, however the library cuts them.\<close>

lemma recv_contractD:
  assumes "recv_contract q w n wa (m, bs, w')" and "0 < m"
  shows "m \<le> int n" "nat m \<le> length (q w)" "bs = take (nat m) (q w)" "q w' = drop (nat m) (q w)"
  using assms by (auto simp: recv_contract_def)

lemma receive_loop_exact:
  assumes "\<forall>w n. recv_contract q w n False (recv w n)"
    and "receive_loop recv w n acc = (m, content, w')" and "0 < n" and m: "0 < m"
  shows "n \<le> length (q w) \<and> content = acc @ take n (q w) \<and> q w' = drop n (q w)"
  using assms(1-3)
proof (induction recv w n acc arbitrary: content w' rule: receive_loop.induct)
  case (1 recv w n acc)
  obtain k bs w1 where k: "recv w n = (k, bs, w1)" by (cases "recv w n")
  have rc: "recv_contract q w n False (k, bs, w1)" using "1.prems"(1) k by metis
  show ?case
  proof (cases "0 < k \<and> nat k < n")
    case True
    then have "0 < k" by simp
    note q1 = recv_contractD [OF rc this]
    have "receive_loop recv w1 (n - nat k) (acc @ bs) = (m, content, w')"
      using "1.prems" k True by (simp add: receive_loop.simps [of recv w n acc])
    then have IH: "n - nat k \<le> length (q w1) \<and> content = (acc @ bs) @ take (n - nat k) (q w1) \<and>
        q w' = drop (n - nat k) (q w1)"
      using "1.IH" [OF k [symmetric] refl refl True "1.prems"(1)] True by simp
    have "take (nat k) (q w) @ take (n - nat k) (drop (nat k) (q w)) = take n (q w)"
      using True by (metis add_diff_inverse_nat less_imp_le_nat not_less take_add)
    with IH q1 True show ?thesis by auto
  next
    case False
    then have eq: "k = m" "content = acc @ bs" "w1 = w'"
      using "1.prems"(2) k by (auto simp: receive_loop.simps [of recv w n acc])
    then have "0 < k" using m by simp
    note q1 = recv_contractD [OF rc this]
    then have "nat k = n" using False \<open>0 < k\<close> by simp
    then show ?thesis using q1 eq by simp
  qed
qed

lemma receive_loop_enough:
  assumes "\<forall>w n. recv_contract q w n False (recv w n)"
    and "0 < n" and "n < 2 ^ 31" and "n \<le> length (q w)"
  shows "\<exists>m content w'. receive_loop recv w n acc = (m, content, w') \<and> 0 < m"
  using assms
proof (induction recv w n acc rule: receive_loop.induct)
  case (1 recv w n acc)
  obtain k bs w1 where k: "recv w n = (k, bs, w1)" by (cases "recv w n")
  have rc: "recv_contract q w n False (k, bs, w1)" using "1.prems"(1) k by metis
  have "q w \<noteq> []" using "1.prems"(2,4) by auto
  then have pos: "0 < k" using rc "1.prems"(2,3) by (auto simp: recv_contract_def)
  note q1 = recv_contractD [OF rc this]
  show ?case
  proof (cases "nat k < n")
    case True
    have "\<exists>m content w'. receive_loop recv w1 (n - nat k) (acc @ bs) = (m, content, w') \<and> 0 < m"
      using "1.IH" [OF k [symmetric] refl refl conjI [OF pos True] "1.prems"(1)] True "1.prems" q1 by auto
    then show ?thesis
      using k pos True by (simp add: receive_loop.simps [of recv w n acc])
  next
    case False
    then show ?thesis using k pos by (simp add: receive_loop.simps [of recv w n acc])
  qed
qed

section \<open>The four classes meet the contract\<close>

locale os_stream =
  fixes os :: "'w os"
    and inq :: "'w \<Rightarrow> int \<Rightarrow> byte list"
    and outq :: "'w \<Rightarrow> int \<Rightarrow> byte list"
  assumes stream: "socket_stream os inq outq"
begin

lemma recv_ok: "recv_contract (\<lambda>w. inq w fd) w n wa (sys_recv os w fd n wa)"
  using stream by (simp add: socket_stream_def)

lemma loop_ok: "\<forall>w n. recv_contract (\<lambda>w. inq w fd) w n False (sys_recv os w fd n False)"
  using recv_ok by blast

lemma send_all:
  assumes "sys_send os w fd bs = (m, w')" and "length bs < 2 ^ 32"
    and "\<not> (m = -1 \<or> to_unsigned m < length bs)"
  shows "outq w' fd = outq w fd @ bs"
proof -
  have "send_contract (\<lambda>w. outq w fd) w bs (m, w')"
    using stream assms(1) by (metis socket_stream_def)
  then have m: "-1 \<le> m" "m \<le> int (length bs)" "0 \<le> m \<longrightarrow> outq w' fd = outq w fd @ take (nat m) bs"
    by (simp_all add: send_contract_def)
  then have "0 \<le> m" using assms(3) by simp
  then have "nat m = length bs"
    using m assms(2,3) to_unsigned_nonneg [of m] by simp
  with m \<open>0 \<le> m\<close> show ?thesis by simp
qed

lemma tcp_recv_exact:
  assumes "sys_recv os w fd n True = (m, bs, w')" and "0 < n" and "n < 2 ^ 32"
    and "\<not> (m = -1 \<or> to_unsigned m < n)"
  shows "inq w fd = bs @ inq w' fd \<and> length bs = n"
proof -
  have rc: "recv_contract (\<lambda>w. inq w fd) w n True (m, bs, w')"
    using recv_ok [of fd w n True] assms(1) by simp
  then have "0 \<le> m" "m \<le> int n" using assms(4) by (auto simp: recv_contract_def)
  then have "nat m = n" using assms(3,4) to_unsigned_nonneg [of m] by simp
  then have "0 < m" using assms(2) by simp
  from recv_contractD [OF rc this] \<open>nat m = n\<close> show ?thesis by simp
qed

lemma tcp_recv_enough:
  assumes "0 < n" and "n < 2 ^ 31" and "n \<le> length (inq w fd)"
  shows "\<exists>w'. sys_recv os w fd n True = (int n, take n (inq w fd), w') \<and> inq w' fd = drop n (inq w fd)"
proof -
  obtain m bs w' where r: "sys_recv os w fd n True = (m, bs, w')" by (cases "sys_recv os w fd n True")
  then have rc: "recv_contract (\<lambda>w. inq w fd) w n True (m, bs, w')"
    using recv_ok [of fd w n True] by simp
  then have m: "m = int n" using assms by (simp add: recv_contract_def)
  then have "0 < m" using assms(1) by simp
  from recv_contractD [OF rc this] m r show ?thesis by simp
qed

lemma loop_recv_exact:
  assumes "receive_loop (\<lambda>w n. sys_recv os w fd n False) w n [] = (m, bs, w')" and "0 < n" and "0 < m"
  shows "inq w fd = bs @ inq w' fd \<and> length bs = n"
  using receive_loop_exact [OF loop_ok assms] by simp

lemma loop_recv_enough:
  assumes "0 < n" and "n < 2 ^ 31" and "n \<le> length (inq w fd)"
  shows "\<exists>m w'. receive_loop (\<lambda>w n. sys_recv os w fd n False) w n [] = (m, take n (inq w fd), w') \<and>
    0 < m \<and> inq w' fd = drop n (inq w fd)"
proof -
  obtain m bs w' where r: "receive_loop (\<lambda>w n. sys_recv os w fd n False) w n [] = (m, bs, w')" "0 < m"
    using receive_loop_enough [OF loop_ok assms] by blast
  then show ?thesis using receive_loop_exact [OF loop_ok r(1) assms(1) r(2)] by simp
qed

end

sublocale os_stream \<subseteq> tcp: stream_endpoint "Connection_class os"
  "\<lambda>(c, w). inq w (client_fd c)" "\<lambda>(c, w). outq w (client_fd c)" "\<lambda>(c, w). conn_open c"
proof (unfold_locales, goal_cases)
  case (1 s n)
  then show ?case
    using tcp_recv_enough [of n "snd s" "client_fd (fst s)"]
    by (auto simp: Connection_class_def Connection_receive_def Connection_receiveDirect_def to_unsigned_def split: prod.splits)
next
  case (2 n s bs s')
  then show ?case
    using tcp_recv_exact [of "snd s" "client_fd (fst s)" n]
    by (auto simp: Connection_class_def Connection_receive_def Connection_receiveDirect_def Let_def split: prod.splits if_splits)
next
  case (3 s n e s')
  then show ?case
    by (auto simp: Connection_class_def Connection_receive_def Connection_receiveDirect_def Connection_close_def Let_def
        split: prod.splits if_splits)
next
  case (4 bs s u s')
  then show ?case
    using send_all [of "snd s" "client_fd (fst s)" bs]
    by (auto simp: Connection_class_def Connection_send_def Connection_sendDirect_def Let_def split: prod.splits if_splits)
next
  case (5 s bs e s')
  then show ?case
    by (auto simp: Connection_class_def Connection_send_def Connection_sendDirect_def Connection_close_def Let_def
        split: prod.splits if_splits)
qed

sublocale os_stream \<subseteq> udt: stream_endpoint "Udp_class os"
  "\<lambda>(c, w). inq w (client_fd c)" "\<lambda>(c, w). outq w (client_fd c)" "\<lambda>(c, w). conn_open c"
proof (unfold_locales, goal_cases)
  case (1 s n)
  then show ?case
    using loop_recv_enough [of n "snd s" "client_fd (fst s)"]
    by (auto simp: Udp_class_def Udp_receive_def Udp_receiveDirect_def split: prod.splits)
next
  case (2 n s bs s')
  then show ?case
    using loop_recv_exact [of "client_fd (fst s)" "snd s" n]
    by (auto simp: Udp_class_def Udp_receive_def Udp_receiveDirect_def Let_def split: prod.splits if_splits)
next
  case (3 s n e s')
  then show ?case
    by (auto simp: Udp_class_def Udp_receive_def Udp_receiveDirect_def Udp_close_def Let_def
        split: prod.splits if_splits)
next
  case (4 bs s u s')
  then show ?case
    using send_all [of "snd s" "client_fd (fst s)" bs]
    by (auto simp: Udp_class_def Udp_send_def Udp_sendDirect_def Let_def split: prod.splits if_splits)
next
  case (5 s bs e s')
  then show ?case
    by (auto simp: Udp_class_def Udp_send_def Udp_sendDirect_def Udp_close_def Let_def
        split: prod.splits if_splits)
qed

sublocale os_stream \<subseteq> ftcp: stream_endpoint "Ftnd_class os"
  "\<lambda>(c, w). inq w (client_fd c)" "\<lambda>(c, w). outq w (client_fd c)" "\<lambda>(c, w). conn_open c"
proof (unfold_locales, goal_cases)
  case (1 s n)
  then show ?case
    using loop_recv_enough [of n "snd s" "client_fd (fst s)"]
    by (auto simp: Ftnd_class_def Ftnd_receive_def Ftnd_receiveDirect_def split: prod.splits)
next
  case (2 n s bs s')
  then show ?case
    using loop_recv_exact [of "client_fd (fst s)" "snd s" n]
    by (auto simp: Ftnd_class_def Ftnd_receive_def Ftnd_receiveDirect_def Let_def split: prod.splits if_splits)
next
  case (3 s n e s')
  then show ?case
    by (auto simp: Ftnd_class_def Ftnd_receive_def Ftnd_receiveDirect_def Ftnd_close_def Let_def
        split: prod.splits if_splits)
next
  case (4 bs s u s')
  then show ?case
    using send_all [of "snd s" "client_fd (fst s)" bs]
    by (auto simp: Ftnd_class_def Ftnd_send_def Ftnd_sendDirect_def Let_def split: prod.splits if_splits)
next
  case (5 s bs e s')
  then show ?case
    by (auto simp: Ftnd_class_def Ftnd_send_def Ftnd_sendDirect_def Ftnd_close_def Let_def
        split: prod.splits if_splits)
qed

sublocale os_stream \<subseteq> fudt: stream_endpoint "FtndUdp_class os"
  "\<lambda>(c, w). inq w (client_fd c)" "\<lambda>(c, w). outq w (client_fd c)" "\<lambda>(c, w). conn_open c"
proof (unfold_locales, goal_cases)
  case (1 s n)
  then show ?case
    using loop_recv_enough [of n "snd s" "client_fd (fst s)"]
    by (auto simp: FtndUdp_class_def FtndUdp_receive_def FtndUdp_receiveDirect_def split: prod.splits)
next
  case (2 n s bs s')
  then show ?case
    using loop_recv_exact [of "client_fd (fst s)" "snd s" n]
    by (auto simp: FtndUdp_class_def FtndUdp_receive_def FtndUdp_receiveDirect_def Let_def split: prod.splits if_splits)
next
  case (3 s n e s')
  then show ?case
    by (auto simp: FtndUdp_class_def FtndUdp_receive_def FtndUdp_receiveDirect_def FtndUdp_close_def Let_def
        split: prod.splits if_splits)
next
  case (4 bs s u s')
  then show ?case
    using send_all [of "snd s" "client_fd (fst s)" bs]
    by (auto simp: FtndUdp_class_def FtndUdp_send_def FtndUdp_sendDirect_def Let_def split: prod.splits if_splits)
next
  case (5 s bs e s')
  then show ?case
    by (auto simp: FtndUdp_class_def FtndUdp_send_def FtndUdp_sendDirect_def FtndUdp_close_def Let_def
        split: prod.splits if_splits)
qed

context os_stream
begin

lemmas tcp_readMessages = tcp.readMessages_frames
lemmas tcp_readMessage_fail = tcp.readMessage_fail
lemmas ftcp_writeMessages = ftcp.writeMessages_frames
lemmas udt_rcv_enough = udt.rcv_enough
lemmas fudt_rcv_enough = fudt.rcv_enough

end

text \<open>A library that satisfies the contract: a pair of queues that hands out at most \<open>lw_cut + 1\<close>
  bytes at a time unless it is asked to wait.\<close>

record loop_world =
  lw_in :: "byte list"
  lw_out :: "byte list"
  lw_cut :: nat

definition loop_os :: "loop_world os" where
  "loop_os =
     \<lparr>sys_send = (\<lambda>w fd bs. (int (length bs), w\<lparr>lw_out := lw_out w @ bs\<rparr>)),
      sys_recv = (\<lambda>w fd n waitall.
        let k = min n (if waitall then length (lw_in w) else min (Suc (lw_cut w)) (length (lw_in w)))
        in (int k, take k (lw_in w), w\<lparr>lw_in := drop k (lw_in w)\<rparr>)),
      sys_close = (\<lambda>w fd. w), sys_startup = (\<lambda>w. (0, w)),
      sys_getaddrinfo = (\<lambda>w host port. (0, \<lparr>sin_addr = 1, sin_port = port\<rparr>, w)),
      sys_socket = (\<lambda>w. (3, w)), sys_bind = (\<lambda>w fd a. (0, w)), sys_listen = (\<lambda>w fd n. (0, w)),
      sys_accept = (\<lambda>w fd. (4, \<lparr>sin_addr = 1, sin_port = 0\<rparr>, w)), sys_connect = (\<lambda>w fd a. (0, w)),
      sys_setsockopt = (\<lambda>w fd opt v. w)\<rparr>"

interpretation loopback: os_stream loop_os "\<lambda>w fd. lw_in w" "\<lambda>w fd. lw_out w"
  by unfold_locales
    (auto simp: socket_stream_def recv_contract_def send_contract_def loop_os_def Let_def min_def split: if_splits)

section \<open>Properties of the message channel\<close>

abbreviation frames :: "(u32 \<times> byte list) list \<Rightarrow> byte list" where
  "frames ps \<equiv> concat (map (\<lambda>(hdr, bs). frame hdr bs) ps)"

text \<open>
  C3. Messages keep their boundaries on the stream: when a front-end TCP connection has written
  any list of messages without an exception and the back end's socket delivers the bytes, the
  back end reads exactly those messages, in order, with the same headers and contents, and the
  connection stays open.
\<close>

theorem framed_channel:
  assumes "socket_stream os inq outq" and "socket_stream os' inq' outq'"
    and "list_all2 (msg_rep h) ms ps" and "\<forall>p \<in> set ps. length (snd p) < 2 ^ 31"
    and "outq w (client_fd c) = []"
    and "writeMessages (Ftnd_class os) (c, w) h ms = (Inr (), c', w')"
    and "conn_open d" and "inq' v (client_fd d) = outq w' (client_fd c')"
  shows "\<exists>ms' d' v' g'. readMessages (Connection_class os') (length ps) (d, v) g = (Inr ms', (d', v'), g') \<and>
    list_all2 (msg_rep g') ms' ps \<and> conn_open d'"
proof -
  have "outq w' (client_fd c') = frames ps"
    using os_stream.ftcp_writeMessages [OF os_stream.intro [OF assms(1)] assms(3,6)] assms(5) by simp
  then have "inq' v (client_fd d) = frames ps @ []" using assms(8) by simp
  then show ?thesis
    using os_stream.tcp_readMessages [OF os_stream.intro [OF assms(2)], of "(d, v)" ps "[]" g] assms(4,7)
    by auto
qed

definition sample_heap :: heap where
  "sample_heap = \<lparr>refbufs = [0 \<mapsto> \<lparr>rb_content = [Some 65, Some 66], refcount = 1\<rparr>], next_ref = 1\<rparr>"

definition sample_message :: Message where
  "sample_message = \<lparr>msg_header = 7, msg_length = 2, msg_content = 0\<rparr>"

definition sample_conn :: Connection where
  "sample_conn = \<lparr>client_fd = 4, client_addr = \<lparr>sin_addr = 1, sin_port = 0\<rparr>, conn_open = True\<rparr>"

lemma sample_message_rep: "msg_rep sample_heap sample_message (7, [65, 66])"
  by (simp add: msg_rep_def sample_heap_def sample_message_def Message_getContentPtr_def
      Refbuf_getContentPtr_def buf_holds_def)

lemma sample_write:
  "writeMessages (Ftnd_class loop_os) (sample_conn, \<lparr>lw_in = [], lw_out = [], lw_cut = 0\<rparr>) sample_heap [sample_message] =
     (Inr (), sample_conn, \<lparr>lw_in = [], lw_out = [7, 0, 0, 0, 2, 0, 0, 0, 65, 66], lw_cut = 0\<rparr>)"
  by (simp add: writeMessage_def Ftnd_class_def Ftnd_send_def Ftnd_sendDirect_def loop_os_def sample_conn_def
      sample_heap_def sample_message_def Message_getContentPtr_def Refbuf_getContentPtr_def buf_load_def
      msg_struct_bytes_def to_unsigned_def le_bytes_numeral)

theorem framed_channel_witness:
  "socket_stream loop_os (\<lambda>w fd. lw_in w) (\<lambda>w fd. lw_out w) \<and>
   writeMessages (Ftnd_class loop_os) (sample_conn, \<lparr>lw_in = [], lw_out = [], lw_cut = 0\<rparr>) sample_heap [sample_message] =
     (Inr (), sample_conn, \<lparr>lw_in = [], lw_out = [7, 0, 0, 0, 2, 0, 0, 0, 65, 66], lw_cut = 0\<rparr>) \<and>
   (\<exists>ms' d' v' g'. readMessages (Connection_class loop_os) 1
      (sample_conn, \<lparr>lw_in = [7, 0, 0, 0, 2, 0, 0, 0, 65, 66], lw_out = [], lw_cut = 0\<rparr>) sample_heap =
        (Inr ms', (d', v'), g') \<and> list_all2 (msg_rep g') ms' [(7, [65, 66])] \<and> conn_open d')"
  using framed_channel [OF loopback.stream loopback.stream, where ps = "[(7, [65, 66])]", OF _ _ _ sample_write,
      where d = sample_conn and v = "\<lparr>lw_in = [7, 0, 0, 0, 2, 0, 0, 0, 65, 66], lw_out = [], lw_cut = 0\<rparr>"
      and g = sample_heap]
    sample_message_rep loopback.stream sample_write
  by (simp add: sample_conn_def)

text \<open>
  C26. The UDT connection of the back end assembles a receive from the pieces the library hands
  out: when the stream holds enough bytes, it returns exactly the next ones, leaves the rest
  for the next call, and stays open.
\<close>

theorem udp_receive_exact:
  assumes "socket_stream os inq outq" and "conn_open c"
    and "0 < n" and "n < 2 ^ 31" and "n \<le> length (inq w (client_fd c))"
  shows "\<exists>c' w'. Udp_receive os c w n = (Inr (take n (inq w (client_fd c))), c', w') \<and>
    inq w' (client_fd c') = drop n (inq w (client_fd c)) \<and> conn_open c'"
  using os_stream.udt_rcv_enough [OF os_stream.intro [OF assms(1)], of "(c, w)" n] assms(2-5)
  by (auto simp: Udp_class_def)

theorem udp_receive_exact_witness:
  "socket_stream loop_os (\<lambda>w fd. lw_in w) (\<lambda>w fd. lw_out w) \<and>
   (\<exists>c' w'. Udp_receive loop_os sample_conn \<lparr>lw_in = [1, 2, 3, 4, 5], lw_out = [], lw_cut = 0\<rparr> 3 = (Inr [1, 2, 3], c', w') \<and>
     lw_in w' = [4, 5] \<and> conn_open c')"
  using udp_receive_exact [OF loopback.stream, of sample_conn 3 "\<lparr>lw_in = [1, 2, 3, 4, 5], lw_out = [], lw_cut = 0\<rparr>"]
    loopback.stream
  by (simp add: sample_conn_def)

text \<open>
  C10. Connections fail stop: when reading a message fails, the reason is an exception, the
  connection has been closed, and every later receive or send throws at once without another
  call of the socket library.
\<close>

theorem connection_failstop:
  assumes "socket_stream os inq outq" and "readMessage (Connection_class os) (c, w) h = (Inl e, (c', w'), h')"
  shows "is_exception e \<and> \<not> conn_open c' \<and> h' = h \<and>
    Connection_receive os c' w' n = (Inl (ConnectionException ''Connection closed.''), c', w') \<and>
    Connection_send os c' w' bs = (Inl (ConnectionException ''Connection closed.''), c', w')"
  using os_stream.tcp_readMessage_fail [OF os_stream.intro [OF assms(1)] assms(2)]
  by (simp add: Connection_receive_def Connection_send_def)

theorem connection_failstop_witness:
  "readMessage (Connection_class loop_os) (sample_conn, \<lparr>lw_in = [7], lw_out = [], lw_cut = 0\<rparr>) sample_heap =
     (Inl (ConnectionException ''Receive failed.''),
      (sample_conn\<lparr>conn_open := False\<rparr>, \<lparr>lw_in = [], lw_out = [], lw_cut = 0\<rparr>), sample_heap) \<and>
   Connection_receive loop_os (sample_conn\<lparr>conn_open := False\<rparr>) \<lparr>lw_in = [], lw_out = [], lw_cut = 0\<rparr> 1 =
     (Inl (ConnectionException ''Connection closed.''), sample_conn\<lparr>conn_open := False\<rparr>,
      \<lparr>lw_in = [], lw_out = [], lw_cut = 0\<rparr>)"
proof -
  have r: "readMessage (Connection_class loop_os) (sample_conn, \<lparr>lw_in = [7], lw_out = [], lw_cut = 0\<rparr>) sample_heap =
     (Inl (ConnectionException ''Receive failed.''),
      (sample_conn\<lparr>conn_open := False\<rparr>, \<lparr>lw_in = [], lw_out = [], lw_cut = 0\<rparr>), sample_heap)"
    by (simp add: readMessage_def Connection_class_def Connection_receive_def Connection_receiveDirect_def
        Connection_close_def loop_os_def sample_conn_def to_unsigned_def)
  show ?thesis
    using connection_failstop [OF loopback.stream r] r by blast
qed

text \<open>
  C27. Accepting a connection leaves the listener in a consistent state: a connection that is
  returned is open and the listener is listening; a failure to create, bind or listen leaves
  it not listening, so that the next call tries again; a listener that is already listening
  keeps its socket.
\<close>

theorem accept_lifecycle:
  assumes "Connection_acceptConnection os l w = (r, l', w')"
  shows "(\<forall>c. r = Inr c \<longrightarrow> conn_open c \<and> client_fd c \<noteq> -1 \<and> listening l') \<and>
    (listening l \<longrightarrow> l' = l) \<and>
    (\<forall>e. r = Inl e \<longrightarrow> e = ConnectionException ''Accept failed.'' \<and> listening l' \<or> \<not> listening l')"
  using assms
  by (auto simp: Connection_acceptConnection_def Connection_listen_def Connection_closeListener_def Let_def
      split: prod.splits if_splits sum.splits)

theorem accept_lifecycle_witness:
  "let (r, l', w') = Connection_acceptConnection loop_os
       \<lparr>sock_fd = 0, sock_addr = \<lparr>sin_addr = 0, sin_port = 0\<rparr>, listening = False\<rparr> \<lparr>lw_in = [], lw_out = [], lw_cut = 0\<rparr>
   in (\<exists>c. r = Inr c \<and> conn_open c \<and> client_fd c = 4 \<and> listening l')"
proof -
  let ?l = "\<lparr>sock_fd = 0, sock_addr = \<lparr>sin_addr = 0, sin_port = 0\<rparr>, listening = False\<rparr>"
  let ?w = "\<lparr>lw_in = [], lw_out = [], lw_cut = 0\<rparr>"
  obtain r l' w' where eq: "Connection_acceptConnection loop_os ?l ?w = (r, l', w')"
    by (cases "Connection_acceptConnection loop_os ?l ?w")
  moreover have "\<exists>c. r = Inr c \<and> client_fd c = 4"
    using eq by (auto simp: Connection_acceptConnection_def Connection_listen_def loop_os_def Let_def)
  ultimately show ?thesis using accept_lifecycle [OF eq] by auto
qed

end
