(* ===== verification/Drawing.thy ===== *)
theory Drawing
  imports VA_Prelude
begin

text \<open>
  The drawing side of the accelerator inside the emulator: the context of \<^verbatim>\<open>va.h\<close> that it
  shares with the decoder threads, and \<^verbatim>\<open>va.c\<close>, which fits the decoded picture into the guest
  window, keeps one YUV overlay of the right size and shows the frame.  SDL and libswscale are
  parameters.
\<close>

section \<open>Shared context\<close>

text \<open>The fields of \<^verbatim>\<open>AVCodecContext\<close> the program reads; a decoded picture is a value of an
  arbitrary type \<open>'f\<close>.\<close>

record AVCodecContext =
  av_width :: int
  av_height :: int
  av_pix_fmt :: int

record clientRect =
  cr_l :: int
  cr_t :: int
  cr_w :: int
  cr_h :: int

record 'f VAContext =
  mutex_held :: bool
  avctx :: "AVCodecContext option"
  va_frame :: 'f
  client_rect :: clientRect
  needDraw :: int
  playing :: int

record SDL_Surface =
  sf_addr :: nat
  sf_w :: int
  sf_h :: int

record SDL_Overlay =
  ov_addr :: nat
  ov_w :: int
  ov_h :: int
  ov_pixels :: "nat list"
  ov_pitches :: "int list"

record AVPicture =
  pict_data :: "nat list"
  pict_linesize :: "int list"

text \<open>The static variable of \<^verbatim>\<open>va.c\<close> (its frame counter is never used).\<close>

record draw_state =
  overlay :: "SDL_Overlay option"
  last_screen :: nat

text \<open>SDL rectangles hold 16-bit values: signed positions, unsigned sizes.\<close>

record SDL_Rect =
  rect_x :: "16 word"
  rect_y :: "16 word"
  rect_w :: "16 word"
  rect_h :: "16 word"

record 'f media =
  SDL_CreateYUVOverlay :: "int \<Rightarrow> int \<Rightarrow> SDL_Surface \<Rightarrow> SDL_Overlay option"
  sws_getContext :: "int \<Rightarrow> int \<Rightarrow> int \<Rightarrow> int \<Rightarrow> int \<Rightarrow> nat option"
  sws_scale :: "nat option \<Rightarrow> 'f \<Rightarrow> int \<Rightarrow> AVPicture \<Rightarrow> int"

text \<open>The calls that are visible from outside, in order; a creation with the address it returned.\<close>

datatype draw_event =
    LockMutex | UnlockMutex
  | FreeOverlay nat | CreateOverlay int int "nat option"
  | LockOverlay nat | UnlockOverlay nat | FreeSws "nat option"
  | DisplayOverlay nat SDL_Rect
  | Print string

section \<open>calcScale\<close>

text \<open>The first part of the function: the picture's place in guest coordinates.\<close>

definition clamp_window :: "int \<Rightarrow> int" where
  "clamp_window x =
     (let x1 = (if x < 0 then 0 else x) in if 2000 < x1 then 2000 else x1)"

definition fit_window :: "int \<Rightarrow> int \<Rightarrow> clientRect \<Rightarrow> c_fault + int \<times> int \<times> int \<times> int" where
  "fit_window videow videoh cr =
     (let windoww = clamp_window (cr_w cr); windowh = clamp_window (cr_h cr)
      in bindR (c_mul windoww videoh) (\<lambda>a.
         bindR (c_mul windowh videow) (\<lambda>b.
         if b < a
         then
           bindR (c_mul videow windowh) (\<lambda>p.
           bindR (c_div p videoh) (\<lambda>nwindoww.
           let nwindowh = windowh in
           bindR (c_sub windoww nwindoww) (\<lambda>dw.
           bindR (c_div dw 2) (\<lambda>hw.
           bindR (c_add (cr_l cr) hw) (\<lambda>nwindowl.
           bindR (c_sub windowh nwindowh) (\<lambda>dh.
           bindR (c_div dh 2) (\<lambda>hh.
           bindR (c_add (cr_t cr) hh) (\<lambda>nwindowt.
             Inr (nwindowl, nwindowt, nwindoww, nwindowh)))))))))
         else
           bindR (c_mul videoh windoww) (\<lambda>p.
           bindR (c_div p videow) (\<lambda>nwindowh.
           let nwindoww = windoww in
           bindR (c_sub windowh nwindowh) (\<lambda>dh.
           bindR (c_div dh 2) (\<lambda>hh.
           bindR (c_add (cr_t cr) hh) (\<lambda>nwindowt.
           bindR (c_sub windoww nwindoww) (\<lambda>dw.
           bindR (c_div dw 2) (\<lambda>hw.
           bindR (c_add (cr_l cr) hw) (\<lambda>nwindowl.
             Inr (nwindowl, nwindowt, nwindoww, nwindowh)))))))))
      )))"

definition scale_coord :: "int \<Rightarrow> int \<Rightarrow> int \<Rightarrow> c_fault + int" where
  "scale_coord x scr res = bindR (c_mul x scr) (\<lambda>p. c_div p res)"

definition calcScale ::
  "AVCodecContext \<Rightarrow> clientRect \<Rightarrow> SDL_Surface \<Rightarrow> int \<Rightarrow> int \<Rightarrow> c_fault + int \<times> int \<times> int \<times> int" where
  "calcScale av cr screen reswidth resheight =
     bindR (fit_window (av_width av) (av_height av) cr) (\<lambda>(nl, nt, nw, nh).
     bindR (scale_coord nl (sf_w screen) reswidth) (\<lambda>vl.
     bindR (scale_coord nt (sf_h screen) resheight) (\<lambda>vt.
     bindR (scale_coord nw (sf_w screen) reswidth) (\<lambda>vw.
     bindR (scale_coord nh (sf_h screen) resheight) (\<lambda>vh.
       Inr (vl, vt, vw, vh))))))"

section \<open>convert and the drawing routine\<close>

text \<open>YV12 stores the V plane before the U plane, so the second and third planes are swapped.\<close>

definition overlay_picture :: "SDL_Overlay \<Rightarrow> AVPicture" where
  "overlay_picture bmp =
     \<lparr>pict_data = [ov_pixels bmp ! 0, ov_pixels bmp ! 2, ov_pixels bmp ! 1],
      pict_linesize = [ov_pitches bmp ! 0, ov_pitches bmp ! 2, ov_pitches bmp ! 1]\<rparr>"

definition convert ::
  "'f media \<Rightarrow> AVCodecContext \<Rightarrow> 'f \<Rightarrow> SDL_Overlay \<Rightarrow> int \<Rightarrow> int \<Rightarrow> int \<times> draw_event list" where
  "convert lib av picture bmp width height =
     (let pict = overlay_picture bmp;
          convertCtx = sws_getContext lib (av_width av) (av_height av) (av_pix_fmt av) width height;
          success = sws_scale lib convertCtx picture (av_height av) pict
      in (success, [LockOverlay (ov_addr bmp), FreeSws convertCtx, UnlockOverlay (ov_addr bmp)]))"

definition int_rect :: "int \<Rightarrow> int \<Rightarrow> int \<Rightarrow> int \<Rightarrow> SDL_Rect" where
  "int_rect x y w h =
     \<lparr>rect_x = word_of_int x, rect_y = word_of_int y, rect_w = word_of_int w, rect_h = word_of_int h\<rparr>"

text \<open>The last part of the routine, from the call of \<open>convert\<close> on, with the overlay in place.\<close>

definition show_frame ::
  "'f media \<Rightarrow> 'f VAContext \<Rightarrow> AVCodecContext \<Rightarrow> draw_state \<Rightarrow> SDL_Overlay \<Rightarrow> int \<times> int \<times> int \<times> int \<Rightarrow>
   draw_event list \<Rightarrow> 'f VAContext \<times> draw_state \<times> draw_event list" where
  "show_frame lib ctx av st bmp r evs =
     (case r of (vl, vt, vw, vh) \<Rightarrow>
        let (success, cevs) = convert lib av (va_frame ctx) bmp vw vh
        in (ctx\<lparr>needDraw := 0, mutex_held := False\<rparr>, st,
            evs @ cevs @ [UnlockMutex] @
            (if 0 < success then [DisplayOverlay (ov_addr bmp) (int_rect vl vt vw vh)]
             else [Print ''va_do_drawing_locked: image scaling failure!''])))"

definition free_overlay :: "draw_state \<Rightarrow> draw_state \<times> draw_event list" where
  "free_overlay st =
     (case overlay st of
        None \<Rightarrow> (st, [])
      | Some bmp \<Rightarrow> (st\<lparr>overlay := None\<rparr>, [FreeOverlay (ov_addr bmp), Print ''Destroyed overlay.'']))"

definition overlay_fits :: "draw_state \<Rightarrow> SDL_Surface \<Rightarrow> int \<Rightarrow> int \<Rightarrow> bool" where
  "overlay_fits st real_screen vw vh =
     (case overlay st of
        None \<Rightarrow> False
      | Some bmp \<Rightarrow> ov_w bmp = vw \<and> ov_h bmp = vh \<and> last_screen st = sf_addr real_screen)"

definition va_do_drawing_locked ::
  "'f media \<Rightarrow> 'f VAContext \<Rightarrow> draw_state \<Rightarrow> SDL_Surface \<Rightarrow> int \<Rightarrow> int \<Rightarrow>
   c_fault + 'f VAContext \<times> draw_state \<times> draw_event list" where
  "va_do_drawing_locked lib ctx0 st real_screen width height =
     (let ctx = ctx0\<lparr>mutex_held := True\<rparr>; unlocked = ctx\<lparr>mutex_held := False\<rparr>
      in if playing ctx \<noteq> 0
         then
           (if needDraw ctx = 0 then Inr (unlocked, st, [LockMutex, UnlockMutex])
            else
              (case avctx ctx of
                 None \<Rightarrow> Inl NullPointer
               | Some av \<Rightarrow>
                   bindR (calcScale av (client_rect ctx) real_screen width height) (\<lambda>(vl, vt, vw, vh).
                   if \<not> overlay_fits st real_screen vw vh
                   then
                     let (st1, fevs) = free_overlay st in
                     bindR (c_div (av_width av) 20) (\<lambda>minw.
                     bindR (c_div (av_height av) 20) (\<lambda>minh.
                     if vw < minw \<or> vh < minh
                     then Inr (unlocked, st1, [LockMutex] @ fevs @ [UnlockMutex])
                     else
                       (case SDL_CreateYUVOverlay lib vw vh real_screen of
                          None \<Rightarrow>
                            Inr (unlocked, st1, [LockMutex] @ fevs @ [CreateOverlay vw vh None,
                              Print ''va_do_drawing_locked: Unable to create YUV overlay!'', UnlockMutex])
                        | Some bmp \<Rightarrow>
                            let st2 = st1\<lparr>overlay := Some bmp, last_screen := sf_addr real_screen\<rparr>
                            in Inr (show_frame lib ctx av st2 bmp (vl, vt, vw, vh)
                                 ([LockMutex] @ fevs @ [CreateOverlay vw vh (Some (ov_addr bmp)), Print ''Created new overlay.''])))))
                   else
                     Inr (show_frame lib ctx av st (the (overlay st)) (vl, vt, vw, vh) [LockMutex]))))
         else
           (let (st1, fevs) = free_overlay st
            in Inr (unlocked, st1, [LockMutex, UnlockMutex] @ fevs)))"

definition va_do_drawing ::
  "'f media \<Rightarrow> 'f VAContext option \<Rightarrow> draw_state \<Rightarrow> SDL_Surface \<Rightarrow> int \<Rightarrow> int \<Rightarrow>
   c_fault + 'f VAContext option \<times> draw_state \<times> draw_event list" where
  "va_do_drawing lib context st real_screen width height =
     (case context of
        None \<Rightarrow> Inr (None, st, [])
      | Some ctx \<Rightarrow>
          bindR (va_do_drawing_locked lib ctx st real_screen width height)
            (\<lambda>(ctx', st', evs). Inr (Some ctx', st', evs)))"

section \<open>Fitting the picture\<close>

lemma clamp_window_range: "0 \<le> clamp_window x \<and> clamp_window x \<le> 2000"
  by (simp add: clamp_window_def Let_def)

lemma clamp_window_id: "0 \<le> x \<Longrightarrow> x \<le> 2000 \<Longrightarrow> clamp_window x = x"
  by (simp add: clamp_window_def)

lemma div_fit:
  fixes W H v u :: int
  assumes "0 \<le> W" "0 \<le> H" "0 < v" "0 < u" and "u * H \<le> W * v"
  shows "0 \<le> u * H div v" "u * H div v \<le> W" "\<bar>(u * H div v) * v - H * u\<bar> < v"
proof -
  have *: "u * H = (u * H div v) * v + u * H mod v" by simp
  have r: "0 \<le> u * H mod v" "u * H mod v < v" using assms(3) by simp_all
  show "0 \<le> u * H div v" using assms by (simp add: pos_imp_zdiv_nonneg_iff)
  have "(u * H div v) * v \<le> W * v" using * r assms(5) by linarith
  then show "u * H div v \<le> W" using assms(3) by simp
  have "H * u = u * H" by simp
  with * r show "\<bar>(u * H div v) * v - H * u\<bar> < v" by linarith
qed

lemma mult_small:
  fixes a b :: int
  assumes "\<bar>a\<bar> \<le> m" "\<bar>b\<bar> \<le> n" "m * n < 2 ^ 31"
  shows "\<bar>a * b\<bar> < 2 ^ 31"
proof -
  have "\<bar>a * b\<bar> \<le> m * n"
    unfolding abs_mult using assms(1,2) by (intro mult_mono) auto
  with assms(3) show ?thesis by linarith
qed

text \<open>The size of the picture in the window, as mathematics.\<close>

definition fit_size :: "int \<Rightarrow> int \<Rightarrow> int \<Rightarrow> int \<Rightarrow> int \<times> int" where
  "fit_size videow videoh W H =
     (if H * videow < W * videoh then (videow * H div videoh, H) else (W, videoh * W div videow))"

lemma fit_size_bounds:
  assumes "0 < videow" "0 < videoh" "0 \<le> W" "0 \<le> H" and "fit_size videow videoh W H = (nw, nh)"
  shows "0 \<le> nw" "nw \<le> W" "0 \<le> nh" "nh \<le> H" "nw = W \<or> nh = H"
    "\<bar>nw * videoh - nh * videow\<bar> < max videow videoh"
proof -
  have "(0 \<le> nw \<and> nw \<le> W) \<and> (0 \<le> nh \<and> nh \<le> H) \<and> (nw = W \<or> nh = H) \<and>
      \<bar>nw * videoh - nh * videow\<bar> < max videow videoh"
  proof (cases "H * videow < W * videoh")
    case True
    then have eq: "nw = videow * H div videoh" "nh = H" using assms(5) by (auto simp: fit_size_def)
    have "videow * H \<le> W * videoh" using True by (simp add: mult.commute)
    from div_fit [OF assms(3,4,2,1) this] eq assms(4) show ?thesis by auto
  next
    case False
    then have eq: "nh = videoh * W div videow" "nw = W" using assms(5) by (auto simp: fit_size_def)
    have "videoh * W \<le> H * videow" using False by (simp add: mult.commute)
    from div_fit [OF assms(4,3,1,2) this] have "0 \<le> nh" "nh \<le> H" "\<bar>nh * videow - W * videoh\<bar> < videow"
      using eq by simp_all
    then have "\<bar>nw * videoh - nh * videow\<bar> < videow" using eq by (simp add: abs_minus_commute)
    with \<open>0 \<le> nh\<close> \<open>nh \<le> H\<close> eq assms(3) show ?thesis by auto
  qed
  then show "0 \<le> nw" "nw \<le> W" "0 \<le> nh" "nh \<le> H" "nw = W \<or> nh = H"
    "\<bar>nw * videoh - nh * videow\<bar> < max videow videoh" by auto
qed

lemma fit_window_eq:
  assumes "0 < videow" "videow \<le> 16384" "0 < videoh" "videoh \<le> 16384"
    and "\<bar>cr_l cr\<bar> \<le> 32768" "\<bar>cr_t cr\<bar> \<le> 32768"
    and size: "fit_size videow videoh (clamp_window (cr_w cr)) (clamp_window (cr_h cr)) = (nw, nh)"
  shows "fit_window videow videoh cr =
    Inr (cr_l cr + (clamp_window (cr_w cr) - nw) div 2, cr_t cr + (clamp_window (cr_h cr) - nh) div 2, nw, nh)"
proof -
  define W H where "W = clamp_window (cr_w cr)" and "H = clamp_window (cr_h cr)"
  have WH: "0 \<le> W" "W \<le> 2000" "0 \<le> H" "H \<le> 2000"
    using clamp_window_range by (auto simp: W_def H_def)
  note b = fit_size_bounds [OF assms(1,3) WH(1,3) size [folded W_def H_def]]
  have muls: "\<bar>W * videoh\<bar> < 2 ^ 31" "\<bar>H * videow\<bar> < 2 ^ 31" "\<bar>videow * H\<bar> < 2 ^ 31" "\<bar>videoh * W\<bar> < 2 ^ 31"
    using mult_small [of W 2000 videoh 16384] mult_small [of H 2000 videow 16384] assms(1-4) WH
    by (simp_all add: mult.commute)
  have halves: "c_div (W - nw) 2 = Inr ((W - nw) div 2)" "c_div (H - nh) 2 = Inr ((H - nh) div 2)"
    using b WH by (simp_all add: c_div_small sdiv_pos)
  have adds: "\<bar>cr_l cr + (W - nw) div 2\<bar> < 2 ^ 31" "\<bar>cr_t cr + (H - nh) div 2\<bar> < 2 ^ 31"
    using b WH assms(5,6) by (simp_all add: abs_if split: if_splits) linarith+
  have subs: "c_sub W nw = Inr (W - nw)" "c_sub H nh = Inr (H - nh)"
    using b WH by (simp_all add: c_arith)
  have divs: "c_div (videow * H) videoh = Inr (videow * H div videoh)"
    "c_div (videoh * W) videow = Inr (videoh * W div videow)"
    using muls WH assms(1,3) by (simp_all add: c_div_small sdiv_pos)
  note ops = c_ops_small(3) [OF muls(1)] c_ops_small(3) [OF muls(2)] c_ops_small(3) [OF muls(3)]
    c_ops_small(3) [OF muls(4)] c_ops_small(1) [OF adds(1)] c_ops_small(1) [OF adds(2)] halves subs divs
  have sz: "(nw, nh) = (if H * videow < W * videoh then (videow * H div videoh, H) else (W, videoh * W div videow))"
    using size unfolding W_def H_def fit_size_def by (rule sym)
  show ?thesis
  proof (cases "H * videow < W * videoh")
    case True
    then have "nw = videow * H div videoh" "nh = H" using sz by simp_all
    then show ?thesis using True ops unfolding fit_window_def Let_def W_def [symmetric] H_def [symmetric]
      by (simp only: if_True bindR_simps)
  next
    case False
    then have "nw = W" "nh = videoh * W div videow" using sz by simp_all
    then show ?thesis using False ops unfolding fit_window_def Let_def W_def [symmetric] H_def [symmetric]
      by (simp only: if_False bindR_simps)
  qed
qed

lemma scale_coord_small:
  assumes "\<bar>x\<bar> \<le> 65536" "0 < scr" "scr \<le> 16384" "0 < res"
  shows "scale_coord x scr res = Inr (x * scr sdiv res)"
  using mult_small [of x 65536 scr 16384] assms by (simp add: scale_coord_def c_arith)

lemma calcScale_placed:
  assumes "0 < av_width av" "av_width av \<le> 16384" "0 < av_height av" "av_height av \<le> 16384"
    and "\<bar>cr_l cr\<bar> \<le> 32768" "\<bar>cr_t cr\<bar> \<le> 32768"
    and "0 < sf_w screen" "sf_w screen \<le> 16384" "0 < sf_h screen" "sf_h screen \<le> 16384"
    and "0 < reswidth" "0 < resheight"
  shows "\<exists>nl nt nw nh. calcScale av cr screen reswidth resheight =
      Inr (nl * sf_w screen sdiv reswidth, nt * sf_h screen sdiv resheight,
           nw * sf_w screen sdiv reswidth, nh * sf_h screen sdiv resheight) \<and>
    0 \<le> nw \<and> nw \<le> clamp_window (cr_w cr) \<and> 0 \<le> nh \<and> nh \<le> clamp_window (cr_h cr) \<and>
    (nw = clamp_window (cr_w cr) \<or> nh = clamp_window (cr_h cr)) \<and>
    nl = cr_l cr + (clamp_window (cr_w cr) - nw) div 2 \<and>
    nt = cr_t cr + (clamp_window (cr_h cr) - nh) div 2 \<and>
    \<bar>nw * av_height av - nh * av_width av\<bar> < max (av_width av) (av_height av)"
proof -
  let ?W = "clamp_window (cr_w cr)" and ?H = "clamp_window (cr_h cr)"
  have WH: "0 \<le> ?W" "?W \<le> 2000" "0 \<le> ?H" "?H \<le> 2000" using clamp_window_range by auto
  obtain nw nh where sz: "fit_size (av_width av) (av_height av) ?W ?H = (nw, nh)"
    by (cases "fit_size (av_width av) (av_height av) ?W ?H")
  note b = fit_size_bounds [OF assms(1,3) WH(1,3) sz]
  let ?nl = "cr_l cr + (?W - nw) div 2" and ?nt = "cr_t cr + (?H - nh) div 2"
  have small: "\<bar>?nl\<bar> \<le> 65536" "\<bar>?nt\<bar> \<le> 65536" "\<bar>nw\<bar> \<le> 65536" "\<bar>nh\<bar> \<le> 65536"
    using b WH assms(5,6) by (simp_all add: abs_if split: if_splits) linarith+
  have "calcScale av cr screen reswidth resheight =
      Inr (?nl * sf_w screen sdiv reswidth, ?nt * sf_h screen sdiv resheight,
           nw * sf_w screen sdiv reswidth, nh * sf_h screen sdiv resheight)"
    unfolding calcScale_def fit_window_eq [OF assms(1-6) sz]
    by (simp only: bindR_simps prod.case
        scale_coord_small [OF small(1) assms(7,8,11)] scale_coord_small [OF small(2) assms(9,10,12)]
        scale_coord_small [OF small(3) assms(7,8,11)] scale_coord_small [OF small(4) assms(9,10,12)])
  with b show ?thesis
    by (intro exI [of _ ?nl] exI [of _ ?nt] exI [of _ nw] exI [of _ nh] conjI) (assumption | rule refl)+
qed

lemma calcScale_total:
  assumes "0 < av_width av" "av_width av \<le> 16384" "0 < av_height av" "av_height av \<le> 16384"
    and "\<bar>cr_l cr\<bar> \<le> 32768" "\<bar>cr_t cr\<bar> \<le> 32768"
    and "0 < sf_w screen" "sf_w screen \<le> 16384" "0 < sf_h screen" "sf_h screen \<le> 16384"
    and "0 < reswidth" "0 < resheight"
  shows "\<exists>vl vt vw vh. calcScale av cr screen reswidth resheight = Inr (vl, vt, vw, vh)"
  using calcScale_placed [OF assms] by blast


text \<open>A 640 by 480 video in an 800 by 500 window of a 1024 by 768 screen.\<close>

definition ex_av :: AVCodecContext where
  "ex_av = \<lparr>av_width = 640, av_height = 480, av_pix_fmt = 0\<rparr>"

definition ex_rect :: clientRect where
  "ex_rect = \<lparr>cr_l = 10, cr_t = 20, cr_w = 800, cr_h = 500\<rparr>"

definition ex_screen :: SDL_Surface where
  "ex_screen = \<lparr>sf_addr = 1, sf_w = 1024, sf_h = 768\<rparr>"

lemma ex_fields [simp]:
  "av_width ex_av = 640" "av_height ex_av = 480" "cr_l ex_rect = 10" "cr_t ex_rect = 20"
  "sf_w ex_screen = 1024" "sf_h ex_screen = 768"
  "clamp_window (cr_w ex_rect) = 800" "clamp_window (cr_h ex_rect) = 500"
  by (simp_all add: ex_av_def ex_rect_def ex_screen_def clamp_window_id)


section \<open>The drawing routine\<close>

fun live_overlays :: "nat list \<Rightarrow> draw_event list \<Rightarrow> nat list" where
  "live_overlays live [] = live"
| "live_overlays live (CreateOverlay w h (Some a) # evs) = live_overlays (a # live) evs"
| "live_overlays live (FreeOverlay a # evs) = live_overlays (remove1 a live) evs"
| "live_overlays live (_ # evs) = live_overlays live evs"

definition owned :: "draw_state \<Rightarrow> nat list" where
  "owned st = (case overlay st of None \<Rightarrow> [] | Some bmp \<Rightarrow> [ov_addr bmp])"

lemma live_overlays_append: "live_overlays live (xs @ ys) = live_overlays (live_overlays live xs) ys"
  by (induction live xs rule: live_overlays.induct) simp_all

text \<open>The two ways out of the routine that matter for resources.\<close>

lemma free_overlay_live:
  "free_overlay st = (st1, fevs) \<Longrightarrow> overlay st1 = None \<and> owned st1 = [] \<and> live_overlays (owned st) fevs = [] \<and>
     count_list fevs LockMutex = 0 \<and> count_list fevs UnlockMutex = 0 \<and> last_screen st1 = last_screen st \<and>
     (\<forall>a r. DisplayOverlay a r \<notin> set fevs)"
  by (auto simp: free_overlay_def owned_def split: option.splits)

lemma show_frame_live:
  assumes "show_frame lib ctx av st bmp r evs = (ctx', st', evs')"
  shows "st' = st \<and> ctx' = ctx\<lparr>needDraw := 0, mutex_held := False\<rparr> \<and>
    live_overlays live evs' = live_overlays live evs \<and>
    count_list evs' LockMutex = count_list evs LockMutex \<and>
    count_list evs' UnlockMutex = Suc (count_list evs UnlockMutex) \<and>
    (\<forall>a q. DisplayOverlay a q \<in> set evs' \<longrightarrow> DisplayOverlay a q \<in> set evs \<or> a = ov_addr bmp)"
  using assms
  by (auto simp: show_frame_def convert_def Let_def live_overlays_append split: prod.splits if_splits)

lemma drawing_effects:
  assumes "va_do_drawing_locked lib ctx st real_screen width height = Inr (ctx', st', evs)"
  shows "live_overlays (owned st) evs = owned st' \<and> \<not> mutex_held ctx' \<and>
    count_list evs LockMutex = 1 \<and> count_list evs UnlockMutex = 1 \<and>
    (\<forall>a r. DisplayOverlay a r \<in> set evs \<longrightarrow>
       owned st' = [a] \<and> needDraw ctx' = 0 \<and> needDraw ctx \<noteq> 0 \<and> playing ctx \<noteq> 0) \<and>
    (playing ctx = 0 \<longrightarrow> overlay st' = None) \<and>
    ctx' = ctx\<lparr>mutex_held := False, needDraw := needDraw ctx'\<rparr> \<and>
    (needDraw ctx' = needDraw ctx \<or> needDraw ctx' = 0)"
proof (cases "playing ctx \<noteq> 0 \<and> needDraw ctx \<noteq> 0")
  case False
  then show ?thesis using assms free_overlay_live [of st]
    by (cases "free_overlay st")
      (auto simp: va_do_drawing_locked_def Let_def live_overlays_append split: if_splits)
next
  case True
  let ?ctx = "ctx\<lparr>mutex_held := True\<rparr>"
  from True assms obtain av vl vt vw vh where av: "avctx ctx = Some av"
    and cs: "calcScale av (client_rect ctx) real_screen width height = Inr (vl, vt, vw, vh)"
    by (auto simp: va_do_drawing_locked_def Let_def bindR_Inr_iff split: option.splits)
  obtain st1 fevs where fr: "free_overlay st = (st1, fevs)" by (cases "free_overlay st")
  note live = free_overlay_live [OF fr]
  show ?thesis
  proof (cases "overlay_fits st real_screen vw vh")
    case fits: True
    then have "show_frame lib ?ctx av st (the (overlay st)) (vl, vt, vw, vh) [LockMutex] = (ctx', st', evs)"
      using assms True av cs by (simp add: va_do_drawing_locked_def Let_def)
    from show_frame_live [OF this, of "owned st"] True fits show ?thesis
      by (auto simp: owned_def overlay_fits_def split: option.splits)
  next
    case new: False
    show ?thesis
    proof (cases "vw < av_width av sdiv 20 \<or> vh < av_height av sdiv 20 \<or> SDL_CreateYUVOverlay lib vw vh real_screen = None")
      case True
      then show ?thesis using assms \<open>playing ctx \<noteq> 0 \<and> needDraw ctx \<noteq> 0\<close> av cs fr new live
        by (auto simp: va_do_drawing_locked_def Let_def c_div_def c_int_def bindR_Inr_iff live_overlays_append
            owned_def split: if_splits option.splits)
    next
      case False
      then obtain bmp where bmp: "SDL_CreateYUVOverlay lib vw vh real_screen = Some bmp" by auto
      then have "show_frame lib ?ctx av (st1\<lparr>overlay := Some bmp, last_screen := sf_addr real_screen\<rparr>) bmp (vl, vt, vw, vh)
          ([LockMutex] @ fevs @ [CreateOverlay vw vh (Some (ov_addr bmp)), Print ''Created new overlay.'']) = (ctx', st', evs)"
        using assms \<open>playing ctx \<noteq> 0 \<and> needDraw ctx \<noteq> 0\<close> False av cs fr new
        by (auto simp: va_do_drawing_locked_def Let_def c_div_def c_int_def bindR_Inr_iff split: if_splits)
      from show_frame_live [OF this, of "owned st"] \<open>playing ctx \<noteq> 0 \<and> needDraw ctx \<noteq> 0\<close> live show ?thesis
        by (auto simp: live_overlays_append owned_def)
    qed
  qed
qed


definition ex_media :: "unit media" where
  "ex_media =
     \<lparr>SDL_CreateYUVOverlay = (\<lambda>w h _. Some \<lparr>ov_addr = 9, ov_w = w, ov_h = h, ov_pixels = [1, 2, 3], ov_pitches = [w, w, w]\<rparr>),
      sws_getContext = (\<lambda>_ _ _ _ _. Some 5), sws_scale = (\<lambda>_ _ h _. h)\<rparr>"

definition ex_ctx :: "unit VAContext" where
  "ex_ctx = \<lparr>mutex_held = False, avctx = Some ex_av, va_frame = (), client_rect = ex_rect, needDraw = 1, playing = 1\<rparr>"

definition ex_bmp :: SDL_Overlay where
  "ex_bmp = \<lparr>ov_addr = 9, ov_w = 666, ov_h = 500, ov_pixels = [1, 2, 3], ov_pitches = [666, 666, 666]\<rparr>"

definition ex_evs :: "draw_event list" where
  "ex_evs = [LockMutex, CreateOverlay 666 500 (Some 9), Print ''Created new overlay.'',
     LockOverlay 9, FreeSws (Some 5), UnlockOverlay 9, UnlockMutex, DisplayOverlay 9 (int_rect 77 20 666 500)]"

lemma ex_drawing:
  "va_do_drawing_locked ex_media ex_ctx \<lparr>overlay = None, last_screen = 0\<rparr> ex_screen 1024 768 =
     Inr (ex_ctx\<lparr>needDraw := 0\<rparr>, \<lparr>overlay = Some ex_bmp, last_screen = 1\<rparr>, ex_evs)"
  by code_simp




end
