(* ===== verification/Backend.thy ===== *)
theory Backend
  imports Marshal Transport Drawing
begin

text \<open>
  The two threads of the accelerator back end, \<^verbatim>\<open>qemu/vabknd/vabknd.cc\<close>: one follows the guest
  window, the other opens codecs and decodes frames into the context the drawing routine shows.
  libavcodec and libavformat are parameters with a state \<open>'l\<close> of their own; the listener class
  is not part of the sources, so an accepted connection is an event.
\<close>

section \<open>State and parameters\<close>

datatype CodecID = CODEC_ID_H264 | CODEC_ID_MPEG4 | CODEC_ID_MPEG2VIDEO

text \<open>A stream of a media file: whether its codec type is video, and its codec context.\<close>

record avstream =
  is_video :: bool
  stream_codec :: AVCodecContext

record ('f, 'l) ffmpeg =
  avcodec_find_decoder :: "'l \<Rightarrow> CodecID \<Rightarrow> nat option"
  av_open_input_file :: "'l \<Rightarrow> int \<times> 'l"
  av_find_stream_info :: "'l \<Rightarrow> int \<times> 'l"
  av_streams :: "'l \<Rightarrow> avstream list"
  avcodec_alloc_context :: "'l \<Rightarrow> AVCodecContext option \<times> 'l"
  avcodec_open :: "'l \<Rightarrow> AVCodecContext \<Rightarrow> nat \<Rightarrow> int \<times> AVCodecContext \<times> 'l"
  avcodec_decode_video2 ::
    "'l \<Rightarrow> AVCodecContext \<Rightarrow> 'f \<Rightarrow> int \<Rightarrow> byte list \<Rightarrow> int \<times> int \<times> AVCodecContext \<times> 'f \<times> 'l"

record ('f, 'l) backend =
  vactx :: "'f VAContext"
  h264context :: "AVCodecContext option"
  av_lib :: 'l
  bheap :: heap

text \<open>
  How a piece of a thread ends: normally, by an exception that the handler of the thread's loop
  catches, or with the end of the process: an \<open>exit\<close>, a thrown value that is no
  \<^verbatim>\<open>std::exception\<close> and so reaches \<^verbatim>\<open>std::terminate\<close>, or undefined behaviour.
\<close>

datatype halt = ExitProcess int | Uncaught | BadMemory va_error | Fault c_fault

datatype 'a exec = Next 'a | Caught 'a va_error | Halt halt

section \<open>changeHandler\_thread\<close>

definition initial_rect :: clientRect where
  "initial_rect = \<lparr>cr_l = 0, cr_t = 0, cr_w = 1024, cr_h = 768\<rparr>"

definition start_change :: "('f, 'l) backend \<Rightarrow> ('f, 'l) backend" where
  "start_change b = b\<lparr>vactx := (vactx b)\<lparr>client_rect := initial_rect\<rparr>\<rparr>"

text \<open>The four numbers of a message, in the order the thread reads them.\<close>

definition read_rect :: "MessageReader \<Rightarrow> va_error + clientRect" where
  "read_rect mr =
     bindR (readInt32 mr) (\<lambda>(left, mr1).
     bindR (readInt32 mr1) (\<lambda>(width, mr2).
     bindR (readInt32 mr2) (\<lambda>(top, mr3).
     bindR (readInt32 mr3) (\<lambda>(height, mr4).
       Inr \<lparr>cr_l = sint left, cr_t = sint top, cr_w = sint width, cr_h = sint height\<rparr>))))"

text \<open>
  The scope of a message ends with its destructor, also when an exception leaves it; \<open>Halt\<close>
  when the destructor touches freed memory.
\<close>

definition leave_scope :: "heap \<Rightarrow> Message list \<Rightarrow> va_error + heap" where
  "leave_scope h ms = fold (\<lambda>m r. bindR r (\<lambda>h. Message_destroy h m)) ms (Inr h)"

definition finish :: "('f, 'l) backend \<Rightarrow> heap \<Rightarrow> Message list \<Rightarrow> va_error option \<Rightarrow> ('f, 'l) backend exec" where
  "finish b h ms exc =
     (case leave_scope h ms of
        Inl e \<Rightarrow> Halt (BadMemory e)
      | Inr h' \<Rightarrow> (case exc of None \<Rightarrow> Next (b\<lparr>bheap := h'\<rparr>) | Some e \<Rightarrow> Caught (b\<lparr>bheap := h'\<rparr>) e))"

definition change_message :: "('f, 'l) backend \<Rightarrow> Message \<Rightarrow> ('f, 'l) backend exec" where
  "change_message b m =
     (if msg_header m \<noteq> 7 then finish b (bheap b) [m] None
      else case MessageReader_new (bheap b) m of
             Inl e \<Rightarrow> Halt (BadMemory e)
           | Inr (h, mr) \<Rightarrow>
               (case read_rect mr of
                  Inl e \<Rightarrow> if is_exception e then finish b h [rd_message mr, m] (Some e) else Halt (BadMemory e)
                | Inr cr \<Rightarrow>
                    let locked = (vactx b)\<lparr>mutex_held := True\<rparr>;
                        moved = locked\<lparr>client_rect := cr\<rparr>
                    in finish (b\<lparr>vactx := moved\<lparr>mutex_held := False\<rparr>\<rparr>) h [rd_message mr, m] None))"

text \<open>One turn of the inner loop: read a message from the connection and handle it.\<close>

definition on_message ::
  "'c IConnection \<Rightarrow> (('f, 'l) backend \<Rightarrow> Message \<Rightarrow> ('f, 'l) backend exec) \<Rightarrow> 'c \<Rightarrow> ('f, 'l) backend \<Rightarrow>
   ('f, 'l) backend exec \<times> 'c" where
  "on_message conn handler c b =
     (case readMessage conn c (bheap b) of
        (Inl e, c', h) \<Rightarrow> (if is_exception e then Caught (b\<lparr>bheap := h\<rparr>) e else Halt (BadMemory e), c')
      | (Inr m, c', h) \<Rightarrow> (handler (b\<lparr>bheap := h\<rparr>) m, c'))"

definition change_turn :: "'c IConnection \<Rightarrow> 'c \<Rightarrow> ('f, 'l) backend \<Rightarrow> ('f, 'l) backend exec \<times> 'c" where
  "change_turn conn = on_message conn change_message"

section \<open>Opening a codec\<close>

fun last_video :: "nat \<Rightarrow> avstream list \<Rightarrow> int \<Rightarrow> int" where
  "last_video pCount [] videoStream = videoStream"
| "last_video pCount (s # ss) videoStream =
     last_video (Suc pCount) ss (if is_video s then int pCount else videoStream)"

definition h264init :: "('f, 'l) ffmpeg \<Rightarrow> ('f, 'l) backend \<Rightarrow> halt + ('f, 'l) backend" where
  "h264init lib b =
     (let (r, l1) = av_open_input_file lib (av_lib b)
      in if r \<noteq> 0 then Inl (ExitProcess 1)
         else let (q, l2) = av_find_stream_info lib l1
              in if q < 0 then Inl (ExitProcess 1)
                 else let videoStream = last_video 0 (av_streams lib l2) (-1)
                      in if videoStream = -1 then Inl (ExitProcess 1)
                         else Inr (b\<lparr>av_lib := l2,
                                h264context := Some (stream_codec (av_streams lib l2 ! nat videoStream))\<rparr>))"

definition codec_of :: "int \<Rightarrow> CodecID option" where
  "codec_of i =
     (if i = 5 then Some CODEC_ID_H264 else if i = 8 then Some CODEC_ID_MPEG4
      else if i = 7 then Some CODEC_ID_MPEG2VIDEO else None)"

definition set_avctx :: "('f, 'l) backend \<Rightarrow> AVCodecContext option \<Rightarrow> ('f, 'l) backend" where
  "set_avctx b a = b\<lparr>vactx := (vactx b)\<lparr>avctx := a\<rparr>\<rparr>"

text \<open>The two halves of \<open>codec_init\<close>: replace the context, then open the codec on it.\<close>

definition new_avctx :: "('f, 'l) ffmpeg \<Rightarrow> ('f, 'l) backend \<Rightarrow> CodecID \<Rightarrow> halt + ('f, 'l) backend" where
  "new_avctx lib b cid =
     (let b1 = (if avctx (vactx b) \<noteq> None then set_avctx b None else b)
      in if cid = CODEC_ID_H264
         then bindR (h264init lib b1) (\<lambda>b2. Inr (set_avctx b2 (h264context b2)))
         else let (a, l) = avcodec_alloc_context lib (av_lib b1)
              in Inr (set_avctx (b1\<lparr>av_lib := l\<rparr>) a))"

definition open_avctx :: "('f, 'l) ffmpeg \<Rightarrow> nat \<Rightarrow> ('f, 'l) backend \<Rightarrow> halt + ('f, 'l) backend" where
  "open_avctx lib codec b =
     (case avctx (vactx b) of
        None \<Rightarrow> Inl (Fault NullPointer)
      | Some a \<Rightarrow>
          let (r, a', l) = avcodec_open lib (av_lib b) a codec
          in if r < 0 then Inl Uncaught else Inr (set_avctx (b\<lparr>av_lib := l\<rparr>) (Some a')))"

definition codec_init :: "('f, 'l) ffmpeg \<Rightarrow> ('f, 'l) backend \<Rightarrow> int \<Rightarrow> halt + ('f, 'l) backend" where
  "codec_init lib b i =
     (case codec_of i of
        None \<Rightarrow> Inl Uncaught
      | Some cid \<Rightarrow>
          (case avcodec_find_decoder lib (av_lib b) cid of
             None \<Rightarrow> Inl Uncaught
           | Some codec \<Rightarrow> bindR (new_avctx lib b cid) (open_avctx lib codec)))"

section \<open>decode\_thread\<close>

definition lock_ctx :: "('f, 'l) backend \<Rightarrow> bool \<Rightarrow> ('f, 'l) backend" where
  "lock_ctx b held = b\<lparr>vactx := (vactx b)\<lparr>mutex_held := held\<rparr>\<rparr>"

definition load_int :: "buffer \<Rightarrow> va_error + int" where
  "load_int content = bindR (liftM (buf_load content 0 4)) (\<lambda>bs. Inr (sint (le_word bs :: u32)))"

text \<open>
  The decoder reads the packet from the fifth byte of the content, as many bytes as the first
  four say; the length of the message is not consulted.
\<close>

definition decode_frame :: "('f, 'l) ffmpeg \<Rightarrow> ('f, 'l) backend \<Rightarrow> int \<Rightarrow> byte list \<Rightarrow> halt + ('f, 'l) backend" where
  "decode_frame lib b sz data =
     (case avctx (vactx b) of
        None \<Rightarrow> Inl (Fault NullPointer)
      | Some a \<Rightarrow>
          let (len, got, a', f', l) = avcodec_decode_video2 lib (av_lib b) a (va_frame (vactx b)) sz data;
              ctx = (vactx b)\<lparr>avctx := Some a', va_frame := f'\<rparr>;
              b1 = b\<lparr>av_lib := l, vactx := ctx\<rparr>
          in if len < 0 then Inr b1
             else if got \<noteq> 0 then Inr (b1\<lparr>vactx := ctx\<lparr>playing := 1, needDraw := 1\<rparr>\<rparr>)
             else Inr b1)"

definition decode_message :: "('f, 'l) ffmpeg \<Rightarrow> ('f, 'l) backend \<Rightarrow> Message \<Rightarrow> ('f, 'l) backend exec" where
  "decode_message lib b m =
     (if msg_header m = 1
      then (case bindR (Message_getContentPtr (bheap b) m) load_int of
              Inl e \<Rightarrow> Halt (BadMemory e)
            | Inr cid \<Rightarrow>
                (case codec_init lib (lock_ctx b True) cid of
                   Inl stop \<Rightarrow> Halt stop
                 | Inr b1 \<Rightarrow> finish (lock_ctx b1 False) (bheap b1) [m] None))
      else if msg_header m \<noteq> 4 then finish b (bheap b) [m] None
      else (case bindR (Message_getContentPtr (bheap b) m)
                   (\<lambda>content. bindR (load_int content)
                     (\<lambda>sz. bindR (liftM (buf_load content 4 (nat sz))) (\<lambda>data. Inr (sz, data)))) of
              Inl e \<Rightarrow> Halt (BadMemory e)
            | Inr (sz, data) \<Rightarrow>
                (case decode_frame lib (lock_ctx b True) sz data of
                   Inl stop \<Rightarrow> Halt stop
                 | Inr b1 \<Rightarrow> finish (lock_ctx b1 False) (bheap b1) [m] None)))"

text \<open>The handler of the outer loop stops the playback.\<close>

definition stop_playing :: "('f, 'l) backend exec \<Rightarrow> ('f, 'l) backend exec" where
  "stop_playing x =
     (case x of Caught b e \<Rightarrow> Caught (b\<lparr>vactx := (vactx b)\<lparr>playing := 0\<rparr>\<rparr>) e | _ \<Rightarrow> x)"

definition decode_turn ::
  "('f, 'l) ffmpeg \<Rightarrow> 'c IConnection \<Rightarrow> 'c \<Rightarrow> ('f, 'l) backend \<Rightarrow> ('f, 'l) backend exec \<times> 'c" where
  "decode_turn lib conn c b =
     (case on_message conn (decode_message lib) c b of (x, c') \<Rightarrow> (stop_playing x, c'))"

section \<open>va\_init\<close>

definition va_init :: "'f \<Rightarrow> 'l \<Rightarrow> heap \<Rightarrow> ('f, 'l) backend" where
  "va_init new_frame l h =
     \<lparr>vactx = \<lparr>mutex_held = False, avctx = None, va_frame = new_frame,
        client_rect = \<lparr>cr_l = 0, cr_t = 0, cr_w = 0, cr_h = 0\<rparr>, needDraw = 0, playing = 0\<rparr>,
      h264context = None, av_lib = l, bheap = h\<rparr>"

definition va_getContext :: "('f, 'l) backend option \<Rightarrow> 'f VAContext option" where
  "va_getContext b = map_option vactx b"

section \<open>The running system\<close>

text \<open>
  The two threads and the drawing routine of the emulator take turns.  A turn of a thread is one
  message; what it does to the shared context happens under the mutex.  A connection is
  accepted when the thread has none and dropped when an exception leaves the inner loop.
\<close>

record ('f, 'l, 'c) system =
  sys_b :: "('f, 'l) backend"
  sys_draw :: draw_state
  change_conn :: "'c option"
  decode_conn :: "'c option"

datatype 'c va_event =
    StartChange
  | AcceptChange 'c | ChangeTurn
  | AcceptDecode 'c | AcceptDecodeFails | DecodeTurn
  | Draw SDL_Surface int int

fun turn_result :: "('f, 'l) backend exec \<times> 'c \<Rightarrow> halt + ('f, 'l) backend \<times> 'c option" where
  "turn_result (Next b, c) = Inr (b, Some c)"
| "turn_result (Caught b e, c) = Inr (b, None)"
| "turn_result (Halt stop, c) = Inl stop"

fun va_exec ::
  "('f, 'l) ffmpeg \<Rightarrow> 'f media \<Rightarrow> 'c IConnection \<Rightarrow> 'c va_event \<Rightarrow> ('f, 'l, 'c) system \<Rightarrow> halt + ('f, 'l, 'c) system" where
  "va_exec lib sdl conn StartChange s = Inr (s\<lparr>sys_b := start_change (sys_b s)\<rparr>)"
| "va_exec lib sdl conn (AcceptChange c) s =
     Inr (if change_conn s = None then s\<lparr>change_conn := Some c\<rparr> else s)"
| "va_exec lib sdl conn ChangeTurn s =
     (case change_conn s of
        None \<Rightarrow> Inr s
      | Some c \<Rightarrow> bindR (turn_result (change_turn conn c (sys_b s)))
                    (\<lambda>(b, c'). Inr (s\<lparr>sys_b := b, change_conn := c'\<rparr>)))"
| "va_exec lib sdl conn (AcceptDecode c) s =
     Inr (if decode_conn s = None then s\<lparr>decode_conn := Some c\<rparr> else s)"
| "va_exec lib sdl conn AcceptDecodeFails s =
     Inr (if decode_conn s = None
          then s\<lparr>sys_b := (sys_b s)\<lparr>vactx := (vactx (sys_b s))\<lparr>playing := 0\<rparr>\<rparr>\<rparr> else s)"
| "va_exec lib sdl conn DecodeTurn s =
     (case decode_conn s of
        None \<Rightarrow> Inr s
      | Some c \<Rightarrow> bindR (turn_result (decode_turn lib conn c (sys_b s)))
                    (\<lambda>(b, c'). Inr (s\<lparr>sys_b := b, decode_conn := c'\<rparr>)))"
| "va_exec lib sdl conn (Draw screen width height) s =
     (case va_do_drawing sdl (va_getContext (Some (sys_b s))) (sys_draw s) screen width height of
        Inl f \<Rightarrow> Inl (Fault f)
      | Inr (ctx, d, evs) \<Rightarrow>
          Inr (s\<lparr>sys_b := (case ctx of None \<Rightarrow> sys_b s | Some c \<Rightarrow> (sys_b s)\<lparr>vactx := c\<rparr>), sys_draw := d\<rparr>))"

definition system_init :: "'f \<Rightarrow> 'l \<Rightarrow> ('f, 'l, 'c) system" where
  "system_init f l =
     \<lparr>sys_b = va_init f l \<lparr>refbufs = (\<lambda>_. None), next_ref = 0\<rparr>,
      sys_draw = \<lparr>overlay = None, last_screen = 0\<rparr>, change_conn = None, decode_conn = None\<rparr>"

inductive va_reachable ::
  "('f, 'l) ffmpeg \<Rightarrow> 'f media \<Rightarrow> 'c IConnection \<Rightarrow> ('f, 'l, 'c) system \<Rightarrow> bool"
  for lib sdl conn where
  Init: "va_reachable lib sdl conn (system_init f l)"
| Step: "va_reachable lib sdl conn s \<Longrightarrow> va_exec lib sdl conn ev s = Inr s' \<Longrightarrow> va_reachable lib sdl conn s'"

text \<open>Between turns the mutex is free, no message is alive, and a frame is only announced once a
  codec context exists.\<close>

definition backend_inv :: "('f, 'l) backend \<Rightarrow> bool" where
  "backend_inv b \<longleftrightarrow> \<not> mutex_held (vactx b) \<and> refbufs (bheap b) = (\<lambda>_. None) \<and>
     (playing (vactx b) \<noteq> 0 \<or> needDraw (vactx b) \<noteq> 0 \<longrightarrow> avctx (vactx b) \<noteq> None)"

section \<open>The invariant\<close>

definition holds_one :: "heap \<Rightarrow> Message \<Rightarrow> buffer \<Rightarrow> bool" where
  "holds_one h m buf \<longleftrightarrow> refbufs h = [msg_content m \<mapsto> \<lparr>rb_content = buf, refcount = 1\<rparr>]"

lemma readMessage_heap:
  assumes "refbufs h = (\<lambda>_. None)" and "readMessage conn c h = (r, c', h')"
  shows "(\<exists>e. r = Inl e \<and> h' = h) \<or> (\<exists>m buf. r = Inr m \<and> holds_one h' m buf)"
  using assms
  by (auto simp: readMessage_def Let_def Message_new_def Refbuf_new_def holds_one_def
      split: sum.splits prod.splits if_splits)

lemma leave_scope_one:
  assumes "holds_one h m buf"
  shows "leave_scope h [m] = Inr (h\<lparr>refbufs := (\<lambda>_. None)\<rparr>)"
proof -
  have "(refbufs h)(msg_content m := None) = (\<lambda>_. None)"
    using assms by (auto simp: holds_one_def)
  with assms show ?thesis
    by (simp add: leave_scope_def Message_destroy_def Refbuf_dec_def holds_one_def)
qed

text \<open>With a reader on the message, its block is held twice.\<close>

lemma MessageReader_one:
  assumes "holds_one h m buf"
  shows "\<exists>h1. MessageReader_new h m = Inr (h1, \<lparr>rd_message = m, rd_content = buf, seek_pos = 0\<rparr>) \<and>
    leave_scope h1 [m, m] = Inr (h\<lparr>refbufs := (\<lambda>_. None)\<rparr>)"
proof -
  let ?two = "\<lparr>rb_content = buf, refcount = 2\<rparr>" and ?one = "\<lparr>rb_content = buf, refcount = 1\<rparr>"
  let ?h1 = "h\<lparr>refbufs := [msg_content m \<mapsto> ?two]\<rparr>" and ?h2 = "h\<lparr>refbufs := [msg_content m \<mapsto> ?one]\<rparr>"
  have "MessageReader_new h m = Inr (?h1, \<lparr>rd_message = m, rd_content = buf, seek_pos = 0\<rparr>)"
    using assms by (simp add: MessageReader_new_def Message_copy_def Refbuf_inc_def Message_getContentPtr_def
        Refbuf_getContentPtr_def holds_one_def)
  moreover have "leave_scope ?h1 [m, m] = leave_scope ?h2 [m]"
    by (simp add: leave_scope_def Message_destroy_def Refbuf_dec_def)
  moreover have "leave_scope ?h2 [m] = Inr (h\<lparr>refbufs := (\<lambda>_. None)\<rparr>)"
    using leave_scope_one [of ?h2 m buf] by (simp add: holds_one_def)
  ultimately show ?thesis by auto
qed

text \<open>What a turn may leave behind.\<close>

fun exec_inv :: "('f, 'l) backend exec \<Rightarrow> bool" where
  "exec_inv (Next b) = backend_inv b"
| "exec_inv (Caught b e) = backend_inv b"
| "exec_inv (Halt stop) = True"

lemma finish_inv:
  assumes "leave_scope h ms = Inr h'" and "backend_inv (b\<lparr>bheap := h'\<rparr>)"
  shows "exec_inv (finish b h ms exc)"
  using assms by (simp add: finish_def split: option.splits)

definition ctx_inv :: "'f VAContext \<Rightarrow> bool" where
  "ctx_inv ctx \<longleftrightarrow> \<not> mutex_held ctx \<and> (playing ctx \<noteq> 0 \<or> needDraw ctx \<noteq> 0 \<longrightarrow> avctx ctx \<noteq> None)"

lemma backend_inv_ctx: "backend_inv b \<longleftrightarrow> ctx_inv (vactx b) \<and> refbufs (bheap b) = (\<lambda>_. None)"
  by (auto simp: backend_inv_def ctx_inv_def)

lemma finish_one_inv:
  assumes "holds_one h m buf" and "ctx_inv (vactx b)"
  shows "exec_inv (finish b h [m] exc)"
  using finish_inv [OF leave_scope_one [OF assms(1)]] assms(2) by (simp add: backend_inv_ctx)

lemma change_message_inv:
  assumes "holds_one (bheap b) m buf" and "ctx_inv (vactx b)"
  shows "exec_inv (change_message b m)"
proof (cases "msg_header m = 7")
  case True
  obtain h1 where h1: "MessageReader_new (bheap b) m = Inr (h1, \<lparr>rd_message = m, rd_content = buf, seek_pos = 0\<rparr>)"
    "leave_scope h1 [m, m] = Inr ((bheap b)\<lparr>refbufs := (\<lambda>_. None)\<rparr>)"
    using MessageReader_one [OF assms(1)] by blast
  have "exec_inv (finish b' h1 [m, m] exc)" if "ctx_inv (vactx b')" for b' :: "('a, 'b) backend" and exc
    using finish_inv [OF h1(2)] that by (simp add: backend_inv_ctx)
  then show ?thesis using True h1(1) assms(2)
    by (auto simp: change_message_def Let_def ctx_inv_def split: sum.splits)
next
  case False
  then show ?thesis using finish_one_inv [OF assms] by (simp add: change_message_def)
qed

text \<open>Opening a codec keeps the heap and the lock and leaves a context.\<close>

lemma h264init_keeps:
  "h264init lib b = Inr b' \<Longrightarrow> bheap b' = bheap b \<and> vactx b' = vactx b \<and> h264context b' \<noteq> None"
  by (auto simp: h264init_def Let_def split: if_splits prod.splits)

lemma set_avctx_fields [simp]:
  "bheap (set_avctx b a) = bheap b" "vactx (set_avctx b a) = (vactx b)\<lparr>avctx := a\<rparr>"
  "av_lib (set_avctx b a) = av_lib b" "h264context (set_avctx b a) = h264context b"
  by (simp_all add: set_avctx_def)

lemma new_avctx_keeps:
  "new_avctx lib b cid = Inr b' \<Longrightarrow> bheap b' = bheap b \<and> (\<exists>a. vactx b' = (vactx b)\<lparr>avctx := a\<rparr>)"
  by (cases "avcodec_alloc_context lib (av_lib (if avctx (vactx b) \<noteq> None then set_avctx b None else b))")
    (auto simp: new_avctx_def Let_def bindR_Inr_iff split: if_splits dest!: h264init_keeps)

lemma open_avctx_keeps:
  "open_avctx lib codec b = Inr b' \<Longrightarrow> bheap b' = bheap b \<and> (\<exists>a. vactx b' = (vactx b)\<lparr>avctx := Some a\<rparr>)"
  by (auto simp: open_avctx_def Let_def split: option.splits if_splits prod.splits)

lemma codec_init_keeps:
  assumes "codec_init lib b i = Inr b'"
  shows "bheap b' = bheap b \<and> (\<exists>a. vactx b' = (vactx b)\<lparr>avctx := Some a\<rparr>)"
  using assms
  by (fastforce simp: codec_init_def bindR_Inr_iff split: option.splits dest: new_avctx_keeps open_avctx_keeps)

lemma decode_frame_keeps:
  assumes "decode_frame lib b sz data = Inr b'"
  shows "bheap b' = bheap b \<and> mutex_held (vactx b') = mutex_held (vactx b) \<and> avctx (vactx b') \<noteq> None"
  using assms by (auto simp: decode_frame_def Let_def split: option.splits if_splits prod.splits)

lemma lock_ctx_fields [simp]:
  "bheap (lock_ctx b x) = bheap b" "vactx (lock_ctx b x) = (vactx b)\<lparr>mutex_held := x\<rparr>"
  by (simp_all add: lock_ctx_def)

lemma decode_message_inv:
  assumes "holds_one (bheap b) m buf" and "ctx_inv (vactx b)"
  shows "exec_inv (decode_message lib b m)"
proof -
  have fin: "exec_inv (finish (lock_ctx b1 False) (bheap b1) [m] None)"
    if "bheap b1 = bheap b" "avctx (vactx b1) \<noteq> None" for b1
    using finish_one_inv [of "bheap b1" m buf "lock_ctx b1 False"] assms(1) that
    by (simp add: ctx_inv_def)
  show ?thesis
  proof (cases "msg_header m = 1")
    case True
    have "exec_inv (finish (lock_ctx b1 False) (bheap b1) [m] None)" if "codec_init lib (lock_ctx b True) i = Inr b1" for i b1
      using codec_init_keeps [OF that] by (intro fin) auto
    with True show ?thesis by (simp add: decode_message_def split: sum.split)
  next
    case False
    have "exec_inv (finish (lock_ctx b1 False) (bheap b1) [m] None)" if "decode_frame lib (lock_ctx b True) sz data = Inr b1"
      for sz data b1
      using decode_frame_keeps [OF that] by (intro fin) auto
    with False finish_one_inv [OF assms] show ?thesis by (simp add: decode_message_def split: sum.split)
  qed
qed

lemma on_message_inv:
  assumes "backend_inv b"
    and "\<And>b m buf. holds_one (bheap b) m buf \<Longrightarrow> ctx_inv (vactx b) \<Longrightarrow> exec_inv (handler b m)"
    and "on_message conn handler c b = (x, c')"
  shows "exec_inv x"
proof -
  obtain r c1 h where rd: "readMessage conn c (bheap b) = (r, c1, h)"
    by (cases "readMessage conn c (bheap b)")
  from assms(1) have inv: "refbufs (bheap b) = (\<lambda>_. None)" "ctx_inv (vactx b)"
    by (simp_all add: backend_inv_ctx)
  from readMessage_heap [OF inv(1) rd] show ?thesis
  proof (elim disjE exE conjE)
    fix e assume "r = Inl e" "h = bheap b"
    then show ?thesis using assms(1,3) rd by (auto simp: on_message_def split: if_splits)
  next
    fix m buf assume "r = Inr m" "holds_one h m buf"
    then show ?thesis using assms(2) [of "b\<lparr>bheap := h\<rparr>" m buf] inv(2) assms(3) rd
      by (auto simp: on_message_def)
  qed
qed

lemma stop_playing_inv: "exec_inv x \<Longrightarrow> exec_inv (stop_playing x)"
  by (cases x) (auto simp: stop_playing_def backend_inv_def)

lemma turn_inv:
  assumes "turn_result (x, c) = Inr (b, c')" and "exec_inv x"
  shows "backend_inv b"
  using assms by (cases x) auto

lemma drawing_keeps:
  assumes "va_do_drawing_locked sdl ctx st screen width height = Inr (ctx', st', evs)"
  shows "\<exists>n. ctx' = ctx\<lparr>mutex_held := False, needDraw := n\<rparr> \<and> (n = needDraw ctx \<or> n = 0)"
  using drawing_effects [OF assms] by blast

lemma drawing_inv:
  assumes "ctx_inv ctx" and "va_do_drawing_locked sdl ctx st screen width height = Inr (ctx', st', evs)"
  shows "ctx_inv ctx'"
  using drawing_keeps [OF assms(2)] assms(1) by (auto simp: ctx_inv_def)

lemma va_exec_inv:
  assumes "backend_inv (sys_b s)" and "va_exec lib sdl conn ev s = Inr s'"
  shows "backend_inv (sys_b s')"
proof (cases ev)
  case ChangeTurn
  show ?thesis
  proof (cases "change_conn s")
    case (Some c)
    obtain x c' where x: "change_turn conn c (sys_b s) = (x, c')" by (cases "change_turn conn c (sys_b s)")
    then have "exec_inv x"
      unfolding change_turn_def by (intro on_message_inv [OF assms(1) change_message_inv])
    with x Some assms(2) ChangeTurn show ?thesis by (auto simp: bindR_Inr_iff dest: turn_inv)
  qed (use assms ChangeTurn in simp)
next
  case DecodeTurn
  show ?thesis
  proof (cases "decode_conn s")
    case (Some c)
    obtain x c' where x: "on_message conn (decode_message lib) c (sys_b s) = (x, c')"
      by (cases "on_message conn (decode_message lib) c (sys_b s)")
    then have "exec_inv (stop_playing x)"
      by (intro stop_playing_inv on_message_inv [OF assms(1) decode_message_inv])
    with x Some assms(2) DecodeTurn show ?thesis by (auto simp: decode_turn_def bindR_Inr_iff dest: turn_inv)
  qed (use assms DecodeTurn in simp)
next
  case (Draw screen width height)
  then show ?thesis using assms
    by (auto simp: va_do_drawing_def va_getContext_def bindR_Inr_iff backend_inv_ctx
        split: sum.splits option.splits prod.splits dest: drawing_inv)
qed (use assms in \<open>auto simp: start_change_def backend_inv_def split: if_splits\<close>)

lemma va_reachable_inv: "va_reachable lib sdl conn s \<Longrightarrow> backend_inv (sys_b s)"
proof (induction rule: va_reachable.induct)
  case (Init f l)
  then show ?case by (simp add: system_init_def va_init_def backend_inv_def)
next
  case (Step s ev s')
  then show ?case by (blast intro: va_exec_inv)
qed

lemma fit_window_not_null: "fit_window videow videoh cr \<noteq> Inl NullPointer"
  unfolding fit_window_def Let_def by (intro bindR_not_Inl c_ops_not_null impI conjI | simp)+

lemma calcScale_not_null: "calcScale av cr screen w h \<noteq> Inl NullPointer"
  unfolding calcScale_def scale_coord_def split_beta
  by (intro bindR_not_Inl c_ops_not_null fit_window_not_null | simp)+

lemma drawing_not_null:
  assumes "ctx_inv ctx"
  shows "va_do_drawing_locked sdl ctx st screen width height \<noteq> Inl NullPointer"
proof (cases "playing ctx \<noteq> 0 \<and> needDraw ctx \<noteq> 0")
  case True
  then obtain av where "avctx ctx = Some av" using assms by (auto simp: ctx_inv_def)
  with True show ?thesis
    unfolding va_do_drawing_locked_def Let_def split_beta
    by (simp, intro bindR_not_Inl calcScale_not_null impI) (auto simp: bindR_Inl_iff split: option.splits if_splits)
next
  case False
  then show ?thesis by (auto simp: va_do_drawing_locked_def Let_def split: prod.splits)
qed

text \<open>A sequence of turns.\<close>

fun va_run ::
  "('f, 'l) ffmpeg \<Rightarrow> 'f media \<Rightarrow> 'c IConnection \<Rightarrow> 'c va_event list \<Rightarrow> ('f, 'l, 'c) system \<Rightarrow> halt + ('f, 'l, 'c) system" where
  "va_run lib sdl conn [] s = Inr s"
| "va_run lib sdl conn (ev # evs) s = bindR (va_exec lib sdl conn ev s) (va_run lib sdl conn evs)"

lemma va_run_reachable:
  "va_reachable lib sdl conn s \<Longrightarrow> va_run lib sdl conn evs s = Inr s' \<Longrightarrow> va_reachable lib sdl conn s'"
proof (induction evs arbitrary: s)
  case (Cons ev evs)
  then show ?case by (auto simp: bindR_Inr_iff intro: va_reachable.Step)
qed simp


text \<open>A connection with a given input, and a decoder that accepts everything.\<close>

definition list_conn :: "byte list IConnection" where
  "list_conn =
     \<lparr>ic_send = (\<lambda>c _. (Inr (), c)),
      ic_receive = (\<lambda>c n. if n \<le> length c then (Inr (take n c), drop n c) else (Inl (ConnectionException ''closed''), [])),
      ic_flush = (\<lambda>c. c), ic_delete = (\<lambda>c. c)\<rparr>"

definition ex_lib :: "(unit, unit) ffmpeg" where
  "ex_lib =
     \<lparr>avcodec_find_decoder = (\<lambda>_ _. Some 1), av_open_input_file = (\<lambda>_. (0, ())),
      av_find_stream_info = (\<lambda>_. (0, ())), av_streams = (\<lambda>_. [\<lparr>is_video = True, stream_codec = ex_av\<rparr>]),
      avcodec_alloc_context = (\<lambda>_. (Some \<lparr>av_width = 0, av_height = 0, av_pix_fmt = 0\<rparr>, ())),
      avcodec_open = (\<lambda>_ a _. (0, a, ())),
      avcodec_decode_video2 = (\<lambda>_ a _ sz _. (sz, 1, ex_av, (), ()))\<rparr>"

definition ex_stream :: "byte list" where
  "ex_stream = [1,0,0,0, 4,0,0,0, 5,0,0,0,  4,0,0,0, 6,0,0,0, 2,0,0,0, 10,11]"

definition ex_events :: "byte list va_event list" where
  "ex_events = [StartChange, AcceptDecode ex_stream, DecodeTurn, DecodeTurn]"

lemma ex_run:
  "case va_run ex_lib ex_media list_conn ex_events (system_init () ()) of
     Inl _ \<Rightarrow> False | Inr s \<Rightarrow> playing (vactx (sys_b s)) = 1 \<and> avctx (vactx (sys_b s)) = Some ex_av"
  by code_simp


section \<open>What the messages do\<close>

lemma unat_4 [simp]: "unat (4 :: u32) = 4"
  by simp

lemma readInt32_at:
  assumes "rd_rep r bs" and "unat (seek_pos r) = p" and "p + 4 \<le> length bs"
  shows "readInt32 r = Inr (le_word (take 4 (drop p bs)), r\<lparr>seek_pos := seek_pos r + 4\<rparr>)"
    and "unat (seek_pos r + 4) = p + 4"
proof -
  have fits: "unat (seek_pos r) + unat (4 :: u32) \<le> length bs" using assms(2,3) by simp
  show "readInt32 r = Inr (le_word (take 4 (drop p bs)), r\<lparr>seek_pos := seek_pos r + 4\<rparr>)"
    using assureSize_ok [OF assms(1) fits] take_raw_rep [OF assms(1) fits] assms(2)
    by (simp add: readInt32_def read_scalar_def)
  show "unat (seek_pos r + 4) = p + 4"
    using unat_plus_u32 [of "seek_pos r" 4] rd_rep_bound [OF assms(1)] assms(2,3) by simp
qed

lemma readInt32_short:
  assumes "rd_rep r bs" and "unat (seek_pos r) = p" and "p < 16" and "length bs < p + 4"
  shows "readInt32 r = Inl (ReaderException ''Not enough data to read.'')"
  using assureSize_short [OF assms(1), of 4] assms(2-4) by (simp add: readInt32_def read_scalar_def)

definition rect_of :: "byte list \<Rightarrow> clientRect" where
  "rect_of bs =
     \<lparr>cr_l = sint (le_word (take 4 bs) :: u32), cr_t = sint (le_word (take 4 (drop 8 bs)) :: u32),
      cr_w = sint (le_word (take 4 (drop 4 bs)) :: u32), cr_h = sint (le_word (take 4 (drop 12 bs)) :: u32)\<rparr>"

lemma read_rect_eq:
  assumes rep: "rd_rep r bs" and "seek_pos r = 0"
  shows "read_rect r =
    (if 16 \<le> length bs then Inr (rect_of bs) else Inl (ReaderException ''Not enough data to read.''))"
proof -
  note at = readInt32_at and short = readInt32_short
  let ?r = "\<lambda>n. r\<lparr>seek_pos := n\<rparr>"
  have 0: "unat (seek_pos r) = 0" using assms(2) by simp
  consider "16 \<le> length bs" | "12 \<le> length bs" "length bs < 16" | "8 \<le> length bs" "length bs < 12"
    | "4 \<le> length bs" "length bs < 8" | "length bs < 4" by linarith
  then show ?thesis
    by cases (use at(1) [OF rep 0] at(1) [of "?r 4" bs 4] at(1) [of "?r 8" bs 8] at(1) [of "?r 12" bs 12]
      short [OF rep 0] short [of "?r 4" bs 4] short [of "?r 8" bs 8] short [of "?r 12" bs 12] assms(2) rep
      in \<open>simp_all add: read_rect_def rect_of_def\<close>)
qed

lemma finish_eq: "leave_scope h ms = Inr h' \<Longrightarrow>
    finish b h ms exc = (case exc of None \<Rightarrow> Next (b\<lparr>bheap := h'\<rparr>) | Some e \<Rightarrow> Caught (b\<lparr>bheap := h'\<rparr>) e)"
  by (simp add: finish_def)

text \<open>
  C30. The window thread: a message with header 7 and at least 16 bytes sets the client
  rectangle to its numbers (left, width, top, height) and changes nothing else; a shorter one
  raises the reader's exception and changes nothing; other headers are ignored.  In every case
  the message is released.
\<close>

theorem change_message_spec:
  assumes "holds_one (bheap b) m buf" and "buf_holds buf bs" and "unat (msg_length m) = length bs"
  defines "released \<equiv> (bheap b)\<lparr>refbufs := (\<lambda>_. None)\<rparr>"
  shows "change_message b m =
    (if msg_header m \<noteq> 7 then Next (b\<lparr>bheap := released\<rparr>)
     else if 16 \<le> length bs
     then Next (b\<lparr>bheap := released, vactx := (vactx b)\<lparr>client_rect := rect_of bs, mutex_held := False\<rparr>\<rparr>)
     else Caught (b\<lparr>bheap := released\<rparr>) (ReaderException ''Not enough data to read.''))"
proof (cases "msg_header m = 7")
  case True
  let ?mr = "\<lparr>rd_message = m, rd_content = buf, seek_pos = 0\<rparr>"
  obtain h1 where h1: "MessageReader_new (bheap b) m = Inr (h1, ?mr)" "leave_scope h1 [m, m] = Inr released"
    using MessageReader_one [OF assms(1)] unfolding released_def by blast
  have "rd_rep ?mr bs" using assms(2,3) by (simp add: rd_rep_def)
  from read_rect_eq [OF this] True h1 show ?thesis
    by (cases "vactx b") (simp add: change_message_def Let_def finish_eq)
next
  case False
  then show ?thesis
    by (simp add: change_message_def released_def finish_eq [OF leave_scope_one [OF assms(1)]])
qed

definition ex_backend :: "buffer \<Rightarrow> (unit, unit) backend" where
  "ex_backend buf = va_init () () \<lparr>refbufs = [0 \<mapsto> \<lparr>rb_content = buf, refcount = 1\<rparr>], next_ref = 1\<rparr>"

definition ex_move :: "byte list" where
  "ex_move = [10,0,0,0, 128,2,0,0, 20,0,0,0, 224,1,0,0]"

theorem change_message_spec_witness:
  "\<exists>b. change_message (ex_backend (map Some ex_move)) \<lparr>msg_header = 7, msg_length = 16, msg_content = 0\<rparr> = Next b \<and>
     client_rect (vactx b) = \<lparr>cr_l = 10, cr_t = 20, cr_w = 640, cr_h = 480\<rparr>"
proof -
  have "rect_of ex_move = \<lparr>cr_l = 10, cr_t = 20, cr_w = 640, cr_h = 480\<rparr>" by code_simp
  with change_message_spec [of "ex_backend (map Some ex_move)" "\<lparr>msg_header = 7, msg_length = 16, msg_content = 0\<rparr>"
      "map Some ex_move" ex_move]
  show ?thesis
    by (simp add: ex_backend_def va_init_def holds_one_def buf_holds_def ex_move_def)
qed

text \<open>
  C31. The decoding thread on a well-formed frame: with a codec context in place and a content
  that holds the four bytes of the size and that many bytes more, exactly these bytes reach the
  decoder; the picture is announced iff the decoder reports one, the mutex is released and the
  message freed.
\<close>

theorem decode_message_frame:
  assumes "holds_one (bheap b) m (map Some (le_bytes 4 (sz :: u32) @ data @ rest))" and "msg_header m = 4"
    and "sint sz = int (length data)" and "avctx (vactx b) = Some a"
    and dec: "avcodec_decode_video2 lib (av_lib b) a (va_frame (vactx b)) (sint sz) data = (len, got, a', f', l)"
  shows "decode_message lib b m = Next (b\<lparr>bheap := (bheap b)\<lparr>refbufs := (\<lambda>_. None)\<rparr>, av_lib := l,
    vactx := (vactx b)\<lparr>avctx := Some a', va_frame := f',
      playing := (if 0 \<le> len \<and> got \<noteq> 0 then 1 else playing (vactx b)),
      needDraw := (if 0 \<le> len \<and> got \<noteq> 0 then 1 else needDraw (vactx b)), mutex_held := False\<rparr>\<rparr>)"
proof -
  let ?buf = "map Some (le_bytes 4 sz @ data @ rest)"
  have content: "Message_getContentPtr (bheap b) m = Inr ?buf"
    using assms(1) by (simp add: holds_one_def Message_getContentPtr_def Refbuf_getContentPtr_def)
  have holds: "buf_holds ?buf (le_bytes 4 sz @ data @ rest)" by (simp add: buf_holds_def)
  have loads: "buf_load ?buf 0 4 = Inr (le_bytes 4 sz)" "buf_load ?buf 4 (length data) = Inr data"
    using buf_holds_load [OF holds, of 0 4] buf_holds_load [OF holds, of 4 "length data"] by simp_all
  have "decode_frame lib (lock_ctx b True) (sint sz) data = Inr (b\<lparr>av_lib := l,
      vactx := (vactx b)\<lparr>mutex_held := True, avctx := Some a', va_frame := f',
        playing := (if 0 \<le> len \<and> got \<noteq> 0 then 1 else playing (vactx b)),
        needDraw := (if 0 \<le> len \<and> got \<noteq> 0 then 1 else needDraw (vactx b))\<rparr>\<rparr>)"
    using assms(4) dec by (cases "vactx b") (auto simp: decode_frame_def lock_ctx_def Let_def)
  then show ?thesis
    using content loads assms(2,3)
    by (cases "vactx b")
      (simp add: decode_message_def load_int_def lock_ctx_def finish_eq [OF leave_scope_one [OF assms(1)]])
qed

theorem decode_message_frame_witness:
  "\<exists>b. decode_message ex_lib (set_avctx (ex_backend (map Some (le_bytes 4 (2 :: u32) @ [10, 11]))) (Some ex_av))
     \<lparr>msg_header = 4, msg_length = 6, msg_content = 0\<rparr> = Next b \<and> playing (vactx b) = 1 \<and> needDraw (vactx b) = 1"
  using decode_message_frame [of "set_avctx (ex_backend (map Some (le_bytes 4 (2 :: u32) @ [10, 11]))) (Some ex_av)"
      "\<lparr>msg_header = 4, msg_length = 6, msg_content = 0\<rparr>" 2 "[10, 11]" "[]" ex_av ex_lib 2 1 ex_av "()" "()"]
  by (simp add: ex_backend_def va_init_def holds_one_def ex_lib_def)

text \<open>
  C32. The messages that end the emulator: the decoding thread trusts its peer.  A codec number
  other than 5, 7 and 8 ends in an exception nobody catches, a frame before the first codec
  message follows a null context, and a content shorter than its own size field says is read
  past its end.
\<close>

theorem decode_message_halts:
  assumes "holds_one (bheap b) m (map Some content)" and "4 \<le> length content"
    and "n = sint (le_word (take 4 content) :: u32)"
  shows "(msg_header m = 1 \<and> n \<noteq> 5 \<and> n \<noteq> 7 \<and> n \<noteq> 8 \<longrightarrow> decode_message lib b m = Halt Uncaught) \<and>
    (msg_header m = 4 \<and> n \<le> int (length content) - 4 \<and> avctx (vactx b) = None \<longrightarrow>
       decode_message lib b m = Halt (Fault NullPointer)) \<and>
    (msg_header m = 4 \<and> int (length content) - 4 < n \<longrightarrow>
       decode_message lib b m = Halt (BadMemory (MemFault OutOfBounds)))"
proof -
  have ptr: "Message_getContentPtr (bheap b) m = Inr (map Some content)"
    using assms(1) by (simp add: holds_one_def Message_getContentPtr_def Refbuf_getContentPtr_def)
  have holds: "buf_holds (map Some content) content" by (simp add: buf_holds_def)
  have n: "load_int (map Some content) = Inr n"
    using buf_holds_load [OF holds, of 0 4] assms(2,3) by (simp add: load_int_def)
  have "buf_load (map Some content) 4 (nat n) = Inl OutOfBounds" if "int (length content) - 4 < n"
    using that assms(2) by (simp add: buf_load_def)
  moreover have "buf_load (map Some content) 4 (nat n) = Inr (take (nat n) (drop 4 content))"
    if "n \<le> int (length content) - 4"
    using that assms(2) by (intro buf_holds_load [OF holds]) linarith
  ultimately show ?thesis using ptr n
    by (simp add: decode_message_def codec_init_def codec_of_def decode_frame_def)
qed

theorem decode_message_halts_witness:
  "decode_message ex_lib (ex_backend (map Some [6,0,0,0])) \<lparr>msg_header = 1, msg_length = 4, msg_content = 0\<rparr> = Halt Uncaught \<and>
   decode_message ex_lib (ex_backend (map Some [9,0,0,0,1])) \<lparr>msg_header = 4, msg_length = 5, msg_content = 0\<rparr>
     = Halt (BadMemory (MemFault OutOfBounds))"
proof -
  have "sint (le_word (take 4 [6,0,0,0]) :: u32) = 6" "sint (le_word (take 4 [9,0,0,0,1]) :: u32) = 9"
    by code_simp+
  then show ?thesis
    using decode_message_halts [of "ex_backend (map Some [6,0,0,0])" "\<lparr>msg_header = 1, msg_length = 4, msg_content = 0\<rparr>"
        "[6,0,0,0]" 6 ex_lib]
      decode_message_halts [of "ex_backend (map Some [9,0,0,0,1])" "\<lparr>msg_header = 4, msg_length = 5, msg_content = 0\<rparr>"
        "[9,0,0,0,1]" 9 ex_lib]
    by (simp add: ex_backend_def va_init_def holds_one_def)
qed

text \<open>
  C33. A new codec while a frame waits: \<open>codec_init\<close> replaces the codec context but leaves
  \<open>playing\<close> and \<open>needDraw\<close> alone.  A context fresh from \<open>avcodec_alloc_context\<close> has no picture
  size until the first frame is decoded; if the drawing routine runs in between, it divides by
  zero.
\<close>

theorem reinit_draw_faults:
  assumes "codec_init lib b i = Inr b'" and "avctx (vactx b') = Some a"
    and "av_width a = 0" "av_height a = 0" and "playing (vactx b) \<noteq> 0" "needDraw (vactx b) \<noteq> 0"
  shows "va_do_drawing sdl (va_getContext (Some b')) st screen width height = Inl DivByZero"
proof -
  have "playing (vactx b') \<noteq> 0" "needDraw (vactx b') \<noteq> 0"
    using codec_init_keeps [OF assms(1)] assms(5,6) by auto
  moreover have "calcScale a cr screen width height = Inl DivByZero" for cr
    using assms(3,4) by (simp add: calcScale_def fit_window_def Let_def c_mul_def c_int_def)
  ultimately show ?thesis using assms(2)
    by (simp add: va_do_drawing_def va_getContext_def va_do_drawing_locked_def Let_def)
qed

definition ex_waiting :: "(unit, unit) backend" where
  "ex_waiting = (let b = va_init () () \<lparr>refbufs = (\<lambda>_. None), next_ref = 0\<rparr> in b\<lparr>vactx := ex_ctx\<rparr>)"

theorem reinit_draw_faults_witness:
  "\<exists>b'. codec_init ex_lib ex_waiting 8 = Inr b' \<and>
     va_do_drawing ex_media (va_getContext (Some b')) \<lparr>overlay = None, last_screen = 0\<rparr> ex_screen 1024 768 = Inl DivByZero"
proof -
  have "\<exists>b'. codec_init ex_lib ex_waiting 8 = Inr b' \<and>
      avctx (vactx b') = Some \<lparr>av_width = 0, av_height = 0, av_pix_fmt = 0\<rparr>"
    by (simp add: codec_init_def codec_of_def new_avctx_def open_avctx_def ex_lib_def ex_waiting_def ex_ctx_def
        va_init_def set_avctx_def Let_def)
  then obtain b' where "codec_init ex_lib ex_waiting 8 = Inr b'"
    "avctx (vactx b') = Some \<lparr>av_width = 0, av_height = 0, av_pix_fmt = 0\<rparr>" by blast
  from reinit_draw_faults [OF this] this show ?thesis
    by (simp add: ex_waiting_def ex_ctx_def Let_def)
qed

end
