(* ===== verification/QemuFile.thy ===== *)
theory QemuFile
  imports VA_Prelude
begin

text \<open>
  Buffered files of the machine-state code, the first half of \<^verbatim>\<open>savevm.c\<close>: the buffer, its
  flush and refill, bytes, blocks and big-endian integers.  The functions behind a file are
  parameters; the ones over C streams (\<^verbatim>\<open>file_put_buffer\<close>, \<^verbatim>\<open>file_get_buffer\<close>) are modelled
  too.
\<close>

section \<open>QEMUFile\<close>

definition IO_BUF_SIZE :: nat where
  "IO_BUF_SIZE = 32768"

definition EAGAIN :: int where
  "EAGAIN = 11"

text \<open>
  A write function gets the block and its position and returns a length; a read function gets
  the position and the room and returns a length (negative on error) and the bytes it stored.
\<close>

record 'o QEMUFile =
  put_buffer_fn :: "('o \<Rightarrow> byte list \<Rightarrow> int \<Rightarrow> int \<times> 'o) option"
  get_buffer_fn :: "('o \<Rightarrow> int \<Rightarrow> nat \<Rightarrow> int \<times> byte list \<times> 'o) option"
  close_fn :: "('o \<Rightarrow> int \<times> 'o) option"
  opaque :: 'o
  is_write :: bool
  buf_offset :: int
  buf_index :: nat
  buf_size :: nat
  buf :: "byte list"
  has_error :: bool

text \<open>How a call may not return: it aborts, leaves the bounds of the buffer, loops forever, or calls
  through a null pointer.\<close>

datatype qf_error = Aborted | BufOverrun | Diverges | NullCall

definition qemu_fopen_ops ::
  "'o \<Rightarrow> ('o \<Rightarrow> byte list \<Rightarrow> int \<Rightarrow> int \<times> 'o) option \<Rightarrow> ('o \<Rightarrow> int \<Rightarrow> nat \<Rightarrow> int \<times> byte list \<times> 'o) option \<Rightarrow>
   ('o \<Rightarrow> int \<times> 'o) option \<Rightarrow> 'o QEMUFile" where
  "qemu_fopen_ops op put get cl =
     \<lparr>put_buffer_fn = put, get_buffer_fn = get, close_fn = cl, opaque = op, is_write = False,
      buf_offset = 0, buf_index = 0, buf_size = 0, buf = replicate IO_BUF_SIZE 0, has_error = False\<rparr>"

definition qemu_file_has_error :: "'o QEMUFile \<Rightarrow> bool" where
  "qemu_file_has_error f = has_error f"

definition qemu_file_set_error :: "'o QEMUFile \<Rightarrow> 'o QEMUFile" where
  "qemu_file_set_error f = f\<lparr>has_error := True\<rparr>"

definition qemu_fflush :: "'o QEMUFile \<Rightarrow> 'o QEMUFile" where
  "qemu_fflush f =
     (case put_buffer_fn f of
        None \<Rightarrow> f
      | Some put \<Rightarrow>
          if is_write f \<and> 0 < buf_index f
          then let (len, op) = put (opaque f) (take (buf_index f) (buf f)) (buf_offset f);
                   f1 = (if 0 < len then f\<lparr>opaque := op, buf_offset := buf_offset f + int (buf_index f)\<rparr>
                         else f\<lparr>opaque := op, has_error := True\<rparr>)
               in f1\<lparr>buf_index := 0\<rparr>
          else f)"

definition qemu_fill_buffer :: "'o QEMUFile \<Rightarrow> qf_error + 'o QEMUFile" where
  "qemu_fill_buffer f =
     (case get_buffer_fn f of
        None \<Rightarrow> Inr f
      | Some get \<Rightarrow>
          if is_write f then Inl Aborted
          else let (len, data, op) = get (opaque f) (buf_offset f) IO_BUF_SIZE;
                   f1 = f\<lparr>opaque := op, buf := data @ drop (length data) (buf f)\<rparr>
               in Inr (if 0 < len then f1\<lparr>buf_index := 0, buf_size := nat len, buf_offset := buf_offset f + len\<rparr>
                       else if len \<noteq> - EAGAIN then f1\<lparr>has_error := True\<rparr> else f1))"

definition qemu_fclose :: "'o QEMUFile \<Rightarrow> int \<times> 'o" where
  "qemu_fclose f =
     (let f1 = qemu_fflush f
      in case close_fn f1 of None \<Rightarrow> (0, opaque f1) | Some cl \<Rightarrow> cl (opaque f1))"

text \<open>
  The copying loop of \<open>qemu_put_buffer\<close>.  On a file without a write function the flush does not
  empty the buffer and the loop makes no progress once it is full.
\<close>

partial_function (option) put_loop :: "'o QEMUFile \<Rightarrow> byte list \<Rightarrow> 'o QEMUFile option" where
  [code]: "put_loop f bs =
     (if \<not> has_error f \<and> bs \<noteq> []
      then let l = min (IO_BUF_SIZE - buf_index f) (length bs);
               f1 = f\<lparr>buf := take (buf_index f) (buf f) @ take l bs @ drop (buf_index f + l) (buf f),
                      is_write := True, buf_index := buf_index f + l\<rparr>;
               f2 = (if IO_BUF_SIZE \<le> buf_index f1 then qemu_fflush f1 else f1)
           in put_loop f2 (drop l bs)
      else Some f)"

definition qemu_put_buffer :: "'o QEMUFile \<Rightarrow> byte list \<Rightarrow> qf_error + 'o QEMUFile" where
  "qemu_put_buffer f bs =
     (if \<not> has_error f \<and> \<not> is_write f \<and> 0 < buf_index f then Inl Aborted
      else case put_loop f bs of None \<Rightarrow> Inl Diverges | Some f' \<Rightarrow> Inr f')"

definition qemu_put_byte :: "'o QEMUFile \<Rightarrow> byte \<Rightarrow> qf_error + 'o QEMUFile" where
  "qemu_put_byte f v =
     (if \<not> has_error f \<and> \<not> is_write f \<and> 0 < buf_index f then Inl Aborted
      else if IO_BUF_SIZE \<le> buf_index f then Inl BufOverrun
      else let f1 = f\<lparr>buf := (buf f)[buf_index f := v], buf_index := Suc (buf_index f), is_write := True\<rparr>
           in Inr (if IO_BUF_SIZE \<le> buf_index f1 then qemu_fflush f1 else f1))"

text \<open>The copying loop of \<open>qemu_get_buffer\<close>; it returns the bytes it read.\<close>

function get_loop :: "'o QEMUFile \<Rightarrow> nat \<Rightarrow> qf_error + byte list \<times> 'o QEMUFile" where
  "get_loop f sz =
     (if sz = 0 then Inr ([], f)
      else if buf_size f < buf_index f then Inl BufOverrun
      else bindR (if buf_size f - buf_index f = 0 then qemu_fill_buffer f else Inr f) (\<lambda>f1.
           let l0 = buf_size f1 - buf_index f1
           in if l0 = 0 then Inr ([], f1)
              else let l = min l0 sz;
                       f2 = f1\<lparr>buf_index := buf_index f1 + l\<rparr>
                   in bindR (get_loop f2 (sz - l)) (\<lambda>(bs, f3).
                        Inr (take l (drop (buf_index f1) (buf f1)) @ bs, f3))))"
  by pat_completeness auto
termination
  by (relation "measure snd") auto

declare get_loop.simps [simp del]

definition qemu_get_buffer :: "'o QEMUFile \<Rightarrow> nat \<Rightarrow> qf_error + byte list \<times> 'o QEMUFile" where
  "qemu_get_buffer f size1 = (if is_write f then Inl Aborted else get_loop f size1)"

definition qemu_get_byte :: "'o QEMUFile \<Rightarrow> qf_error + byte \<times> 'o QEMUFile" where
  "qemu_get_byte f =
     (if is_write f then Inl Aborted
      else bindR (if buf_size f \<le> buf_index f then qemu_fill_buffer f else Inr f) (\<lambda>f1.
           if buf_size f1 \<le> buf_index f1 then Inr (0, f1)
           else if length (buf f1) \<le> buf_index f1 then Inl BufOverrun
           else Inr (buf f1 ! buf_index f1, f1\<lparr>buf_index := Suc (buf_index f1)\<rparr>)))"

definition qemu_ftell :: "'o QEMUFile \<Rightarrow> int" where
  "qemu_ftell f = buf_offset f - int (buf_size f) + int (buf_index f)"

datatype whence = SEEK_SET | SEEK_CUR | SEEK_END

definition qemu_fseek :: "'o QEMUFile \<Rightarrow> int \<Rightarrow> whence \<Rightarrow> int \<times> 'o QEMUFile" where
  "qemu_fseek f pos0 wh =
     (if wh = SEEK_END then (-1, f)
      else let pos = (if wh = SEEK_CUR then pos0 + qemu_ftell f else pos0)
           in (pos, if put_buffer_fn f \<noteq> None then (qemu_fflush f)\<lparr>buf_offset := pos\<rparr>
                    else f\<lparr>buf_offset := pos, buf_index := 0, buf_size := 0\<rparr>))"

section \<open>Big-endian integers\<close>

definition qemu_put_be16 :: "'o QEMUFile \<Rightarrow> u32 \<Rightarrow> qf_error + 'o QEMUFile" where
  "qemu_put_be16 f v =
     bindR (qemu_put_byte f (ucast (drop_bit 8 v))) (\<lambda>f1. qemu_put_byte f1 (ucast v))"

definition qemu_put_be32 :: "'o QEMUFile \<Rightarrow> u32 \<Rightarrow> qf_error + 'o QEMUFile" where
  "qemu_put_be32 f v =
     bindR (qemu_put_byte f (ucast (drop_bit 24 v))) (\<lambda>f1.
     bindR (qemu_put_byte f1 (ucast (drop_bit 16 v))) (\<lambda>f2.
     bindR (qemu_put_byte f2 (ucast (drop_bit 8 v))) (\<lambda>f3.
     qemu_put_byte f3 (ucast v))))"

definition qemu_put_be64 :: "'o QEMUFile \<Rightarrow> u64 \<Rightarrow> qf_error + 'o QEMUFile" where
  "qemu_put_be64 f v =
     bindR (qemu_put_be32 f (ucast (drop_bit 32 v))) (\<lambda>f1. qemu_put_be32 f1 (ucast v))"

definition qemu_get_be16 :: "'o QEMUFile \<Rightarrow> qf_error + u32 \<times> 'o QEMUFile" where
  "qemu_get_be16 f =
     bindR (qemu_get_byte f) (\<lambda>(b1, f1).
     bindR (qemu_get_byte f1) (\<lambda>(b0, f2).
       Inr (push_bit 8 (ucast b1) OR ucast b0, f2)))"

definition qemu_get_be32 :: "'o QEMUFile \<Rightarrow> qf_error + u32 \<times> 'o QEMUFile" where
  "qemu_get_be32 f =
     bindR (qemu_get_byte f) (\<lambda>(b3, f1).
     bindR (qemu_get_byte f1) (\<lambda>(b2, f2).
     bindR (qemu_get_byte f2) (\<lambda>(b1, f3).
     bindR (qemu_get_byte f3) (\<lambda>(b0, f4).
       Inr (push_bit 24 (ucast b3) OR push_bit 16 (ucast b2) OR push_bit 8 (ucast b1) OR ucast b0, f4)))))"

definition qemu_get_be64 :: "'o QEMUFile \<Rightarrow> qf_error + u64 \<times> 'o QEMUFile" where
  "qemu_get_be64 f =
     bindR (qemu_get_be32 f) (\<lambda>(hi, f1).
     bindR (qemu_get_be32 f1) (\<lambda>(lo, f2).
       Inr (push_bit 32 (ucast hi) OR ucast lo, f2)))"

section \<open>Files on C streams\<close>

text \<open>A stream of the C library: the bytes of the file and the position.\<close>

record FILE =
  fbytes :: "byte list"
  fpos :: nat

definition c_fseek_set :: "FILE \<Rightarrow> int \<Rightarrow> FILE" where
  "c_fseek_set s pos = (if pos < 0 then s else s\<lparr>fpos := nat pos\<rparr>)"

definition c_fwrite :: "FILE \<Rightarrow> byte list \<Rightarrow> FILE" where
  "c_fwrite s bs =
     (let padded = fbytes s @ replicate (fpos s - length (fbytes s)) 0
      in s\<lparr>fbytes := take (fpos s) padded @ bs @ drop (fpos s + length bs) padded, fpos := fpos s + length bs\<rparr>)"

definition c_fread :: "FILE \<Rightarrow> nat \<Rightarrow> byte list \<times> FILE" where
  "c_fread s n =
     (let bs = take n (drop (fpos s) (fbytes s)) in (bs, s\<lparr>fpos := fpos s + length bs\<rparr>))"

definition file_put_buffer :: "FILE \<Rightarrow> byte list \<Rightarrow> int \<Rightarrow> int \<times> FILE" where
  "file_put_buffer s bs pos = (int (length bs), c_fwrite (c_fseek_set s pos) bs)"

definition file_get_buffer :: "FILE \<Rightarrow> int \<Rightarrow> nat \<Rightarrow> int \<times> byte list \<times> FILE" where
  "file_get_buffer s pos sz =
     (let (bs, s') = c_fread (c_fseek_set s pos) sz in (int (length bs), bs, s'))"

definition stdio_fclose :: "FILE \<Rightarrow> int \<times> FILE" where
  "stdio_fclose s = (0, s)"

text \<open>Opening by name; \<open>fopen\<close> of the C library is a parameter.\<close>

definition qemu_fopen ::
  "(string \<Rightarrow> string \<Rightarrow> FILE option) \<Rightarrow> string \<Rightarrow> string \<Rightarrow> FILE QEMUFile option" where
  "qemu_fopen fopen filename mode =
     (if mode \<noteq> ''rb'' \<and> mode \<noteq> ''wb'' then None
      else case fopen filename mode of
             None \<Rightarrow> None
           | Some s \<Rightarrow>
               Some (if hd mode = CHR ''w''
                     then qemu_fopen_ops s (Some file_put_buffer) None (Some stdio_fclose)
                     else qemu_fopen_ops s None (Some file_get_buffer) (Some stdio_fclose)))"

section \<open>Writing through the buffer\<close>

text \<open>
  The contract of a write function: at the end of what the file holds it appends the whole
  block.  Under it the buffered file is a byte string to which every call appends.
\<close>

lemma IO_BUF_SIZE_pos [simp]: "0 < IO_BUF_SIZE" "IO_BUF_SIZE \<noteq> 0"
  by (simp_all add: IO_BUF_SIZE_def)

locale sink =
  fixes put :: "'o \<Rightarrow> byte list \<Rightarrow> int \<Rightarrow> int \<times> 'o"
    and contents :: "'o \<Rightarrow> byte list"
  assumes put_appends: "bs \<noteq> [] \<Longrightarrow>
    \<exists>s'. put s bs (int (length (contents s))) = (int (length bs), s') \<and> contents s' = contents s @ bs"
begin

definition Writes :: "'o QEMUFile \<Rightarrow> byte list \<Rightarrow> bool" where
  "Writes f bs \<longleftrightarrow> put_buffer_fn f = Some put \<and> length (buf f) = IO_BUF_SIZE \<and> buf_index f < IO_BUF_SIZE \<and>
     \<not> has_error f \<and> (is_write f \<or> buf_index f = 0) \<and> buf_offset f = int (length (contents (opaque f))) \<and>
     contents (opaque f) @ take (buf_index f) (buf f) = bs"

lemma fflush_full:
  assumes "put_buffer_fn f = Some put" "length (buf f) = IO_BUF_SIZE" "buf_index f \<le> IO_BUF_SIZE" "\<not> has_error f"
    and "is_write f \<or> buf_index f = 0" and "buf_offset f = int (length (contents (opaque f)))"
  shows "Writes (qemu_fflush f) (contents (opaque f) @ take (buf_index f) (buf f)) \<and>
    contents (opaque (qemu_fflush f)) = contents (opaque f) @ take (buf_index f) (buf f) \<and>
    buf_index (qemu_fflush f) = 0 \<and> close_fn (qemu_fflush f) = close_fn f"
proof (cases "buf_index f = 0")
  case True
  then show ?thesis using assms by (simp add: qemu_fflush_def Writes_def)
next
  case False
  let ?bs = "take (buf_index f) (buf f)"
  have len: "length ?bs = buf_index f" "?bs \<noteq> []" using assms(2,3) False by auto
  obtain s' where "put (opaque f) ?bs (buf_offset f) = (int (buf_index f), s')" "contents s' = contents (opaque f) @ ?bs"
    using put_appends [OF len(2)] len(1) assms(6) by metis
  then show ?thesis using assms False len(1) by (simp add: qemu_fflush_def Writes_def)
qed

lemma put_byte_writes:
  assumes "Writes f bs"
  shows "\<exists>f'. qemu_put_byte f v = Inr f' \<and> Writes f' (bs @ [v]) \<and> close_fn f' = close_fn f"
proof -
  let ?f1 = "f\<lparr>buf := (buf f)[buf_index f := v], buf_index := Suc (buf_index f), is_write := True\<rparr>"
  have *: "contents (opaque ?f1) @ take (buf_index ?f1) (buf ?f1) = bs @ [v]"
    using assms by (auto simp: Writes_def take_Suc_conv_app_nth)
  have put: "qemu_put_byte f v = Inr (if IO_BUF_SIZE \<le> Suc (buf_index f) then qemu_fflush ?f1 else ?f1)"
    using assms by (auto simp: Writes_def qemu_put_byte_def)
  show ?thesis
  proof (cases "IO_BUF_SIZE \<le> Suc (buf_index f)")
    case True
    have "Writes (qemu_fflush ?f1) (contents (opaque ?f1) @ take (buf_index ?f1) (buf ?f1)) \<and> close_fn (qemu_fflush ?f1) = close_fn ?f1"
      using assms fflush_full [of ?f1] by (simp add: Writes_def)
    with True put show ?thesis unfolding * by simp
  next
    case False
    then show ?thesis using put assms * by (simp add: Writes_def)
  qed
qed

lemma put_loop_writes:
  assumes "Writes f bs"
  shows "\<exists>f'. put_loop f data = Some f' \<and> Writes f' (bs @ data) \<and> close_fn f' = close_fn f"
  using assms
proof (induction data arbitrary: f bs rule: length_induct)
  case (1 data)
  show ?case
  proof (cases "data = []")
    case True
    then show ?thesis using 1(2) by (simp add: put_loop.simps)
  next
    case False
    define l where "l = min (IO_BUF_SIZE - buf_index f) (length data)"
    define f1 where "f1 = f\<lparr>buf := take (buf_index f) (buf f) @ take l data @ drop (buf_index f + l) (buf f),
      is_write := True, buf_index := buf_index f + l\<rparr>"
    define f2 where "f2 = (if IO_BUF_SIZE \<le> buf_index f1 then qemu_fflush f1 else f1)"
    note W = 1(2) [unfolded Writes_def]
    have l: "0 < l" "l \<le> length data" "buf_index f + l \<le> IO_BUF_SIZE" "length (take l data) = l"
      using W False by (auto simp: l_def)
    have f1: "contents (opaque f1) @ take (buf_index f1) (buf f1) = bs @ take l data" "length (buf f1) = IO_BUF_SIZE"
      using W l by (auto simp: f1_def)
    have keep: "put_buffer_fn f1 = Some put" "buf_index f1 = buf_index f + l" "\<not> has_error f1" "is_write f1"
      "buf_offset f1 = int (length (contents (opaque f1)))" "close_fn f1 = close_fn f"
      using W by (simp_all add: f1_def)
    have "Writes f2 (bs @ take l data) \<and> close_fn f2 = close_fn f"
    proof (cases "IO_BUF_SIZE \<le> buf_index f1")
      case True
      then show ?thesis using fflush_full [of f1] keep f1 l(3) by (simp add: f2_def)
    next
      case False
      then show ?thesis using keep f1 by (simp add: f2_def Writes_def)
    qed
    moreover have "length (drop l data) < length data" using l by simp
    ultimately obtain f' where "put_loop f2 (drop l data) = Some f'" "Writes f' ((bs @ take l data) @ drop l data)"
      "close_fn f' = close_fn f"
      using 1(1) by metis
    moreover have "put_loop f data = put_loop f2 (drop l data)"
      using W False by (subst put_loop.simps) (simp add: Let_def f2_def f1_def l_def)
    ultimately show ?thesis by simp
  qed
qed

lemma put_buffer_writes:
  assumes "Writes f bs"
  shows "\<exists>f'. qemu_put_buffer f data = Inr f' \<and> Writes f' (bs @ data) \<and> close_fn f' = close_fn f"
  using put_loop_writes [OF assms, of data] assms by (auto simp: qemu_put_buffer_def Writes_def)

lemma fflush_contents:
  assumes "Writes f bs"
  shows "contents (opaque (qemu_fflush f)) = bs" "close_fn (qemu_fflush f) = close_fn f"
  using assms fflush_full [of f] by (auto simp: Writes_def)

lemma open_writes: "contents s = [] \<Longrightarrow> Writes (qemu_fopen_ops s (Some put) g c) []"
  by (simp add: Writes_def qemu_fopen_ops_def)

end

interpretation fout: sink file_put_buffer fbytes
  by unfold_locales (simp add: file_put_buffer_def c_fwrite_def c_fseek_set_def Let_def)

section \<open>Reading through the buffer\<close>

text \<open>
  The contract of a read function: it returns a piece of the file from the given position on,
  empty only at the end.
\<close>

locale source =
  fixes get :: "'o \<Rightarrow> int \<Rightarrow> nat \<Rightarrow> int \<times> byte list \<times> 'o"
    and contents :: "'o \<Rightarrow> byte list"
  assumes get_piece: "0 < n \<Longrightarrow>
    \<exists>l s'. get s (int p) n = (int l, take l (drop p (contents s)), s') \<and> l \<le> n \<and> l \<le> length (contents s) - p \<and>
      (l = 0 \<longrightarrow> length (contents s) \<le> p) \<and> contents s' = contents s"
begin

definition Reads :: "'o QEMUFile \<Rightarrow> byte list \<Rightarrow> bool" where
  "Reads f bs \<longleftrightarrow> get_buffer_fn f = Some get \<and> \<not> is_write f \<and> length (buf f) = IO_BUF_SIZE \<and>
     buf_index f \<le> buf_size f \<and> buf_size f \<le> IO_BUF_SIZE \<and> 0 \<le> buf_offset f \<and>
     drop (buf_index f) (take (buf_size f) (buf f)) @ drop (nat (buf_offset f)) (contents (opaque f)) = bs"

lemma fill_reads:
  assumes "Reads f bs" and "buf_index f = buf_size f"
  shows "\<exists>f'. qemu_fill_buffer f = Inr f' \<and> Reads f' bs \<and>
    (if bs = [] then has_error f' \<and> buf_index f' = buf_size f' else has_error f' = has_error f \<and> buf_index f' < buf_size f')"
proof -
  define p where "p = nat (buf_offset f)"
  note R = assms(1) [unfolded Reads_def]
  have p: "buf_offset f = int p" using R by (simp add: p_def)
  have bs: "bs = drop p (contents (opaque f))" using R assms(2) by (simp add: p_def)
  obtain l s' where l: "get (opaque f) (int p) IO_BUF_SIZE = (int l, take l bs, s')" "l \<le> IO_BUF_SIZE"
    "l \<le> length bs" "l = 0 \<longrightarrow> bs = []" "contents s' = contents (opaque f)"
    using get_piece [of IO_BUF_SIZE "opaque f" p] bs by auto
  define f1 where "f1 = f\<lparr>opaque := s', buf := take l bs @ drop l (buf f)\<rparr>"
  show ?thesis
  proof (cases "l = 0")
    case True
    then have "qemu_fill_buffer f = Inr (f1\<lparr>has_error := True\<rparr>)"
      using R l p by (simp add: qemu_fill_buffer_def f1_def EAGAIN_def)
    then show ?thesis using R l True assms(2) by (auto simp: Reads_def f1_def)
  next
    case False
    define f2 where "f2 = f1\<lparr>buf_index := 0, buf_size := l, buf_offset := int (p + l)\<rparr>"
    have fill: "qemu_fill_buffer f = Inr f2"
      using R l p False by (simp add: qemu_fill_buffer_def f1_def f2_def min_def)
    have "take l (buf f2) = take l bs" using l by (simp add: f2_def f1_def)
    moreover have "drop (p + l) (contents s') = drop l bs" using l(5) bs by (simp add: add.commute)
    ultimately have "take l (buf f2) @ drop (nat (buf_offset f2)) (contents (opaque f2)) = bs"
      using l(3) by (simp add: f2_def f1_def nat_add_distrib)
    then have "Reads f2 bs"
      using R l unfolding Reads_def by (simp add: f2_def f1_def)
    with fill show ?thesis using False l by (auto simp: f2_def f1_def)
  qed
qed

lemma get_byte_reads:
  assumes "Reads f (b # bs)"
  shows "\<exists>f'. qemu_get_byte f = Inr (b, f') \<and> Reads f' bs \<and> has_error f' = has_error f"
proof -
  have now: "\<exists>f'. buf g ! buf_index g = b \<and> f' = g\<lparr>buf_index := Suc (buf_index g)\<rparr> \<and> Reads f' bs"
    if "Reads g (b # bs)" "buf_index g < buf_size g" for g
  proof -
    have "drop (buf_index g) (take (buf_size g) (buf g)) =
        buf g ! buf_index g # drop (Suc (buf_index g)) (take (buf_size g) (buf g))"
      using that by (subst Cons_nth_drop_Suc [symmetric]) (auto simp: Reads_def)
    then show ?thesis using that by (auto simp: Reads_def)
  qed
  show ?thesis
  proof (cases "buf_index f < buf_size f")
    case True
    then show ?thesis using now [OF assms True] assms by (auto simp: qemu_get_byte_def Reads_def)
  next
    case False
    then have "buf_index f = buf_size f" using assms by (simp add: Reads_def)
    from fill_reads [OF assms this] obtain g where "qemu_fill_buffer f = Inr g" "Reads g (b # bs)"
      "has_error g = has_error f" "buf_index g < buf_size g" by auto
    then show ?thesis using now [of g] False assms by (auto simp: qemu_get_byte_def Reads_def)
  qed
qed

lemma get_byte_end:
  assumes "Reads f []"
  shows "\<exists>f'. qemu_get_byte f = Inr (0, f') \<and> Reads f' [] \<and> has_error f'"
proof -
  have "buf_index f = buf_size f" using assms by (auto simp: Reads_def)
  from fill_reads [OF assms this] assms show ?thesis by (auto simp: qemu_get_byte_def Reads_def)
qed

lemma advance_reads:
  assumes "Reads g bs" and "l \<le> buf_size g - buf_index g"
  shows "take l (drop (buf_index g) (buf g)) = take l bs" "l \<le> length bs"
    "Reads (g\<lparr>buf_index := buf_index g + l\<rparr>) (drop l bs)"
proof -
  let ?front = "drop (buf_index g) (take (buf_size g) (buf g))"
  let ?tail = "drop (nat (buf_offset g)) (contents (opaque g))"
  have len: "l \<le> length ?front" and split: "bs = ?front @ ?tail"
    using assms by (auto simp: Reads_def)
  have "take l ?front = take l (drop (buf_index g) (buf g))"
    using assms(2) by (simp add: drop_take)
  with len split show "take l (drop (buf_index g) (buf g)) = take l bs" "l \<le> length bs" by auto
  have "drop l bs = drop (buf_index g + l) (take (buf_size g) (buf g)) @ ?tail"
    using len by (subst split) (simp add: add.commute)
  with assms show "Reads (g\<lparr>buf_index := buf_index g + l\<rparr>) (drop l bs)"
    by (auto simp: Reads_def)
qed

lemma refill_reads:
  assumes "Reads f bs"
  shows "\<exists>g. (if buf_size f - buf_index f = 0 then qemu_fill_buffer f else Inr f) = Inr g \<and> Reads g bs \<and>
    (has_error g \<longleftrightarrow> has_error f \<or> bs = []) \<and> (buf_index g < buf_size g \<longleftrightarrow> bs \<noteq> [])"
proof (cases "buf_index f < buf_size f")
  case True
  then have "bs \<noteq> []" using assms by (auto simp: Reads_def)
  with True assms show ?thesis by simp
next
  case False
  then have "buf_index f = buf_size f" using assms by (simp add: Reads_def)
  with fill_reads [OF assms this] show ?thesis by (auto split: if_splits)
qed

lemma get_loop_reads:
  assumes "Reads f bs"
  shows "\<exists>f'. get_loop f n = Inr (take n bs, f') \<and> Reads f' (drop n bs) \<and>
    (has_error f' \<longleftrightarrow> has_error f \<or> length bs < n)"
  using assms
proof (induction n arbitrary: f bs rule: less_induct)
  case (less n)
  obtain g where g: "(if buf_size f - buf_index f = 0 then qemu_fill_buffer f else Inr f) = Inr g" "Reads g bs"
    "has_error g \<longleftrightarrow> has_error f \<or> bs = []" "buf_index g < buf_size g \<longleftrightarrow> bs \<noteq> []"
    using refill_reads [OF less.prems] by auto
  have ok: "\<not> buf_size f < buf_index f" using less.prems by (simp add: Reads_def)
  consider "n = 0" | "n \<noteq> 0" "bs = []" | "n \<noteq> 0" "bs \<noteq> []" by blast
  then show ?case
  proof cases
    case 1
    then show ?thesis using less.prems by (simp add: get_loop.simps)
  next
    case 2
    then have "get_loop f n = Inr ([], g)"
      using ok g by (subst get_loop.simps) (simp add: Let_def)
    then show ?thesis using g 2 by auto
  next
    case 3
    define l where "l = min (buf_size g - buf_index g) n"
    define g2 where "g2 = g\<lparr>buf_index := buf_index g + l\<rparr>"
    have l: "0 < l" "l \<le> n" "l \<le> buf_size g - buf_index g" using g(4) 3 by (auto simp: l_def)
    note adv = advance_reads [OF g(2) l(3), folded g2_def]
    obtain f' where f': "get_loop g2 (n - l) = Inr (take (n - l) (drop l bs), f')" "Reads f' (drop (n - l) (drop l bs))"
      "has_error f' \<longleftrightarrow> has_error g2 \<or> length (drop l bs) < n - l"
      using less.IH [OF _ adv(3), of "n - l"] l by auto
    have "get_loop f n = Inr (take l bs @ take (n - l) (drop l bs), f')"
      using 3 ok g(1,4) f'(1) adv(1) by (subst get_loop.simps) (simp add: Let_def g2_def l_def)
    moreover have "take l bs @ take (n - l) (drop l bs) = take n bs"
      using l(2) by (metis le_add_diff_inverse take_add)
    ultimately show ?thesis using f'(2,3) g(3) 3 adv(2) l(2) by (auto simp: g2_def)
  qed
qed

lemma get_buffer_reads:
  assumes "Reads f bs"
  shows "\<exists>f'. qemu_get_buffer f n = Inr (take n bs, f') \<and> Reads f' (drop n bs) \<and>
    (has_error f' \<longleftrightarrow> has_error f \<or> length bs < n)"
  using get_loop_reads [OF assms, of n] assms by (auto simp: qemu_get_buffer_def Reads_def)

lemma open_reads: "Reads (qemu_fopen_ops s p (Some get) c) (contents s)"
  by (simp add: Reads_def qemu_fopen_ops_def)

end

interpretation fin: source file_get_buffer fbytes
proof
  fix n p :: nat and s :: FILE
  assume "0 < n"
  then show "\<exists>l s'. file_get_buffer s (int p) n = (int l, take l (drop p (fbytes s)), s') \<and> l \<le> n \<and>
      l \<le> length (fbytes s) - p \<and> (l = 0 \<longrightarrow> length (fbytes s) \<le> p) \<and> fbytes s' = fbytes s"
    by (intro exI [of _ "min n (length (fbytes s) - p)"] exI [of _ "s\<lparr>fpos := p + min (length (fbytes s) - p) n\<rparr>"])
      (auto simp: file_get_buffer_def c_fread_def c_fseek_set_def Let_def min_def)
qed

section \<open>Integers on the byte string\<close>

definition be16_bytes :: "u32 \<Rightarrow> byte list" where
  "be16_bytes v = [ucast (drop_bit 8 v), ucast v]"

definition be32_bytes :: "u32 \<Rightarrow> byte list" where
  "be32_bytes v = [ucast (drop_bit 24 v), ucast (drop_bit 16 v), ucast (drop_bit 8 v), ucast v]"

definition be64_bytes :: "u64 \<Rightarrow> byte list" where
  "be64_bytes v = be32_bytes (ucast (drop_bit 32 v)) @ be32_bytes (ucast v)"

text \<open>Reading at the end of a file yields zeros.\<close>

definition hd0 :: "byte list \<Rightarrow> byte" where
  "hd0 bs = (case bs of [] \<Rightarrow> 0 | b # _ \<Rightarrow> b)"

definition be16_of :: "byte list \<Rightarrow> u32" where
  "be16_of bs = push_bit 8 (ucast (hd0 bs)) OR ucast (hd0 (drop 1 bs))"

definition be32_of :: "byte list \<Rightarrow> u32" where
  "be32_of bs = push_bit 24 (ucast (hd0 bs)) OR push_bit 16 (ucast (hd0 (drop 1 bs))) OR
     push_bit 8 (ucast (hd0 (drop 2 bs))) OR ucast (hd0 (drop 3 bs))"

definition be64_of :: "byte list \<Rightarrow> u64" where
  "be64_of bs = push_bit 32 (ucast (be32_of bs)) OR ucast (be32_of (drop 4 bs))"

lemma length_be_bytes [simp]:
  "length (be16_bytes v) = 2" "length (be32_bytes v) = 4" "length (be64_bytes w) = 8"
  by (simp_all add: be16_bytes_def be32_bytes_def be64_bytes_def)

lemma hd0_Cons [simp]: "hd0 (b # bs) = b" "hd0 [] = 0"
  by (simp_all add: hd0_def)

lemma be16_of_bytes [simp]: "be16_of (be16_bytes v @ bs) = take_bit 16 v"
  unfolding be16_of_def be16_bytes_def by (rule bit_eqI) (auto simp: bit_simps)

lemma four_bytes:
  "push_bit 24 (ucast (ucast (drop_bit 24 v) :: byte)) OR push_bit 16 (ucast (ucast (drop_bit 16 v) :: byte)) OR
     push_bit 8 (ucast (ucast (drop_bit 8 v) :: byte)) OR ucast (ucast v :: byte) = (v :: u32)"
proof -
  have 1: "ucast (ucast w :: byte) = take_bit 8 (w :: u32)" for w
    by (rule bit_eqI) (auto simp: bit_simps)
  have 2: "push_bit 8 (take_bit 8 (drop_bit 8 w)) OR take_bit 8 w = take_bit 16 w" for w :: u32
    by (rule bit_eqI) (auto simp: bit_simps)
  have 3: "push_bit 16 (take_bit 8 (drop_bit 16 w)) OR take_bit 16 w = take_bit 24 w" for w :: u32
    by (rule bit_eqI) (auto simp: bit_simps)
  have 4: "push_bit 24 (take_bit 8 (drop_bit 24 w)) OR take_bit 24 w = w" for w :: u32
    by (rule bit_eqI) (auto simp: bit_simps)
  show ?thesis unfolding 1 2 3 4 ..
qed

lemma be32_of_bytes [simp]: "be32_of (be32_bytes v @ bs) = v"
  using four_bytes [of v] by (simp add: be32_of_def be32_bytes_def)

lemma be64_of_bytes [simp]: "be64_of (be64_bytes v @ bs) = v"
proof -
  have "drop 4 (be32_bytes a @ cs) = cs" for a cs by (simp add: be32_bytes_def)
  then have "be64_of (be64_bytes v @ bs) = push_bit 32 (ucast (ucast (drop_bit 32 v) :: u32)) OR ucast (ucast v :: u32)"
    by (simp add: be64_of_def be64_bytes_def)
  also have "\<dots> = v" by (rule bit_eqI) (auto simp: bit_simps)
  finally show ?thesis .
qed

lemma drop_be_bytes [simp]:
  "drop 2 (be16_bytes v @ bs) = bs" "drop 4 (be32_bytes v @ bs) = bs" "drop 8 (be64_bytes w @ bs) = bs"
  by (simp_all add: be16_bytes_def be32_bytes_def be64_bytes_def)

context sink
begin

lemma put_be16_writes:
  assumes "Writes f bs"
  shows "\<exists>f'. qemu_put_be16 f v = Inr f' \<and> Writes f' (bs @ be16_bytes v) \<and> close_fn f' = close_fn f"
proof -
  obtain f1 where "qemu_put_byte f (ucast (drop_bit 8 v)) = Inr f1" "Writes f1 (bs @ [ucast (drop_bit 8 v)])"
    "close_fn f1 = close_fn f"
    using put_byte_writes [OF assms] by blast
  with put_byte_writes [of f1 _ "ucast v"] show ?thesis
    by (fastforce simp: qemu_put_be16_def be16_bytes_def)
qed

lemma put_be32_writes:
  assumes "Writes f bs"
  shows "\<exists>f'. qemu_put_be32 f v = Inr f' \<and> Writes f' (bs @ be32_bytes v) \<and> close_fn f' = close_fn f"
proof -
  obtain f1 where 1: "qemu_put_byte f (ucast (drop_bit 24 v)) = Inr f1" "Writes f1 (bs @ [ucast (drop_bit 24 v)])"
    "close_fn f1 = close_fn f"
    using put_byte_writes [OF assms] by blast
  obtain f2 where 2: "qemu_put_byte f1 (ucast (drop_bit 16 v)) = Inr f2"
    "Writes f2 ((bs @ [ucast (drop_bit 24 v)]) @ [ucast (drop_bit 16 v)])" "close_fn f2 = close_fn f1"
    using put_byte_writes [OF 1(2)] by blast
  have "\<exists>f'. qemu_put_be16 f2 v = Inr f' \<and>
      Writes f' (((bs @ [ucast (drop_bit 24 v)]) @ [ucast (drop_bit 16 v)]) @ be16_bytes v) \<and> close_fn f' = close_fn f2"
    by (rule put_be16_writes [OF 2(2)])
  then show ?thesis using 1 2 by (auto simp: qemu_put_be32_def qemu_put_be16_def be32_bytes_def be16_bytes_def)
qed

lemma put_be64_writes:
  assumes "Writes f bs"
  shows "\<exists>f'. qemu_put_be64 f v = Inr f' \<and> Writes f' (bs @ be64_bytes v) \<and> close_fn f' = close_fn f"
proof -
  obtain f1 where "qemu_put_be32 f (ucast (drop_bit 32 v)) = Inr f1" "Writes f1 (bs @ be32_bytes (ucast (drop_bit 32 v)))"
    "close_fn f1 = close_fn f"
    using put_be32_writes [OF assms] by blast
  with put_be32_writes [of f1 _ "ucast v"] show ?thesis
    by (fastforce simp: qemu_put_be64_def be64_bytes_def)
qed

end

context source
begin

lemma get_byte_total:
  assumes "Reads f bs"
  shows "\<exists>f'. qemu_get_byte f = Inr (hd0 bs, f') \<and> Reads f' (drop 1 bs) \<and> (has_error f' \<longleftrightarrow> has_error f \<or> bs = [])"
  using get_byte_end [of f] get_byte_reads [of f "hd bs" "tl bs"] assms by (cases bs) auto

lemma get_be16_reads:
  assumes "Reads f bs"
  shows "\<exists>f'. qemu_get_be16 f = Inr (be16_of bs, f') \<and> Reads f' (drop 2 bs) \<and>
    (has_error f' \<longleftrightarrow> has_error f \<or> length bs < 2)"
proof -
  obtain f1 where 1: "qemu_get_byte f = Inr (hd0 bs, f1)" "Reads f1 (drop 1 bs)" "has_error f1 \<longleftrightarrow> has_error f \<or> bs = []"
    using get_byte_total [OF assms] by blast
  obtain f2 where 2: "qemu_get_byte f1 = Inr (hd0 (drop 1 bs), f2)" "Reads f2 (drop 1 (drop 1 bs))"
    "has_error f2 \<longleftrightarrow> has_error f1 \<or> drop 1 bs = []"
    using get_byte_total [OF 1(2)] by blast
  have "length bs < 2 \<longleftrightarrow> bs = [] \<or> drop 1 bs = []" by (cases bs) (auto simp: Suc_le_eq less_2_cases_iff)
  with 1 2 show ?thesis by (auto simp: qemu_get_be16_def be16_of_def numeral_2_eq_2)
qed

lemma get_be32_reads:
  assumes "Reads f bs"
  shows "\<exists>f'. qemu_get_be32 f = Inr (be32_of bs, f') \<and> Reads f' (drop 4 bs) \<and>
    (has_error f' \<longleftrightarrow> has_error f \<or> length bs < 4)"
proof -
  have d: "drop 1 (drop 1 bs) = drop 2 bs" "drop 1 (drop 2 bs) = drop 3 bs" "drop 1 (drop 3 bs) = drop 4 bs"
    by (simp_all add: eval_nat_numeral)
  obtain f1 where 1: "qemu_get_byte f = Inr (hd0 bs, f1)" "Reads f1 (drop 1 bs)" "has_error f1 \<longleftrightarrow> has_error f \<or> bs = []"
    using get_byte_total [OF assms] by blast
  obtain f2 where 2: "qemu_get_byte f1 = Inr (hd0 (drop 1 bs), f2)" "Reads f2 (drop 1 (drop 1 bs))"
    "has_error f2 \<longleftrightarrow> has_error f1 \<or> drop 1 bs = []"
    using get_byte_total [OF 1(2)] by blast
  obtain f3 where 3: "qemu_get_byte f2 = Inr (hd0 (drop 2 bs), f3)" "Reads f3 (drop 1 (drop 2 bs))"
    "has_error f3 \<longleftrightarrow> has_error f2 \<or> drop 2 bs = []"
    using get_byte_total [OF 2(2)] unfolding d by blast
  obtain f4 where 4: "qemu_get_byte f3 = Inr (hd0 (drop 3 bs), f4)" "Reads f4 (drop 1 (drop 3 bs))"
    "has_error f4 \<longleftrightarrow> has_error f3 \<or> drop 3 bs = []"
    using get_byte_total [OF 3(2)] unfolding d by blast
  have "qemu_get_be32 f = Inr (be32_of bs, f4)"
    using 1(1) 2(1) 3(1) 4(1) by (simp add: qemu_get_be32_def be32_of_def)
  moreover have "has_error f4 \<longleftrightarrow> has_error f \<or> length bs < 4"
    using 1(3) 2(3) 3(3) 4(3) by auto
  ultimately show ?thesis using 4(2) unfolding d by blast
qed

lemma get_be64_reads:
  assumes "Reads f bs"
  shows "\<exists>f'. qemu_get_be64 f = Inr (be64_of bs, f') \<and> Reads f' (drop 8 bs) \<and>
    (has_error f' \<longleftrightarrow> has_error f \<or> length bs < 8)"
proof -
  obtain f1 where 1: "qemu_get_be32 f = Inr (be32_of bs, f1)" "Reads f1 (drop 4 bs)"
    "has_error f1 \<longleftrightarrow> has_error f \<or> length bs < 4"
    using get_be32_reads [OF assms] by blast
  obtain f2 where "qemu_get_be32 f1 = Inr (be32_of (drop 4 bs), f2)" "Reads f2 (drop 4 (drop 4 bs))"
    "has_error f2 \<longleftrightarrow> has_error f1 \<or> length (drop 4 bs) < 4"
    using get_be32_reads [OF 1(2)] by blast
  with 1 show ?thesis by (auto simp: qemu_get_be64_def be64_of_def)
qed

end

section \<open>Writing a file and reading it back\<close>

datatype qitem = QByte byte | QBe16 u32 | QBe32 u32 | QBe64 u64 | QBuf "byte list"

fun put_item :: "'o QEMUFile \<Rightarrow> qitem \<Rightarrow> qf_error + 'o QEMUFile" where
  "put_item f (QByte b) = qemu_put_byte f b"
| "put_item f (QBe16 v) = qemu_put_be16 f v"
| "put_item f (QBe32 v) = qemu_put_be32 f v"
| "put_item f (QBe64 v) = qemu_put_be64 f v"
| "put_item f (QBuf bs) = qemu_put_buffer f bs"

text \<open>Reading an item of the same kind and, for a block, of the same length.\<close>

fun get_item :: "'o QEMUFile \<Rightarrow> qitem \<Rightarrow> qf_error + qitem \<times> 'o QEMUFile" where
  "get_item f (QByte _) = bindR (qemu_get_byte f) (\<lambda>(b, f'). Inr (QByte b, f'))"
| "get_item f (QBe16 _) = bindR (qemu_get_be16 f) (\<lambda>(v, f'). Inr (QBe16 v, f'))"
| "get_item f (QBe32 _) = bindR (qemu_get_be32 f) (\<lambda>(v, f'). Inr (QBe32 v, f'))"
| "get_item f (QBe64 _) = bindR (qemu_get_be64 f) (\<lambda>(v, f'). Inr (QBe64 v, f'))"
| "get_item f (QBuf bs) = bindR (qemu_get_buffer f (length bs)) (\<lambda>(v, f'). Inr (QBuf v, f'))"

fun put_items :: "'o QEMUFile \<Rightarrow> qitem list \<Rightarrow> qf_error + 'o QEMUFile" where
  "put_items f [] = Inr f"
| "put_items f (x # xs) = bindR (put_item f x) (\<lambda>f'. put_items f' xs)"

fun get_items :: "'o QEMUFile \<Rightarrow> qitem list \<Rightarrow> qf_error + qitem list \<times> 'o QEMUFile" where
  "get_items f [] = Inr ([], f)"
| "get_items f (x # xs) =
     bindR (get_item f x) (\<lambda>(y, f'). bindR (get_items f' xs) (\<lambda>(ys, f''). Inr (y # ys, f'')))"

fun item_bytes :: "qitem \<Rightarrow> byte list" where
  "item_bytes (QByte b) = [b]"
| "item_bytes (QBe16 v) = be16_bytes v"
| "item_bytes (QBe32 v) = be32_bytes v"
| "item_bytes (QBe64 v) = be64_bytes v"
| "item_bytes (QBuf bs) = bs"

text \<open>Only the low half of a 16-bit item reaches the file.\<close>

fun item_value :: "qitem \<Rightarrow> qitem" where
  "item_value (QBe16 v) = QBe16 (take_bit 16 v)"
| "item_value x = x"

lemma put_item_writes:
  assumes "fout.Writes f bs"
  shows "\<exists>f'. put_item f x = Inr f' \<and> fout.Writes f' (bs @ item_bytes x) \<and> close_fn f' = close_fn f"
  using fout.put_byte_writes [OF assms] fout.put_be16_writes [OF assms] fout.put_be32_writes [OF assms]
    fout.put_be64_writes [OF assms] fout.put_buffer_writes [OF assms]
  by (cases x) (simp_all only: put_item.simps item_bytes.simps)

lemma put_items_writes:
  "fout.Writes f bs \<Longrightarrow> \<exists>f'. put_items f xs = Inr f' \<and> fout.Writes f' (bs @ concat (map item_bytes xs)) \<and> close_fn f' = close_fn f"
proof (induction xs arbitrary: f bs)
  case (Cons x xs)
  obtain f1 where f1: "put_item f x = Inr f1" "fout.Writes f1 (bs @ item_bytes x)" "close_fn f1 = close_fn f"
    using put_item_writes [OF Cons.prems] by blast
  from Cons.IH [OF f1(2)] f1 show ?case by auto
qed simp

lemma get_item_reads:
  assumes "fin.Reads f (item_bytes x @ bs)"
  shows "\<exists>f'. get_item f x = Inr (item_value x, f') \<and> fin.Reads f' bs \<and> has_error f' = has_error f"
proof (cases x)
  case (QByte b)
  then show ?thesis using fin.get_byte_reads [of f b bs] assms by auto
next
  case (QBe16 v)
  then show ?thesis using fin.get_be16_reads [of f "be16_bytes v @ bs"] assms by auto
next
  case (QBe32 v)
  then show ?thesis using fin.get_be32_reads [of f "be32_bytes v @ bs"] assms by auto
next
  case (QBe64 v)
  then show ?thesis using fin.get_be64_reads [of f "be64_bytes v @ bs"] assms by auto
next
  case (QBuf v)
  then show ?thesis using fin.get_buffer_reads [of f "v @ bs" "length v"] assms by auto
qed

lemma get_items_reads:
  "fin.Reads f (concat (map item_bytes xs) @ bs) \<Longrightarrow>
   \<exists>f'. get_items f xs = Inr (map item_value xs, f') \<and> fin.Reads f' bs \<and> has_error f' = has_error f"
proof (induction xs arbitrary: f)
  case (Cons x xs)
  then obtain f1 where f1: "get_item f x = Inr (item_value x, f1)" "fin.Reads f1 (concat (map item_bytes xs) @ bs)"
    "has_error f1 = has_error f"
    using get_item_reads [of f x "concat (map item_bytes xs) @ bs"] by auto
  from Cons.IH [OF f1(2)] f1 show ?case by auto
qed simp

definition fopen_new :: "FILE QEMUFile" where
  "fopen_new = qemu_fopen_ops \<lparr>fbytes = [], fpos = 0\<rparr> (Some file_put_buffer) None (Some stdio_fclose)"

definition fopen_old :: "FILE \<Rightarrow> FILE QEMUFile" where
  "fopen_old s = qemu_fopen_ops s None (Some file_get_buffer) (Some stdio_fclose)"

lemma fclose_open:
  assumes "fout.Writes f bs" and "close_fn f = close_fn fopen_new"
  shows "fbytes (snd (qemu_fclose f)) = bs" "fin.Reads (fopen_old (snd (qemu_fclose f))) bs"
    "\<not> has_error (fopen_old s)"
proof -
  show closed: "fbytes (snd (qemu_fclose f)) = bs"
    using fout.fflush_contents [OF assms(1)] assms(2)
    by (simp add: qemu_fclose_def fopen_new_def qemu_fopen_ops_def stdio_fclose_def)
  show "fin.Reads (fopen_old (snd (qemu_fclose f))) bs"
    using fin.open_reads [of "snd (qemu_fclose f)" None "Some stdio_fclose"] closed by (simp add: fopen_old_def)
  show "\<not> has_error (fopen_old s)" by (simp add: fopen_old_def qemu_fopen_ops_def)
qed

text \<open>
  C34. Buffered files are transparent: whatever bytes, integers and blocks are written to a new
  file, however they fall across the 32 KiB buffer, the calls all return, the closed file holds
  exactly their big-endian encodings, and reading it back yields the values without an error;
  reading one byte more yields zero and sets the error flag.
\<close>

theorem qemu_file_roundtrip:
  "\<exists>f f' f''. put_items fopen_new items = Inr f \<and>
     fbytes (snd (qemu_fclose f)) = concat (map item_bytes items) \<and>
     get_items (fopen_old (snd (qemu_fclose f))) items = Inr (map item_value items, f') \<and> \<not> qemu_file_has_error f' \<and>
     qemu_get_byte f' = Inr (0, f'') \<and> qemu_file_has_error f''"
proof -
  have "fout.Writes fopen_new []" by (simp add: fopen_new_def fout.open_writes)
  then obtain f where f: "put_items fopen_new items = Inr f" "fout.Writes f (concat (map item_bytes items))"
    "close_fn f = close_fn fopen_new"
    using put_items_writes [of fopen_new "[]" items] by auto
  note closed = fclose_open [OF f(2,3)]
  let ?g = "fopen_old (snd (qemu_fclose f))"
  have "fin.Reads ?g (concat (map item_bytes items) @ [])" "\<not> has_error ?g" using closed by simp_all
  from get_items_reads [OF this(1)] this(2) obtain f' where
    f': "get_items ?g items = Inr (map item_value items, f')" "fin.Reads f' []" "\<not> has_error f'" by auto
  from fin.get_byte_end [OF f'(2)] f closed f' show ?thesis
    by (auto simp: qemu_file_has_error_def)
qed

end
