(* ===== verification/VMState.thy ===== *)
theory VMState
  imports QemuFile
begin

text \<open>
  Saving and loading the machine state, the second half of \<^verbatim>\<open>savevm.c\<close>: the codecs of single
  fields, the descriptions of devices, the registered handlers and the format of the whole
  file.  A field of a device is a way to read and to write a part of the device's state, which
  stands for its offset in the C structure.
\<close>

definition EINVAL :: int where "EINVAL = 22"
definition EIO :: int where "EIO = 5"
definition ENOTSUP :: int where "ENOTSUP = 95"

section \<open>Codecs of field types\<close>

text \<open>The getter sees the value the field has; it returns an error code and the new value.\<close>

record ('v, 'o) VMStateInfo =
  info_name :: string
  info_get :: "'v \<Rightarrow> 'o QEMUFile \<Rightarrow> qf_error + int \<times> 'v \<times> 'o QEMUFile"
  info_put :: "'v \<Rightarrow> 'o QEMUFile \<Rightarrow> qf_error + 'o QEMUFile"

definition ok_value :: "qf_error + 'v \<times> 'o QEMUFile \<Rightarrow> qf_error + int \<times> 'v \<times> 'o QEMUFile" where
  "ok_value r = bindR r (\<lambda>(v, f). Inr (0, v, f))"

definition vmstate_info_int8 :: "(byte, 'o) VMStateInfo" where
  "vmstate_info_int8 = \<lparr>info_name = ''int8'', info_get = (\<lambda>_ f. ok_value (qemu_get_byte f)),
     info_put = (\<lambda>v f. qemu_put_byte f v)\<rparr>"

definition vmstate_info_uint8 :: "(byte, 'o) VMStateInfo" where
  "vmstate_info_uint8 = \<lparr>info_name = ''uint8'', info_get = (\<lambda>_ f. ok_value (qemu_get_byte f)),
     info_put = (\<lambda>v f. qemu_put_byte f v)\<rparr>"

definition get_u16 :: "'o QEMUFile \<Rightarrow> qf_error + u16 \<times> 'o QEMUFile" where
  "get_u16 f = bindR (qemu_get_be16 f) (\<lambda>(v, f'). Inr (ucast v, f'))"

definition vmstate_info_int16 :: "(u16, 'o) VMStateInfo" where
  "vmstate_info_int16 = \<lparr>info_name = ''int16'', info_get = (\<lambda>_ f. ok_value (get_u16 f)),
     info_put = (\<lambda>v f. qemu_put_be16 f (scast v))\<rparr>"

definition vmstate_info_uint16 :: "(u16, 'o) VMStateInfo" where
  "vmstate_info_uint16 = \<lparr>info_name = ''uint16'', info_get = (\<lambda>_ f. ok_value (get_u16 f)),
     info_put = (\<lambda>v f. qemu_put_be16 f (ucast v))\<rparr>"

definition vmstate_info_int32 :: "(u32, 'o) VMStateInfo" where
  "vmstate_info_int32 = \<lparr>info_name = ''int32'', info_get = (\<lambda>_ f. ok_value (qemu_get_be32 f)),
     info_put = (\<lambda>v f. qemu_put_be32 f v)\<rparr>"

definition vmstate_info_uint32 :: "(u32, 'o) VMStateInfo" where
  "vmstate_info_uint32 = \<lparr>info_name = ''uint32'', info_get = (\<lambda>_ f. ok_value (qemu_get_be32 f)),
     info_put = (\<lambda>v f. qemu_put_be32 f v)\<rparr>"

definition vmstate_info_int64 :: "(u64, 'o) VMStateInfo" where
  "vmstate_info_int64 = \<lparr>info_name = ''int64'', info_get = (\<lambda>_ f. ok_value (qemu_get_be64 f)),
     info_put = (\<lambda>v f. qemu_put_be64 f v)\<rparr>"

definition vmstate_info_uint64 :: "(u64, 'o) VMStateInfo" where
  "vmstate_info_uint64 = \<lparr>info_name = ''uint64'', info_get = (\<lambda>_ f. ok_value (qemu_get_be64 f)),
     info_put = (\<lambda>v f. qemu_put_be64 f v)\<rparr>"

text \<open>Fields that are only compared with what the file holds.\<close>

definition check_value ::
  "('v \<Rightarrow> 'v \<Rightarrow> bool) \<Rightarrow> 'v \<Rightarrow> qf_error + 'v \<times> 'o QEMUFile \<Rightarrow> qf_error + int \<times> 'v \<times> 'o QEMUFile" where
  "check_value ok v r = bindR r (\<lambda>(v2, f). Inr (if ok v v2 then 0 else - EINVAL, v, f))"

definition vmstate_info_int32_equal :: "(u32, 'o) VMStateInfo" where
  "vmstate_info_int32_equal = \<lparr>info_name = ''int32 equal'',
     info_get = (\<lambda>v f. check_value (=) v (qemu_get_be32 f)), info_put = (\<lambda>v f. qemu_put_be32 f v)\<rparr>"

definition vmstate_info_int32_le :: "(u32, 'o) VMStateInfo" where
  "vmstate_info_int32_le = \<lparr>info_name = ''int32 equal'',
     info_get = (\<lambda>old f. check_value (\<lambda>a b. sint a \<le> sint b) old (qemu_get_be32 f)),
     info_put = (\<lambda>v f. qemu_put_be32 f v)\<rparr>"

definition vmstate_info_uint8_equal :: "(byte, 'o) VMStateInfo" where
  "vmstate_info_uint8_equal = \<lparr>info_name = ''uint8 equal'',
     info_get = (\<lambda>v f. check_value (=) v (qemu_get_byte f)), info_put = (\<lambda>v f. qemu_put_byte f v)\<rparr>"

definition vmstate_info_uint16_equal :: "(u16, 'o) VMStateInfo" where
  "vmstate_info_uint16_equal = \<lparr>info_name = ''uint16 equal'',
     info_get = (\<lambda>v f. check_value (=) v (get_u16 f)), info_put = (\<lambda>v f. qemu_put_be16 f (ucast v))\<rparr>"

text \<open>A timer is saved as its expiry time, all ones when it is not pending.\<close>

type_synonym timer = "u64 option"

definition qemu_put_timer :: "timer \<Rightarrow> 'o QEMUFile \<Rightarrow> qf_error + 'o QEMUFile" where
  "qemu_put_timer ts f = qemu_put_be64 f (case ts of Some t \<Rightarrow> t | None \<Rightarrow> - 1)"

definition qemu_get_timer :: "'o QEMUFile \<Rightarrow> qf_error + timer \<times> 'o QEMUFile" where
  "qemu_get_timer f = bindR (qemu_get_be64 f) (\<lambda>(t, f'). Inr (if t \<noteq> - 1 then Some t else None, f'))"

definition vmstate_info_timer :: "(timer, 'o) VMStateInfo" where
  "vmstate_info_timer = \<lparr>info_name = ''timer'', info_get = (\<lambda>_ f. ok_value (qemu_get_timer f)),
     info_put = qemu_put_timer\<rparr>"

text \<open>A buffer has the size of the field; a short read leaves the rest of it.\<close>

definition vmstate_info_buffer :: "nat \<Rightarrow> (byte list, 'o) VMStateInfo" where
  "vmstate_info_buffer sz = \<lparr>info_name = ''buffer'',
     info_get = (\<lambda>v f. bindR (qemu_get_buffer f sz) (\<lambda>(bs, f'). Inr (0, bs @ drop (length bs) v, f'))),
     info_put = (\<lambda>v f. qemu_put_buffer f (take sz v))\<rparr>"

function get_unused :: "nat \<Rightarrow> 'o QEMUFile \<Rightarrow> qf_error + 'o QEMUFile" where
  "get_unused sz f =
     (if 0 < sz
      then let block_len = min 1024 sz in bindR (qemu_get_buffer f block_len) (\<lambda>(_, f'). get_unused (sz - block_len) f')
      else Inr f)"
  by pat_completeness auto
termination by (relation "measure fst") auto

function put_unused :: "nat \<Rightarrow> 'o QEMUFile \<Rightarrow> qf_error + 'o QEMUFile" where
  "put_unused sz f =
     (if 0 < sz
      then let block_len = min 1024 sz in bindR (qemu_put_buffer f (replicate block_len 0)) (put_unused (sz - block_len))
      else Inr f)"
  by pat_completeness auto
termination by (relation "measure fst") auto

declare get_unused.simps [simp del] put_unused.simps [simp del]

definition vmstate_info_unused_buffer :: "nat \<Rightarrow> (unit, 'o) VMStateInfo" where
  "vmstate_info_unused_buffer sz = \<lparr>info_name = ''unused_buffer'',
     info_get = (\<lambda>_ f. bindR (get_unused sz f) (\<lambda>f'. Inr (0, (), f'))), info_put = (\<lambda>_ f. put_unused sz f)\<rparr>"

section \<open>Descriptions of devices\<close>

text \<open>A field: its elements are loaded and saved one after the other.\<close>

record ('s, 'o) VMStateField =
  vf_name :: string
  vf_version :: int
  field_exists :: "('s \<Rightarrow> int \<Rightarrow> bool) option"
  n_elems :: "'s \<Rightarrow> nat"
  elem_get :: "nat \<Rightarrow> 's \<Rightarrow> 'o QEMUFile \<Rightarrow> qf_error + int \<times> 's \<times> 'o QEMUFile"
  elem_put :: "nat \<Rightarrow> 's \<Rightarrow> 'o QEMUFile \<Rightarrow> qf_error + 'o QEMUFile"

record ('s, 'o) VMStateDescription =
  vmsd_name :: string
  vmsd_version :: int
  minimum_version_id :: int
  minimum_version_id_old :: int
  load_state_old :: "('s \<Rightarrow> int \<Rightarrow> 'o QEMUFile \<Rightarrow> qf_error + int \<times> 's \<times> 'o QEMUFile) option"
  pre_load :: "('s \<Rightarrow> int \<times> 's) option"
  post_load :: "('s \<Rightarrow> int \<Rightarrow> int \<times> 's) option"
  pre_save :: "('s \<Rightarrow> 's) option"
  post_save :: "('s \<Rightarrow> 's) option"
  vmsd_fields :: "('s, 'o) VMStateField list"

fun load_elems ::
  "(nat \<Rightarrow> 's \<Rightarrow> 'o QEMUFile \<Rightarrow> qf_error + int \<times> 's \<times> 'o QEMUFile) \<Rightarrow> nat list \<Rightarrow> 's \<Rightarrow> 'o QEMUFile \<Rightarrow>
   qf_error + int \<times> 's \<times> 'o QEMUFile" where
  "load_elems get [] s f = Inr (0, s, f)"
| "load_elems get (i # is) s f =
     bindR (get i s f) (\<lambda>(ret, s', f'). if ret < 0 then Inr (ret, s', f') else load_elems get is s' f')"

fun load_fields ::
  "int \<Rightarrow> ('s, 'o) VMStateField list \<Rightarrow> 's \<Rightarrow> 'o QEMUFile \<Rightarrow> qf_error + int \<times> 's \<times> 'o QEMUFile" where
  "load_fields version [] s f = Inr (0, s, f)"
| "load_fields version (field # flds) s f =
     (if (case field_exists field of Some ex \<Rightarrow> ex s version | None \<Rightarrow> vf_version field \<le> version)
      then bindR (load_elems (elem_get field) [0 ..< n_elems field s] s f)
             (\<lambda>(ret, s', f'). if ret < 0 then Inr (ret, s', f') else load_fields version flds s' f')
      else load_fields version flds s f)"

definition vmstate_load_state ::
  "('s, 'o) VMStateDescription \<Rightarrow> 's \<Rightarrow> int \<Rightarrow> 'o QEMUFile \<Rightarrow> qf_error + int \<times> 's \<times> 'o QEMUFile" where
  "vmstate_load_state vmsd s version f =
     (if vmsd_version vmsd < version then Inr (- EINVAL, s, f)
      else if version < minimum_version_id_old vmsd then Inr (- EINVAL, s, f)
      else if version < minimum_version_id vmsd
      then (case load_state_old vmsd of None \<Rightarrow> Inl NullCall | Some old \<Rightarrow> old s version f)
      else let (ret, s1) = (case pre_load vmsd of None \<Rightarrow> (0, s) | Some pre \<Rightarrow> pre s)
           in if ret \<noteq> 0 then Inr (ret, s1, f)
              else bindR (load_fields version (vmsd_fields vmsd) s1 f) (\<lambda>(ret, s2, f').
                     if ret < 0 then Inr (ret, s2, f')
                     else (case post_load vmsd of
                             None \<Rightarrow> Inr (0, s2, f')
                           | Some post \<Rightarrow> (let (r, s3) = post s2 version in Inr (r, s3, f')))))"

fun save_elems ::
  "(nat \<Rightarrow> 's \<Rightarrow> 'o QEMUFile \<Rightarrow> qf_error + 'o QEMUFile) \<Rightarrow> nat list \<Rightarrow> 's \<Rightarrow> 'o QEMUFile \<Rightarrow> qf_error + 'o QEMUFile" where
  "save_elems put [] s f = Inr f"
| "save_elems put (i # is) s f = bindR (put i s f) (save_elems put is s)"

fun save_fields ::
  "int \<Rightarrow> ('s, 'o) VMStateField list \<Rightarrow> 's \<Rightarrow> 'o QEMUFile \<Rightarrow> qf_error + 'o QEMUFile" where
  "save_fields version [] s f = Inr f"
| "save_fields version (field # flds) s f =
     (if (case field_exists field of Some ex \<Rightarrow> ex s version | None \<Rightarrow> True)
      then bindR (save_elems (elem_put field) [0 ..< n_elems field s] s f) (save_fields version flds s)
      else save_fields version flds s f)"

definition vmstate_save_state ::
  "('s, 'o) VMStateDescription \<Rightarrow> 's \<Rightarrow> 'o QEMUFile \<Rightarrow> qf_error + 's \<times> 'o QEMUFile" where
  "vmstate_save_state vmsd s f =
     (let s1 = (case pre_save vmsd of None \<Rightarrow> s | Some pre \<Rightarrow> pre s)
      in bindR (save_fields (vmsd_version vmsd) (vmsd_fields vmsd) s1 f)
           (\<lambda>f'. Inr (case post_save vmsd of None \<Rightarrow> s1 | Some post \<Rightarrow> post s1, f')))"

text \<open>The fields the macros of \<^verbatim>\<open>hw.h\<close> build: single values, arrays, nested structures.\<close>

definition single_field ::
  "string \<Rightarrow> int \<Rightarrow> ('v \<Rightarrow> 'o QEMUFile \<Rightarrow> qf_error + int \<times> 'v \<times> 'o QEMUFile) \<Rightarrow>
   ('v \<Rightarrow> 'o QEMUFile \<Rightarrow> qf_error + 'o QEMUFile) \<Rightarrow> ('s \<Rightarrow> 'v) \<Rightarrow> ('v \<Rightarrow> 's \<Rightarrow> 's) \<Rightarrow> ('s, 'o) VMStateField" where
  "single_field nm ver get put rd wr =
     \<lparr>vf_name = nm, vf_version = ver, field_exists = None, n_elems = (\<lambda>_. 1),
      elem_get = (\<lambda>_ s f. bindR (get (rd s) f) (\<lambda>(r, v, f'). Inr (r, wr v s, f'))),
      elem_put = (\<lambda>_ s f. put (rd s) f)\<rparr>"

definition array_field ::
  "string \<Rightarrow> int \<Rightarrow> nat \<Rightarrow> ('v \<Rightarrow> 'o QEMUFile \<Rightarrow> qf_error + int \<times> 'v \<times> 'o QEMUFile) \<Rightarrow>
   ('v \<Rightarrow> 'o QEMUFile \<Rightarrow> qf_error + 'o QEMUFile) \<Rightarrow> ('s \<Rightarrow> 'v list) \<Rightarrow> ('v list \<Rightarrow> 's \<Rightarrow> 's) \<Rightarrow> ('s, 'o) VMStateField" where
  "array_field nm ver num get put rd wr =
     \<lparr>vf_name = nm, vf_version = ver, field_exists = None, n_elems = (\<lambda>_. num),
      elem_get = (\<lambda>i s f. bindR (get (rd s ! i) f) (\<lambda>(r, v, f'). Inr (r, wr ((rd s)[i := v]) s, f'))),
      elem_put = (\<lambda>i s f. put (rd s ! i) f)\<rparr>"

definition struct_get :: "('v, 'o) VMStateDescription \<Rightarrow> 'v \<Rightarrow> 'o QEMUFile \<Rightarrow> qf_error + int \<times> 'v \<times> 'o QEMUFile" where
  "struct_get vmsd v f = vmstate_load_state vmsd v (vmsd_version vmsd) f"

definition struct_put :: "('v, 'o) VMStateDescription \<Rightarrow> 'v \<Rightarrow> 'o QEMUFile \<Rightarrow> qf_error + 'o QEMUFile" where
  "struct_put vmsd v f = bindR (vmstate_save_state vmsd v f) (\<lambda>(_, f'). Inr f')"

definition VMSTATE_SINGLE ::
  "string \<Rightarrow> int \<Rightarrow> ('v, 'o) VMStateInfo \<Rightarrow> ('s \<Rightarrow> 'v) \<Rightarrow> ('v \<Rightarrow> 's \<Rightarrow> 's) \<Rightarrow> ('s, 'o) VMStateField" where
  "VMSTATE_SINGLE nm ver info rd wr = single_field nm ver (info_get info) (info_put info) rd wr"

definition VMSTATE_ARRAY ::
  "string \<Rightarrow> int \<Rightarrow> nat \<Rightarrow> ('v, 'o) VMStateInfo \<Rightarrow> ('s \<Rightarrow> 'v list) \<Rightarrow> ('v list \<Rightarrow> 's \<Rightarrow> 's) \<Rightarrow> ('s, 'o) VMStateField" where
  "VMSTATE_ARRAY nm ver num info rd wr = array_field nm ver num (info_get info) (info_put info) rd wr"

definition VMSTATE_STRUCT ::
  "string \<Rightarrow> int \<Rightarrow> ('v, 'o) VMStateDescription \<Rightarrow> ('s \<Rightarrow> 'v) \<Rightarrow> ('v \<Rightarrow> 's \<Rightarrow> 's) \<Rightarrow> ('s, 'o) VMStateField" where
  "VMSTATE_STRUCT nm ver vmsd rd wr = single_field nm ver (struct_get vmsd) (struct_put vmsd) rd wr"

definition VMSTATE_STRUCT_ARRAY ::
  "string \<Rightarrow> int \<Rightarrow> nat \<Rightarrow> ('v, 'o) VMStateDescription \<Rightarrow> ('s \<Rightarrow> 'v list) \<Rightarrow> ('v list \<Rightarrow> 's \<Rightarrow> 's) \<Rightarrow>
   ('s, 'o) VMStateField" where
  "VMSTATE_STRUCT_ARRAY nm ver num vmsd rd wr = array_field nm ver num (struct_get vmsd) (struct_put vmsd) rd wr"

text \<open>The macros for the integer types, with a version and without (version 0).\<close>

definition VMSTATE_INT8_V :: "string \<Rightarrow> ('s \<Rightarrow> byte) \<Rightarrow> (byte \<Rightarrow> 's \<Rightarrow> 's) \<Rightarrow> int \<Rightarrow> ('s, 'o) VMStateField" where
  "VMSTATE_INT8_V nm rd wr ver = VMSTATE_SINGLE nm ver vmstate_info_int8 rd wr"

definition VMSTATE_INT16_V :: "string \<Rightarrow> ('s \<Rightarrow> u16) \<Rightarrow> (u16 \<Rightarrow> 's \<Rightarrow> 's) \<Rightarrow> int \<Rightarrow> ('s, 'o) VMStateField" where
  "VMSTATE_INT16_V nm rd wr ver = VMSTATE_SINGLE nm ver vmstate_info_int16 rd wr"

definition VMSTATE_INT32_V :: "string \<Rightarrow> ('s \<Rightarrow> u32) \<Rightarrow> (u32 \<Rightarrow> 's \<Rightarrow> 's) \<Rightarrow> int \<Rightarrow> ('s, 'o) VMStateField" where
  "VMSTATE_INT32_V nm rd wr ver = VMSTATE_SINGLE nm ver vmstate_info_int32 rd wr"

definition VMSTATE_INT64_V :: "string \<Rightarrow> ('s \<Rightarrow> u64) \<Rightarrow> (u64 \<Rightarrow> 's \<Rightarrow> 's) \<Rightarrow> int \<Rightarrow> ('s, 'o) VMStateField" where
  "VMSTATE_INT64_V nm rd wr ver = VMSTATE_SINGLE nm ver vmstate_info_int64 rd wr"

definition VMSTATE_UINT8_V :: "string \<Rightarrow> ('s \<Rightarrow> byte) \<Rightarrow> (byte \<Rightarrow> 's \<Rightarrow> 's) \<Rightarrow> int \<Rightarrow> ('s, 'o) VMStateField" where
  "VMSTATE_UINT8_V nm rd wr ver = VMSTATE_SINGLE nm ver vmstate_info_uint8 rd wr"

definition VMSTATE_UINT16_V :: "string \<Rightarrow> ('s \<Rightarrow> u16) \<Rightarrow> (u16 \<Rightarrow> 's \<Rightarrow> 's) \<Rightarrow> int \<Rightarrow> ('s, 'o) VMStateField" where
  "VMSTATE_UINT16_V nm rd wr ver = VMSTATE_SINGLE nm ver vmstate_info_uint16 rd wr"

definition VMSTATE_UINT32_V :: "string \<Rightarrow> ('s \<Rightarrow> u32) \<Rightarrow> (u32 \<Rightarrow> 's \<Rightarrow> 's) \<Rightarrow> int \<Rightarrow> ('s, 'o) VMStateField" where
  "VMSTATE_UINT32_V nm rd wr ver = VMSTATE_SINGLE nm ver vmstate_info_uint32 rd wr"

definition VMSTATE_UINT64_V :: "string \<Rightarrow> ('s \<Rightarrow> u64) \<Rightarrow> (u64 \<Rightarrow> 's \<Rightarrow> 's) \<Rightarrow> int \<Rightarrow> ('s, 'o) VMStateField" where
  "VMSTATE_UINT64_V nm rd wr ver = VMSTATE_SINGLE nm ver vmstate_info_uint64 rd wr"

definition VMSTATE_INT8 :: "string \<Rightarrow> ('s \<Rightarrow> byte) \<Rightarrow> (byte \<Rightarrow> 's \<Rightarrow> 's) \<Rightarrow> ('s, 'o) VMStateField" where
  "VMSTATE_INT8 nm rd wr = VMSTATE_INT8_V nm rd wr 0"

definition VMSTATE_INT16 :: "string \<Rightarrow> ('s \<Rightarrow> u16) \<Rightarrow> (u16 \<Rightarrow> 's \<Rightarrow> 's) \<Rightarrow> ('s, 'o) VMStateField" where
  "VMSTATE_INT16 nm rd wr = VMSTATE_INT16_V nm rd wr 0"

definition VMSTATE_INT32 :: "string \<Rightarrow> ('s \<Rightarrow> u32) \<Rightarrow> (u32 \<Rightarrow> 's \<Rightarrow> 's) \<Rightarrow> ('s, 'o) VMStateField" where
  "VMSTATE_INT32 nm rd wr = VMSTATE_INT32_V nm rd wr 0"

definition VMSTATE_INT64 :: "string \<Rightarrow> ('s \<Rightarrow> u64) \<Rightarrow> (u64 \<Rightarrow> 's \<Rightarrow> 's) \<Rightarrow> ('s, 'o) VMStateField" where
  "VMSTATE_INT64 nm rd wr = VMSTATE_INT64_V nm rd wr 0"

definition VMSTATE_UINT8 :: "string \<Rightarrow> ('s \<Rightarrow> byte) \<Rightarrow> (byte \<Rightarrow> 's \<Rightarrow> 's) \<Rightarrow> ('s, 'o) VMStateField" where
  "VMSTATE_UINT8 nm rd wr = VMSTATE_UINT8_V nm rd wr 0"

definition VMSTATE_UINT16 :: "string \<Rightarrow> ('s \<Rightarrow> u16) \<Rightarrow> (u16 \<Rightarrow> 's \<Rightarrow> 's) \<Rightarrow> ('s, 'o) VMStateField" where
  "VMSTATE_UINT16 nm rd wr = VMSTATE_UINT16_V nm rd wr 0"

definition VMSTATE_UINT32 :: "string \<Rightarrow> ('s \<Rightarrow> u32) \<Rightarrow> (u32 \<Rightarrow> 's \<Rightarrow> 's) \<Rightarrow> ('s, 'o) VMStateField" where
  "VMSTATE_UINT32 nm rd wr = VMSTATE_UINT32_V nm rd wr 0"

definition VMSTATE_UINT64 :: "string \<Rightarrow> ('s \<Rightarrow> u64) \<Rightarrow> (u64 \<Rightarrow> 's \<Rightarrow> 's) \<Rightarrow> ('s, 'o) VMStateField" where
  "VMSTATE_UINT64 nm rd wr = VMSTATE_UINT64_V nm rd wr 0"

definition VMSTATE_TIMER :: "string \<Rightarrow> ('s \<Rightarrow> timer) \<Rightarrow> (timer \<Rightarrow> 's \<Rightarrow> 's) \<Rightarrow> ('s, 'o) VMStateField" where
  "VMSTATE_TIMER nm rd wr = VMSTATE_SINGLE nm 0 vmstate_info_timer rd wr"

definition VMSTATE_BUFFER :: "string \<Rightarrow> nat \<Rightarrow> ('s \<Rightarrow> byte list) \<Rightarrow> (byte list \<Rightarrow> 's \<Rightarrow> 's) \<Rightarrow> ('s, 'o) VMStateField" where
  "VMSTATE_BUFFER nm sz rd wr = VMSTATE_SINGLE nm 0 (vmstate_info_buffer sz) rd wr"

section \<open>Fields that survive a save and a load\<close>

text \<open>
  A field is a codec when saving it appends an encoding of the state and loading that encoding
  into another state copies the field there.  \<open>R s t\<close> relates the state that was saved to the
  one that is being loaded.
\<close>

definition field_codec ::
  "('s \<Rightarrow> 's \<Rightarrow> bool) \<Rightarrow> ('s, FILE) VMStateField \<Rightarrow> ('s \<Rightarrow> byte list) \<Rightarrow> ('s \<Rightarrow> 's \<Rightarrow> 's) \<Rightarrow> bool" where
  "field_codec R fld enc cp \<longleftrightarrow> field_exists fld = None \<and>
     (\<forall>s t f bs. R s t \<longrightarrow> fout.Writes f bs \<longrightarrow>
        (\<exists>f'. save_elems (elem_put fld) [0 ..< n_elems fld s] s f = Inr f' \<and> fout.Writes f' (bs @ enc s) \<and>
              close_fn f' = close_fn f)) \<and>
     (\<forall>s t f bs. R s t \<longrightarrow> fin.Reads f (enc s @ bs) \<longrightarrow>
        (\<exists>f'. load_elems (elem_get fld) [0 ..< n_elems fld t] t f = Inr (0, cp s t, f') \<and> fin.Reads f' bs \<and>
              has_error f' = has_error f)) \<and>
     (\<forall>s t. R s t \<longrightarrow> R s (cp s t))"

text \<open>The contract of a getter and a putter of values.\<close>

locale value_codec =
  fixes get :: "'v \<Rightarrow> FILE QEMUFile \<Rightarrow> qf_error + int \<times> 'v \<times> FILE QEMUFile"
    and put :: "'v \<Rightarrow> FILE QEMUFile \<Rightarrow> qf_error + FILE QEMUFile"
    and enc :: "'v \<Rightarrow> byte list"
    and cpv :: "'v \<Rightarrow> 'v \<Rightarrow> 'v"
    and okv :: "'v \<Rightarrow> 'v \<Rightarrow> bool"
  assumes put_enc: "okv v old \<Longrightarrow> fout.Writes f bs \<Longrightarrow>
      \<exists>f'. put v f = Inr f' \<and> fout.Writes f' (bs @ enc v) \<and> close_fn f' = close_fn f"
    and get_enc: "okv v old \<Longrightarrow> fin.Reads f (enc v @ bs) \<Longrightarrow>
      \<exists>f'. get old f = Inr (0, cpv v old, f') \<and> fin.Reads f' bs \<and> has_error f' = has_error f"
begin

lemma single_codec:
  assumes "\<And>s t. R s t \<Longrightarrow> okv (rd s) (rd t)" and "\<And>s t. R s t \<Longrightarrow> R s (wr (cpv (rd s) (rd t)) t)"
  shows "field_codec R (single_field nm ver get put rd wr) (\<lambda>s. enc (rd s)) (\<lambda>s t. wr (cpv (rd s) (rd t)) t)"
  unfolding field_codec_def
proof (intro conjI allI impI)
  fix s t f bs
  assume "R s t" "fout.Writes f bs"
  from put_enc [OF assms(1) [OF this(1)] this(2)]
  show "\<exists>f'. save_elems (elem_put (single_field nm ver get put rd wr)) [0 ..< n_elems (single_field nm ver get put rd wr) s] s f
      = Inr f' \<and> fout.Writes f' (bs @ enc (rd s)) \<and> close_fn f' = close_fn f"
    by (auto simp: single_field_def)
next
  fix s t f bs
  assume "R s t" "fin.Reads f (enc (rd s) @ bs)"
  from get_enc [OF assms(1) [OF this(1)] this(2)]
  show "\<exists>f'. load_elems (elem_get (single_field nm ver get put rd wr)) [0 ..< n_elems (single_field nm ver get put rd wr) t] t f
      = Inr (0, wr (cpv (rd s) (rd t)) t, f') \<and> fin.Reads f' bs \<and> has_error f' = has_error f"
    by (auto simp: single_field_def)
qed (use assms(2) in \<open>simp_all add: single_field_def\<close>)

end

text \<open>An array is saved element by element; loading replaces a prefix of the target's array.\<close>

context value_codec
begin

lemma save_array:
  assumes "list_all2 okv vs ws" and "rd s = xs @ vs" and "fout.Writes f bs"
  shows "\<exists>f'. save_elems (\<lambda>i s f. put (rd s ! i) f) [length xs ..< length (xs @ vs)] s f = Inr f' \<and>
    fout.Writes f' (bs @ concat (map enc vs)) \<and> close_fn f' = close_fn f"
  using assms
proof (induction vs arbitrary: xs ws f bs)
  case (Cons v vs)
  then obtain w ws' where ws: "okv v w" "list_all2 okv vs ws'"
    by (auto simp: list_all2_Cons1)
  obtain f1 where f1: "put v f = Inr f1" "fout.Writes f1 (bs @ enc v)" "close_fn f1 = close_fn f"
    using put_enc [OF ws(1) Cons.prems(3)] by blast
  have "rd s = (xs @ [v]) @ vs" using Cons.prems(2) by simp
  from Cons.IH [OF ws(2) this f1(2)] obtain f' where
    "save_elems (\<lambda>i s f. put (rd s ! i) f) [length (xs @ [v]) ..< length ((xs @ [v]) @ vs)] s f1 = Inr f'"
    "fout.Writes f' ((bs @ enc v) @ concat (map enc vs))" "close_fn f' = close_fn f1" by blast
  moreover have "[length xs ..< length (xs @ v # vs)] = length xs # [length (xs @ [v]) ..< length ((xs @ [v]) @ vs)]"
    by (simp add: upt_conv_Cons del: upt_Suc)
  ultimately show ?case using f1 Cons.prems(2) by simp
qed simp

lemma load_array:
  assumes "list_all2 okv vs ws" and "rd t = xs @ ws" and "fin.Reads f (concat (map enc vs) @ bs)"
    and lens: "\<And>x t. rd (wr x t) = x" "\<And>x y t. wr x (wr y t) = wr x t" "\<And>t. wr (rd t) t = t"
  shows "\<exists>f'. load_elems (\<lambda>i s f. bindR (get (rd s ! i) f) (\<lambda>(r, v, f'). Inr (r, wr ((rd s)[i := v]) s, f')))
      [length xs ..< length (xs @ ws)] t f = Inr (0, wr (xs @ map2 cpv vs ws) t, f') \<and>
    fin.Reads f' bs \<and> has_error f' = has_error f"
  using assms(1-3)
proof (induction vs arbitrary: ws xs t f)
  case Nil
  then show ?case using lens(3) [of t] by simp
next
  case (Cons v vs)
  then obtain w ws' where ws: "ws = w # ws'" "okv v w" "list_all2 okv vs ws'"
    by (auto simp: list_all2_Cons1)
  obtain f1 where f1: "get w f = Inr (0, cpv v w, f1)" "fin.Reads f1 (concat (map enc vs) @ bs)" "has_error f1 = has_error f"
    using get_enc [OF ws(2)] Cons.prems(3) by fastforce
  let ?t1 = "wr ((rd t)[length xs := cpv v w]) t"
  let ?body = "\<lambda>i s f. bindR (get (rd s ! i) f) (\<lambda>(r, v, f'). Inr (r, wr ((rd s)[i := v]) s, f'))"
  have rd1: "rd ?t1 = (xs @ [cpv v w]) @ ws'" using Cons.prems(2) ws(1) by (simp add: lens)
  from Cons.IH [OF ws(3) rd1 f1(2)] obtain f' where f': "load_elems ?body [length (xs @ [cpv v w]) ..< length ((xs @ [cpv v w]) @ ws')] ?t1 f1
      = Inr (0, wr ((xs @ [cpv v w]) @ map2 cpv vs ws') ?t1, f')" "fin.Reads f' bs" "has_error f' = has_error f1" by blast
  have "[length xs ..< length (xs @ ws)] = length xs # [length (xs @ [cpv v w]) ..< length ((xs @ [cpv v w]) @ ws')]"
    using ws(1) by (simp add: upt_conv_Cons del: upt_Suc)
  moreover have "?body (length xs) t f = Inr (0, ?t1, f1)" using Cons.prems(2) ws(1) f1(1) by simp
  ultimately show ?case using f' f1(3) ws(1) by (simp add: lens(2))
qed

lemma array_codec:
  assumes "\<And>s t. R s t \<Longrightarrow> list_all2 okv (rd s) (rd t) \<and> length (rd s) = num"
    and "\<And>s t. R s t \<Longrightarrow> R s (wr (map2 cpv (rd s) (rd t)) t)"
    and lens: "\<And>x t. rd (wr x t) = x" "\<And>x y t. wr x (wr y t) = wr x t" "\<And>t. wr (rd t) t = t"
  shows "field_codec R (array_field nm ver num get put rd wr) (\<lambda>s. concat (map enc (rd s)))
    (\<lambda>s t. wr (map2 cpv (rd s) (rd t)) t)"
  unfolding field_codec_def
proof (intro conjI allI impI)
  fix s t f bs
  assume "R s t" "fout.Writes f bs"
  from save_array [of "rd s" "rd t" rd s "[]" f bs, OF _ _ this(2)] assms(1) [OF this(1)]
  show "\<exists>f'. save_elems (elem_put (array_field nm ver num get put rd wr)) [0 ..< n_elems (array_field nm ver num get put rd wr) s] s f
      = Inr f' \<and> fout.Writes f' (bs @ concat (map enc (rd s))) \<and> close_fn f' = close_fn f"
    by (auto simp: array_field_def)
next
  fix s t f bs
  assume "R s t" "fin.Reads f (concat (map enc (rd s)) @ bs)"
  from load_array [of "rd s" "rd t" rd t "[]" f bs wr, OF _ _ this(2) lens] assms(1) [OF this(1)]
  show "\<exists>f'. load_elems (elem_get (array_field nm ver num get put rd wr)) [0 ..< n_elems (array_field nm ver num get put rd wr) t] t f
      = Inr (0, wr (map2 cpv (rd s) (rd t)) t, f') \<and> fin.Reads f' bs \<and> has_error f' = has_error f"
    by (auto simp: array_field_def dest: list_all2_lengthD)
qed (use assms(2) in \<open>simp_all add: array_field_def\<close>)

end

lemma get_u16_reads:
  assumes "fin.Reads f (be16_bytes w @ bs)"
  shows "\<exists>f'. get_u16 f = Inr (ucast w, f') \<and> fin.Reads f' bs \<and> has_error f' = has_error f"
proof -
  have "ucast (take_bit 16 w) = (ucast w :: u16)" by (rule bit_eqI) (auto simp: bit_simps)
  then show ?thesis using fin.get_be16_reads [OF assms] by (auto simp: get_u16_def)
qed

lemma get_be32_item:
  "fin.Reads f (be32_bytes v @ bs) \<Longrightarrow> \<exists>f'. qemu_get_be32 f = Inr (v, f') \<and> fin.Reads f' bs \<and> has_error f' = has_error f"
  using fin.get_be32_reads [of f "be32_bytes v @ bs"] by auto

lemma get_be64_item:
  "fin.Reads f (be64_bytes v @ bs) \<Longrightarrow> \<exists>f'. qemu_get_be64 f = Inr (v, f') \<and> fin.Reads f' bs \<and> has_error f' = has_error f"
  using fin.get_be64_reads [of f "be64_bytes v @ bs"] by auto

lemma ucast_casts [simp]: "ucast (ucast (v :: u16) :: u32) = v" "ucast (scast (v :: u16) :: u32) = v"
  by (rule bit_eqI; auto simp: bit_simps)+

text \<open>The codecs that store what they read, and those that only compare.\<close>

lemma plain_codec:
  assumes "\<And>v f bs. fout.Writes f bs \<Longrightarrow> \<exists>f'. put v f = Inr f' \<and> fout.Writes f' (bs @ enc v) \<and> close_fn f' = close_fn f"
    and "\<And>v f bs. fin.Reads f (enc v @ bs) \<Longrightarrow> \<exists>f'. g f = Inr (v, f') \<and> fin.Reads f' bs \<and> has_error f' = has_error f"
  shows "value_codec (\<lambda>_ f. ok_value (g f)) put enc (\<lambda>v _. v) (\<lambda>_ _. True)"
proof
  fix v old :: 'a and f bs
  assume "fin.Reads f (enc v @ bs)"
  from assms(2) [OF this]
  show "\<exists>f'. ok_value (g f) = Inr (0, v, f') \<and> fin.Reads f' bs \<and> has_error f' = has_error f"
    by (auto simp: ok_value_def)
qed (rule assms(1))

lemma check_codec:
  assumes "\<And>v f bs. fout.Writes f bs \<Longrightarrow> \<exists>f'. put v f = Inr f' \<and> fout.Writes f' (bs @ enc v) \<and> close_fn f' = close_fn f"
    and "\<And>v f bs. fin.Reads f (enc v @ bs) \<Longrightarrow> \<exists>f'. g f = Inr (v, f') \<and> fin.Reads f' bs \<and> has_error f' = has_error f"
  shows "value_codec (\<lambda>old f. check_value ok old (g f)) put enc (\<lambda>_ old. old) (\<lambda>v old. ok old v)"
proof
  fix v old :: 'a and f bs
  assume "ok old v" "fin.Reads f (enc v @ bs)"
  from assms(2) [OF this(2)] this(1)
  show "\<exists>f'. check_value ok old (g f) = Inr (0, old, f') \<and> fin.Reads f' bs \<and> has_error f' = has_error f"
    by (auto simp: check_value_def)
qed (rule assms(1))

lemma put_byte_item:
  "fout.Writes f bs \<Longrightarrow> \<exists>f'. qemu_put_byte f v = Inr f' \<and> fout.Writes f' (bs @ [v]) \<and> close_fn f' = close_fn f"
  by (rule fout.put_byte_writes)

lemma get_byte_item:
  "fin.Reads f ([v] @ bs) \<Longrightarrow> \<exists>f'. qemu_get_byte f = Inr (v, f') \<and> fin.Reads f' bs \<and> has_error f' = has_error f"
  using fin.get_byte_reads [of f v bs] by simp

lemma get_u16_item:
  "fin.Reads f (be16_bytes (ucast v) @ bs) \<Longrightarrow> \<exists>f'. get_u16 f = Inr (v, f') \<and> fin.Reads f' bs \<and> has_error f' = has_error f"
  "fin.Reads f (be16_bytes (scast v) @ bs) \<Longrightarrow> \<exists>f'. get_u16 f = Inr (v, f') \<and> fin.Reads f' bs \<and> has_error f' = has_error f"
  using get_u16_reads [of f "ucast v" bs] get_u16_reads [of f "scast v" bs] by simp_all

lemma get_timer_item:
  assumes "v \<noteq> Some (- 1)" and "fin.Reads f (be64_bytes (case v of Some t \<Rightarrow> t | None \<Rightarrow> - 1) @ bs)"
  shows "\<exists>f'. qemu_get_timer f = Inr (v, f') \<and> fin.Reads f' bs \<and> has_error f' = has_error f"
  using get_be64_item [OF assms(2)] assms(1) by (auto simp: qemu_get_timer_def split: option.splits)

lemmas put_items_rules = put_byte_item fout.put_be16_writes fout.put_be32_writes fout.put_be64_writes
lemmas get_items_rules = get_byte_item get_u16_item get_be32_item get_be64_item

interpretation c_uint8: value_codec "info_get vmstate_info_uint8" "info_put vmstate_info_uint8"
  "\<lambda>v. [v]" "\<lambda>v _. v" "\<lambda>_ _. True"
  unfolding vmstate_info_uint8_def VMStateInfo.simps
  by (rule plain_codec) (erule put_items_rules get_items_rules)+

interpretation c_int8: value_codec "info_get vmstate_info_int8" "info_put vmstate_info_int8"
  "\<lambda>v. [v]" "\<lambda>v _. v" "\<lambda>_ _. True"
  unfolding vmstate_info_int8_def VMStateInfo.simps
  by (rule plain_codec) (erule put_items_rules get_items_rules)+

interpretation c_uint16: value_codec "info_get vmstate_info_uint16" "info_put vmstate_info_uint16"
  "\<lambda>v. be16_bytes (ucast v)" "\<lambda>v _. v" "\<lambda>_ _. True"
  unfolding vmstate_info_uint16_def VMStateInfo.simps
  by (rule plain_codec) (erule put_items_rules get_items_rules)+

interpretation c_int16: value_codec "info_get vmstate_info_int16" "info_put vmstate_info_int16"
  "\<lambda>v. be16_bytes (scast v)" "\<lambda>v _. v" "\<lambda>_ _. True"
  unfolding vmstate_info_int16_def VMStateInfo.simps
  by (rule plain_codec) (erule put_items_rules get_items_rules)+

interpretation c_uint32: value_codec "info_get vmstate_info_uint32" "info_put vmstate_info_uint32"
  be32_bytes "\<lambda>v _. v" "\<lambda>_ _. True"
  unfolding vmstate_info_uint32_def VMStateInfo.simps
  by (rule plain_codec) (erule put_items_rules get_items_rules)+

interpretation c_int32: value_codec "info_get vmstate_info_int32" "info_put vmstate_info_int32"
  be32_bytes "\<lambda>v _. v" "\<lambda>_ _. True"
  unfolding vmstate_info_int32_def VMStateInfo.simps
  by (rule plain_codec) (erule put_items_rules get_items_rules)+

interpretation c_uint64: value_codec "info_get vmstate_info_uint64" "info_put vmstate_info_uint64"
  be64_bytes "\<lambda>v _. v" "\<lambda>_ _. True"
  unfolding vmstate_info_uint64_def VMStateInfo.simps
  by (rule plain_codec) (erule put_items_rules get_items_rules)+

interpretation c_int64: value_codec "info_get vmstate_info_int64" "info_put vmstate_info_int64"
  be64_bytes "\<lambda>v _. v" "\<lambda>_ _. True"
  unfolding vmstate_info_int64_def VMStateInfo.simps
  by (rule plain_codec) (erule put_items_rules get_items_rules)+

interpretation c_int32_equal: value_codec "info_get vmstate_info_int32_equal" "info_put vmstate_info_int32_equal"
  be32_bytes "\<lambda>_ old. old" "\<lambda>v old. old = v"
  unfolding vmstate_info_int32_equal_def VMStateInfo.simps
  by (rule check_codec) (erule put_items_rules get_items_rules)+

interpretation c_int32_le: value_codec "info_get vmstate_info_int32_le" "info_put vmstate_info_int32_le"
  be32_bytes "\<lambda>_ old. old" "\<lambda>v old. sint old \<le> sint v"
  unfolding vmstate_info_int32_le_def VMStateInfo.simps
  by (rule check_codec) (erule put_items_rules get_items_rules)+

interpretation c_uint8_equal: value_codec "info_get vmstate_info_uint8_equal" "info_put vmstate_info_uint8_equal"
  "\<lambda>v. [v]" "\<lambda>_ old. old" "\<lambda>v old. old = v"
  unfolding vmstate_info_uint8_equal_def VMStateInfo.simps
  by (rule check_codec) (erule put_items_rules get_items_rules)+

interpretation c_uint16_equal: value_codec "info_get vmstate_info_uint16_equal" "info_put vmstate_info_uint16_equal"
  "\<lambda>v. be16_bytes (ucast v)" "\<lambda>_ old. old" "\<lambda>v old. old = v"
  unfolding vmstate_info_uint16_equal_def VMStateInfo.simps
  by (rule check_codec) (erule put_items_rules get_items_rules)+

interpretation c_timer: value_codec "info_get vmstate_info_timer" "info_put vmstate_info_timer"
  "\<lambda>ts. be64_bytes (case ts of Some t \<Rightarrow> t | None \<Rightarrow> - 1)" "\<lambda>v _. v" "\<lambda>v _. v \<noteq> Some (- 1)"
proof
  fix v old :: timer and f :: "FILE QEMUFile" and bs
  assume ok: "v \<noteq> Some (- 1)"
  let ?t = "case v of Some t \<Rightarrow> t | None \<Rightarrow> - 1"
  show "\<exists>f'. info_put vmstate_info_timer v f = Inr f' \<and> fout.Writes f' (bs @ be64_bytes ?t) \<and> close_fn f' = close_fn f"
    if "fout.Writes f bs"
    using fout.put_be64_writes [OF that] by (simp add: vmstate_info_timer_def qemu_put_timer_def)
  show "\<exists>f'. info_get vmstate_info_timer old f = Inr (0, v, f') \<and> fin.Reads f' bs \<and> has_error f' = has_error f"
    if "fin.Reads f (be64_bytes ?t @ bs)"
    using get_timer_item [OF ok that] by (auto simp: vmstate_info_timer_def ok_value_def)
qed

interpretation c_buffer: value_codec "info_get (vmstate_info_buffer sz)" "info_put (vmstate_info_buffer sz)"
  "\<lambda>v. v" "\<lambda>v _. v" "\<lambda>v old. length v = sz \<and> length old = sz" for sz
proof
  fix v old :: "byte list" and f :: "FILE QEMUFile" and bs
  assume ok: "length v = sz \<and> length old = sz"
  show "\<exists>f'. info_put (vmstate_info_buffer sz) v f = Inr f' \<and> fout.Writes f' (bs @ v) \<and> close_fn f' = close_fn f"
    if "fout.Writes f bs"
    using fout.put_buffer_writes [OF that, of v] ok by (simp add: vmstate_info_buffer_def)
  show "\<exists>f'. info_get (vmstate_info_buffer sz) old f = Inr (0, v, f') \<and> fin.Reads f' bs \<and> has_error f' = has_error f"
    if "fin.Reads f (v @ bs)"
    using fin.get_buffer_reads [OF that, of sz] ok by (auto simp: vmstate_info_buffer_def)
qed

text \<open>The codecs of the macros.\<close>

lemmas vm_macro_defs = VMSTATE_SINGLE_def VMSTATE_INT8_V_def VMSTATE_INT16_V_def VMSTATE_INT32_V_def VMSTATE_INT64_V_def
  VMSTATE_UINT8_V_def VMSTATE_UINT16_V_def VMSTATE_UINT32_V_def VMSTATE_UINT64_V_def
  VMSTATE_INT8_def VMSTATE_INT16_def VMSTATE_INT32_def VMSTATE_INT64_def
  VMSTATE_UINT8_def VMSTATE_UINT16_def VMSTATE_UINT32_def VMSTATE_UINT64_def VMSTATE_TIMER_def VMSTATE_BUFFER_def
  VMSTATE_ARRAY_def VMSTATE_STRUCT_def VMSTATE_STRUCT_ARRAY_def

lemma vf_version_simps [simp]:
  "vf_version (single_field nm ver g p rd wr) = ver" "vf_version (array_field nm ver n g q rd' wr') = ver"
  by (simp_all add: single_field_def array_field_def)

lemma int8_field_codec:
  assumes "\<And>s t. R s t \<Longrightarrow> R s (wr (rd s) t)"
  shows "field_codec R (VMSTATE_INT8_V nm rd wr ver) (\<lambda>s. [rd s]) (\<lambda>s t. wr (rd s) t)"
    "field_codec R (VMSTATE_INT8 nm rd wr) (\<lambda>s. [rd s]) (\<lambda>s t. wr (rd s) t)"
  unfolding vm_macro_defs using c_int8.single_codec [where R = R and rd = rd and wr = wr] assms by simp_all

lemma uint8_field_codec:
  assumes "\<And>s t. R s t \<Longrightarrow> R s (wr (rd s) t)"
  shows "field_codec R (VMSTATE_UINT8_V nm rd wr ver) (\<lambda>s. [rd s]) (\<lambda>s t. wr (rd s) t)"
    "field_codec R (VMSTATE_UINT8 nm rd wr) (\<lambda>s. [rd s]) (\<lambda>s t. wr (rd s) t)"
  unfolding vm_macro_defs using c_uint8.single_codec [where R = R and rd = rd and wr = wr] assms by simp_all

lemma int16_field_codec:
  assumes "\<And>s t. R s t \<Longrightarrow> R s (wr (rd s) t)"
  shows "field_codec R (VMSTATE_INT16_V nm rd wr ver) (\<lambda>s. be16_bytes (scast (rd s))) (\<lambda>s t. wr (rd s) t)"
    "field_codec R (VMSTATE_INT16 nm rd wr) (\<lambda>s. be16_bytes (scast (rd s))) (\<lambda>s t. wr (rd s) t)"
  unfolding vm_macro_defs using c_int16.single_codec [where R = R and rd = rd and wr = wr] assms by simp_all

lemma uint16_field_codec:
  assumes "\<And>s t. R s t \<Longrightarrow> R s (wr (rd s) t)"
  shows "field_codec R (VMSTATE_UINT16_V nm rd wr ver) (\<lambda>s. be16_bytes (ucast (rd s))) (\<lambda>s t. wr (rd s) t)"
    "field_codec R (VMSTATE_UINT16 nm rd wr) (\<lambda>s. be16_bytes (ucast (rd s))) (\<lambda>s t. wr (rd s) t)"
  unfolding vm_macro_defs using c_uint16.single_codec [where R = R and rd = rd and wr = wr] assms by simp_all

lemma int32_field_codec:
  assumes "\<And>s t. R s t \<Longrightarrow> R s (wr (rd s) t)"
  shows "field_codec R (VMSTATE_INT32_V nm rd wr ver) (\<lambda>s. be32_bytes (rd s)) (\<lambda>s t. wr (rd s) t)"
    "field_codec R (VMSTATE_INT32 nm rd wr) (\<lambda>s. be32_bytes (rd s)) (\<lambda>s t. wr (rd s) t)"
  unfolding vm_macro_defs using c_int32.single_codec [where R = R and rd = rd and wr = wr] assms by simp_all

lemma uint32_field_codec:
  assumes "\<And>s t. R s t \<Longrightarrow> R s (wr (rd s) t)"
  shows "field_codec R (VMSTATE_UINT32_V nm rd wr ver) (\<lambda>s. be32_bytes (rd s)) (\<lambda>s t. wr (rd s) t)"
    "field_codec R (VMSTATE_UINT32 nm rd wr) (\<lambda>s. be32_bytes (rd s)) (\<lambda>s t. wr (rd s) t)"
  unfolding vm_macro_defs using c_uint32.single_codec [where R = R and rd = rd and wr = wr] assms by simp_all

lemma int64_field_codec:
  assumes "\<And>s t. R s t \<Longrightarrow> R s (wr (rd s) t)"
  shows "field_codec R (VMSTATE_INT64_V nm rd wr ver) (\<lambda>s. be64_bytes (rd s)) (\<lambda>s t. wr (rd s) t)"
    "field_codec R (VMSTATE_INT64 nm rd wr) (\<lambda>s. be64_bytes (rd s)) (\<lambda>s t. wr (rd s) t)"
  unfolding vm_macro_defs using c_int64.single_codec [where R = R and rd = rd and wr = wr] assms by simp_all

lemma uint64_field_codec:
  assumes "\<And>s t. R s t \<Longrightarrow> R s (wr (rd s) t)"
  shows "field_codec R (VMSTATE_UINT64_V nm rd wr ver) (\<lambda>s. be64_bytes (rd s)) (\<lambda>s t. wr (rd s) t)"
    "field_codec R (VMSTATE_UINT64 nm rd wr) (\<lambda>s. be64_bytes (rd s)) (\<lambda>s t. wr (rd s) t)"
  unfolding vm_macro_defs using c_uint64.single_codec [where R = R and rd = rd and wr = wr] assms by simp_all

lemma timer_field_codec:
  assumes "\<And>s t. R s t \<Longrightarrow> rd s \<noteq> Some (- 1)" and "\<And>s t. R s t \<Longrightarrow> R s (wr (rd s) t)"
  shows "field_codec R (VMSTATE_TIMER nm rd wr) (\<lambda>s. be64_bytes (case rd s of Some t \<Rightarrow> t | None \<Rightarrow> - 1)) (\<lambda>s t. wr (rd s) t)"
  unfolding vm_macro_defs using c_timer.single_codec [where R = R and rd = rd and wr = wr] assms by simp

lemma buffer_field_codec:
  assumes "\<And>s t. R s t \<Longrightarrow> length (rd s) = sz \<and> length (rd t) = sz" and "\<And>s t. R s t \<Longrightarrow> R s (wr (rd s) t)"
  shows "field_codec R (VMSTATE_BUFFER nm sz rd wr) rd (\<lambda>s t. wr (rd s) t)"
  unfolding vm_macro_defs using c_buffer.single_codec [where R = R and rd = rd and wr = wr] assms by simp

lemmas vm_codecs = int8_field_codec int16_field_codec int32_field_codec int64_field_codec
  uint8_field_codec uint16_field_codec uint32_field_codec uint64_field_codec timer_field_codec buffer_field_codec

section \<open>Descriptions that survive a save and a load\<close>

type_synonym 's codec = "('s \<Rightarrow> byte list) \<times> ('s \<Rightarrow> 's \<Rightarrow> 's)"

definition enc_all :: "'s codec list \<Rightarrow> 's \<Rightarrow> byte list" where
  "enc_all cs s = concat (map (\<lambda>c. fst c s) cs)"

definition cp_all :: "'s codec list \<Rightarrow> 's \<Rightarrow> 's \<Rightarrow> 's" where
  "cp_all cs s t = fold (\<lambda>c t. snd c s t) cs t"

lemma codec_all_simps [simp]:
  "enc_all [] s = []" "enc_all ((enc, cp) # cs) s = enc s @ enc_all cs s"
  "cp_all [] s t = t" "cp_all ((enc, cp) # cs) s t = cp_all cs s (cp s t)"
  by (simp_all add: enc_all_def cp_all_def)

text \<open>The codec of a single field, and the fields that restore their value from any state.\<close>

definition cp_field :: "('v \<Rightarrow> byte list) \<Rightarrow> ('s \<Rightarrow> 'v) \<Rightarrow> ('v \<Rightarrow> 's \<Rightarrow> 's) \<Rightarrow> 's codec" where
  "cp_field enc rd wr = (\<lambda>s. enc (rd s), \<lambda>s t. wr (rd s) t)"

lemma cp_field_simps [simp]: "fst (cp_field enc rd wr) s = enc (rd s)" "snd (cp_field enc rd wr) s t = wr (rd s) t"
  by (simp_all add: cp_field_def)

lemma field_codecs:
  "(\<And>s t. R s t \<Longrightarrow> R s (wr32 (rd32 s) t)) \<Longrightarrow> field_codec R (VMSTATE_INT32_V nm rd32 wr32 ver) (fst (cp_field be32_bytes rd32 wr32)) (snd (cp_field be32_bytes rd32 wr32))"
  "(\<And>s t. R s t \<Longrightarrow> R s (wr8 (rd8 s) t)) \<Longrightarrow> field_codec R (VMSTATE_UINT8 nm rd8 wr8)
     (fst (cp_field (\<lambda>v. [v]) rd8 wr8)) (snd (cp_field (\<lambda>v. [v]) rd8 wr8))"
  "(\<And>s t. R s t \<Longrightarrow> R s (wr16 (rd16 s) t)) \<Longrightarrow> field_codec R (VMSTATE_UINT16 nm rd16 wr16)
     (fst (cp_field (\<lambda>v. be16_bytes (ucast v)) rd16 wr16)) (snd (cp_field (\<lambda>v. be16_bytes (ucast v)) rd16 wr16))"
  "(\<And>s t. R s t \<Longrightarrow> R s (wr32 (rd32 s) t)) \<Longrightarrow> field_codec R (VMSTATE_UINT32 nm rd32 wr32)
     (fst (cp_field be32_bytes rd32 wr32)) (snd (cp_field be32_bytes rd32 wr32))"
  "(\<And>s t. R s t \<Longrightarrow> R s (wr32 (rd32 s) t)) \<Longrightarrow> field_codec R (VMSTATE_INT32 nm rd32 wr32)
     (fst (cp_field be32_bytes rd32 wr32)) (snd (cp_field be32_bytes rd32 wr32))"
  "(\<And>s t. R s t \<Longrightarrow> R s (wr64 (rd64 s) t)) \<Longrightarrow> field_codec R (VMSTATE_UINT64 nm rd64 wr64)
     (fst (cp_field be64_bytes rd64 wr64)) (snd (cp_field be64_bytes rd64 wr64))"
  "(\<And>s t. R s t \<Longrightarrow> R s (wr64 (rd64 s) t)) \<Longrightarrow> field_codec R (VMSTATE_INT64 nm rd64 wr64)
     (fst (cp_field be64_bytes rd64 wr64)) (snd (cp_field be64_bytes rd64 wr64))"
  unfolding cp_field_def fst_conv snd_conv by (rule vm_codecs; simp)+

lemmas any_field_codecs = field_codecs [where R = "\<lambda>_ _. True", OF TrueI]

lemma macro_versions [simp]:
  "vf_version (VMSTATE_UINT8 nm rd8 wr8) = 0" "vf_version (VMSTATE_UINT16 nm rd16 wr16) = 0"
  "vf_version (VMSTATE_UINT32 nm rd32 wr32) = 0" "vf_version (VMSTATE_INT32 nm rd32 wr32) = 0"
  "vf_version (VMSTATE_UINT64 nm rd64 wr64) = 0" "vf_version (VMSTATE_INT64 nm rd64 wr64) = 0"
  "vf_version (VMSTATE_TIMER nm rdt wrt) = 0" "vf_version (VMSTATE_BUFFER nm sz rdb wrb) = 0"
  "vf_version (VMSTATE_INT32_V nm rd32 wr32 ver) = ver" "vf_version (VMSTATE_STRUCT nm ver vmsd rdc wrc) = ver"
  "vf_version (VMSTATE_STRUCT_ARRAY nm ver num vmsd rds wrs) = ver"
  by (simp_all add: vm_macro_defs)

definition fields_codec :: "('s \<Rightarrow> 's \<Rightarrow> bool) \<Rightarrow> int \<Rightarrow> ('s, FILE) VMStateField list \<Rightarrow> 's codec list \<Rightarrow> bool" where
  "fields_codec R ver flds cs \<longleftrightarrow> list_all2 (\<lambda>fld c. field_codec R fld (fst c) (snd c) \<and> vf_version fld \<le> ver) flds cs"

lemma fields_codec_simps [simp]:
  "fields_codec R ver [] []"
  "fields_codec R ver (fld # flds) ((enc, cp) # cs) \<longleftrightarrow>
     field_codec R fld enc cp \<and> vf_version fld \<le> ver \<and> fields_codec R ver flds cs"
  by (simp_all add: fields_codec_def)

lemma save_fields_codec:
  assumes "fields_codec R ver flds cs" and "R s t" and "fout.Writes f bs"
  shows "\<exists>f'. save_fields v flds s f = Inr f' \<and> fout.Writes f' (bs @ enc_all cs s) \<and> close_fn f' = close_fn f"
  using assms unfolding fields_codec_def
proof (induction flds cs arbitrary: f bs rule: list_all2_induct)
  case (Cons fld flds c cs)
  obtain enc cp where c: "c = (enc, cp)" by (cases c)
  have codec: "field_codec R fld enc cp" using Cons.hyps(1) c by simp
  then obtain f1 where f1: "save_elems (elem_put fld) [0 ..< n_elems fld s] s f = Inr f1" "fout.Writes f1 (bs @ enc s)"
    "close_fn f1 = close_fn f"
    using Cons.prems unfolding field_codec_def by blast
  have "field_exists fld = None" using codec by (simp add: field_codec_def)
  with Cons.IH [OF Cons.prems(1) f1(2)] f1 c show ?case by auto
qed simp

lemma load_fields_codec:
  assumes "fields_codec R ver flds cs" and "R s t" and "fin.Reads f (enc_all cs s @ bs)"
  shows "\<exists>f'. load_fields ver flds t f = Inr (0, cp_all cs s t, f') \<and> fin.Reads f' bs \<and>
    has_error f' = has_error f \<and> R s (cp_all cs s t)"
  using assms unfolding fields_codec_def
proof (induction flds cs arbitrary: f t rule: list_all2_induct)
  case (Cons fld flds c cs)
  obtain enc cp where c: "c = (enc, cp)" by (cases c)
  have codec: "field_codec R fld enc cp" "vf_version fld \<le> ver" using Cons.hyps(1) c by simp_all
  have "fin.Reads f (enc s @ (enc_all cs s @ bs))" using Cons.prems(2) c by simp
  then obtain f1 where f1: "load_elems (elem_get fld) [0 ..< n_elems fld t] t f = Inr (0, cp s t, f1)"
    "fin.Reads f1 (enc_all cs s @ bs)" "has_error f1 = has_error f"
    using codec Cons.prems(1) unfolding field_codec_def by blast
  have "field_exists fld = None" "R s (cp s t)" using codec Cons.prems(1) by (simp_all add: field_codec_def)
  with Cons.IH [OF _ f1(2), of "cp s t"] f1 c codec(2) show ?case by auto
qed simp

text \<open>A description without hooks: its own load and save are again a codec.\<close>

definition plain_vmsd :: "('s, 'o) VMStateDescription \<Rightarrow> bool" where
  "plain_vmsd vmsd \<longleftrightarrow> minimum_version_id vmsd \<le> vmsd_version vmsd \<and> minimum_version_id_old vmsd \<le> vmsd_version vmsd \<and>
     pre_load vmsd = None \<and> post_load vmsd = None \<and> pre_save vmsd = None \<and> post_save vmsd = None"

lemma struct_codec:
  assumes "fields_codec R (vmsd_version vmsd) (vmsd_fields vmsd) cs" and "plain_vmsd vmsd"
  shows "value_codec (struct_get vmsd) (struct_put vmsd) (enc_all cs) (cp_all cs) R"
proof
  fix s t :: 'a and f bs
  assume R: "R s t"
  show "\<exists>f'. struct_put vmsd s f = Inr f' \<and> fout.Writes f' (bs @ enc_all cs s) \<and> close_fn f' = close_fn f"
    if "fout.Writes f bs"
    using save_fields_codec [OF assms(1) R that, of "vmsd_version vmsd"] assms(2)
    by (auto simp: struct_put_def vmstate_save_state_def plain_vmsd_def)
  show "\<exists>f'. struct_get vmsd t f = Inr (0, cp_all cs s t, f') \<and> fin.Reads f' bs \<and> has_error f' = has_error f"
    if "fin.Reads f (enc_all cs s @ bs)"
    using load_fields_codec [OF assms(1) R that] assms(2)
    by (auto simp: struct_get_def vmstate_load_state_def plain_vmsd_def)
qed

text \<open>Saving a state and loading it into another one through a file.\<close>

definition after_save :: "('s, 'o) VMStateDescription \<Rightarrow> 's \<Rightarrow> 's" where
  "after_save vmsd s = (case pre_save vmsd of None \<Rightarrow> s | Some pre \<Rightarrow> pre s)"

definition after_load :: "('s, 'o) VMStateDescription \<Rightarrow> 's \<Rightarrow> int \<times> 's" where
  "after_load vmsd s = (case post_load vmsd of None \<Rightarrow> (0, s) | Some post \<Rightarrow> post s (vmsd_version vmsd))"

lemma vmsd_roundtrip:
  assumes "fields_codec R (vmsd_version vmsd) (vmsd_fields vmsd) cs" and "R (after_save vmsd s) t"
    and "minimum_version_id vmsd \<le> vmsd_version vmsd" "minimum_version_id_old vmsd \<le> vmsd_version vmsd"
    and "pre_load vmsd = None" "post_save vmsd = None"
    and load: "after_load vmsd (cp_all cs (after_save vmsd s) t) = (r, t')"
  shows "\<exists>f f'. vmstate_save_state vmsd s fopen_new = Inr (after_save vmsd s, f) \<and>
    vmstate_load_state vmsd t (vmsd_version vmsd) (fopen_old (snd (qemu_fclose f))) = Inr (r, t', f')"
proof -
  let ?s = "after_save vmsd s"
  have new: "fout.Writes fopen_new []" by (simp add: fopen_new_def fout.open_writes)
  obtain f where f: "save_fields (vmsd_version vmsd) (vmsd_fields vmsd) ?s fopen_new = Inr f"
    "fout.Writes f (enc_all cs ?s)" "close_fn f = close_fn fopen_new"
    using save_fields_codec [OF assms(1,2) new] by auto
  from fclose_open [OF f(2,3)] have "fin.Reads (fopen_old (snd (qemu_fclose f))) (enc_all cs ?s @ [])" by simp
  from load_fields_codec [OF assms(1,2) this] obtain f' where
    "load_fields (vmsd_version vmsd) (vmsd_fields vmsd) t (fopen_old (snd (qemu_fclose f))) = Inr (0, cp_all cs ?s t, f')"
    by blast
  then show ?thesis using f(1) assms(3-7)
    by (auto simp: vmstate_save_state_def vmstate_load_state_def after_save_def after_load_def Let_def
        split: option.splits)
qed

end
