(* ===== verification/SaveVM.thy ===== *)
theory SaveVM
  imports VMState
begin

text \<open>
  The registered handlers and the format of a saved machine, the last part of \<^verbatim>\<open>savevm.c\<close>.  A
  machine is a value of an arbitrary type \<open>'m\<close>; a handler reads and writes its part of it.
\<close>

section \<open>Handlers\<close>

record ('m, 'o) SaveStateEntry =
  idstr :: "byte list"
  instance_id :: int
  se_version_id :: int
  section_id :: u32
  se_opaque :: nat
  se_vmsd :: "nat option"
  set_params :: "(int \<Rightarrow> int \<Rightarrow> 'm \<Rightarrow> 'm) option"
  save_live_state :: "('m \<Rightarrow> int \<Rightarrow> 'o QEMUFile \<Rightarrow> qf_error + int \<times> 'm \<times> 'o QEMUFile) option"
  save_state :: "('m \<Rightarrow> 'o QEMUFile \<Rightarrow> qf_error + 'm \<times> 'o QEMUFile) option"
  load_state :: "'m \<Rightarrow> int \<Rightarrow> 'o QEMUFile \<Rightarrow> qf_error + int \<times> 'm \<times> 'o QEMUFile"

record ('m, 'o) savevm =
  savevm_handlers :: "('m, 'o) SaveStateEntry list"
  global_section_id :: u32

definition calculate_new_instance_id :: "('m, 'o) SaveStateEntry list \<Rightarrow> byte list \<Rightarrow> int" where
  "calculate_new_instance_id hs ident =
     fold (\<lambda>se n. if idstr se = ident \<and> n \<le> instance_id se then instance_id se + 1 else n) hs 0"

definition register_savevm_live ::
  "('m, 'o) savevm \<Rightarrow> byte list \<Rightarrow> int \<Rightarrow> int \<Rightarrow> (int \<Rightarrow> int \<Rightarrow> 'm \<Rightarrow> 'm) option \<Rightarrow>
   ('m \<Rightarrow> int \<Rightarrow> 'o QEMUFile \<Rightarrow> qf_error + int \<times> 'm \<times> 'o QEMUFile) option \<Rightarrow>
   ('m \<Rightarrow> 'o QEMUFile \<Rightarrow> qf_error + 'm \<times> 'o QEMUFile) option \<Rightarrow>
   ('m \<Rightarrow> int \<Rightarrow> 'o QEMUFile \<Rightarrow> qf_error + int \<times> 'm \<times> 'o QEMUFile) \<Rightarrow> nat \<Rightarrow> ('m, 'o) savevm" where
  "register_savevm_live vm ident inst ver params live sv ld op =
     (let se = \<lparr>idstr = take 255 ident,
                instance_id = (if inst = -1 then calculate_new_instance_id (savevm_handlers vm) ident else inst),
                se_version_id = ver, section_id = global_section_id vm, se_opaque = op, se_vmsd = None,
                set_params = params, save_live_state = live, save_state = sv, load_state = ld\<rparr>
      in vm\<lparr>savevm_handlers := savevm_handlers vm @ [se], global_section_id := global_section_id vm + 1\<rparr>)"

definition register_savevm ::
  "('m, 'o) savevm \<Rightarrow> byte list \<Rightarrow> int \<Rightarrow> int \<Rightarrow> ('m \<Rightarrow> 'o QEMUFile \<Rightarrow> qf_error + 'm \<times> 'o QEMUFile) option \<Rightarrow>
   ('m \<Rightarrow> int \<Rightarrow> 'o QEMUFile \<Rightarrow> qf_error + int \<times> 'm \<times> 'o QEMUFile) \<Rightarrow> nat \<Rightarrow> ('m, 'o) savevm" where
  "register_savevm vm ident inst ver sv ld op = register_savevm_live vm ident inst ver None None sv ld op"

definition unregister_savevm :: "('m, 'o) savevm \<Rightarrow> byte list \<Rightarrow> nat \<Rightarrow> ('m, 'o) savevm" where
  "unregister_savevm vm ident op =
     vm\<lparr>savevm_handlers := filter (\<lambda>se. \<not> (idstr se = ident \<and> se_opaque se = op)) (savevm_handlers vm)\<rparr>"

text \<open>\<open>vmstate_save\<close> and \<open>vmstate_load\<close> of a described device that is the part \<open>rd\<close> of the machine.\<close>

definition vmsd_save ::
  "('s, 'o) VMStateDescription \<Rightarrow> ('m \<Rightarrow> 's) \<Rightarrow> ('s \<Rightarrow> 'm \<Rightarrow> 'm) \<Rightarrow> 'm \<Rightarrow> 'o QEMUFile \<Rightarrow> qf_error + 'm \<times> 'o QEMUFile" where
  "vmsd_save vmsd rd wr m f = bindR (vmstate_save_state vmsd (rd m) f) (\<lambda>(s, f'). Inr (wr s m, f'))"

definition vmsd_load ::
  "('s, 'o) VMStateDescription \<Rightarrow> ('m \<Rightarrow> 's) \<Rightarrow> ('s \<Rightarrow> 'm \<Rightarrow> 'm) \<Rightarrow> 'm \<Rightarrow> int \<Rightarrow> 'o QEMUFile \<Rightarrow>
   qf_error + int \<times> 'm \<times> 'o QEMUFile" where
  "vmsd_load vmsd rd wr m version f =
     bindR (vmstate_load_state vmsd (rd m) version f) (\<lambda>(r, s, f'). Inr (r, wr s m, f'))"

definition vmstate_register ::
  "('m, 'o) savevm \<Rightarrow> int \<Rightarrow> nat \<Rightarrow> ('s, 'o) VMStateDescription \<Rightarrow> ('m \<Rightarrow> 's) \<Rightarrow> ('s \<Rightarrow> 'm \<Rightarrow> 'm) \<Rightarrow> nat \<Rightarrow>
   ('m, 'o) savevm" where
  "vmstate_register vm inst vid vmsd rd wr op =
     (let ident = map of_char (vmsd_name vmsd);
          se = \<lparr>idstr = take 255 ident,
                instance_id = (if inst = -1 then calculate_new_instance_id (savevm_handlers vm) ident else inst),
                se_version_id = vmsd_version vmsd, section_id = global_section_id vm, se_opaque = op, se_vmsd = Some vid,
                set_params = None, save_live_state = None,
                save_state = Some (vmsd_save vmsd rd wr), load_state = vmsd_load vmsd rd wr\<rparr>
      in vm\<lparr>savevm_handlers := savevm_handlers vm @ [se], global_section_id := global_section_id vm + 1\<rparr>)"

definition vmstate_unregister :: "('m, 'o) savevm \<Rightarrow> nat \<Rightarrow> nat \<Rightarrow> ('m, 'o) savevm" where
  "vmstate_unregister vm vid op =
     vm\<lparr>savevm_handlers := filter (\<lambda>se. \<not> (se_vmsd se = Some vid \<and> se_opaque se = op)) (savevm_handlers vm)\<rparr>"

section \<open>Saving\<close>

definition QEMU_VM_FILE_MAGIC :: u32 where "QEMU_VM_FILE_MAGIC = 0x5145564d"
definition QEMU_VM_FILE_VERSION_COMPAT :: u32 where "QEMU_VM_FILE_VERSION_COMPAT = 2"
definition QEMU_VM_FILE_VERSION :: u32 where "QEMU_VM_FILE_VERSION = 3"
definition QEMU_VM_EOF :: byte where "QEMU_VM_EOF = 0"
definition QEMU_VM_SECTION_START :: byte where "QEMU_VM_SECTION_START = 1"
definition QEMU_VM_SECTION_PART :: byte where "QEMU_VM_SECTION_PART = 2"
definition QEMU_VM_SECTION_END :: byte where "QEMU_VM_SECTION_END = 3"
definition QEMU_VM_SECTION_FULL :: byte where "QEMU_VM_SECTION_FULL = 4"

definition qemu_savevm_state_cancel ::
  "('m, 'o) SaveStateEntry list \<Rightarrow> 'm \<Rightarrow> 'o QEMUFile \<Rightarrow> qf_error + 'm \<times> 'o QEMUFile" where
  "qemu_savevm_state_cancel hs m f =
     fold (\<lambda>se r. bindR r (\<lambda>(m, f).
        case save_live_state se of
          None \<Rightarrow> Inr (m, f)
        | Some live \<Rightarrow> bindR (live m (-1) f) (\<lambda>(_, m', f'). Inr (m', f')))) hs (Inr (m, f))"

text \<open>The header of a section that names its device.\<close>

definition put_section :: "('m, 'o) SaveStateEntry \<Rightarrow> byte \<Rightarrow> 'o QEMUFile \<Rightarrow> qf_error + 'o QEMUFile" where
  "put_section se kind f =
     bindR (qemu_put_byte f kind) (\<lambda>f1.
     bindR (qemu_put_be32 f1 (section_id se)) (\<lambda>f2.
     bindR (qemu_put_byte f2 (of_nat (length (idstr se)))) (\<lambda>f3.
     bindR (qemu_put_buffer f3 (idstr se)) (\<lambda>f4.
     bindR (qemu_put_be32 f4 (word_of_int (instance_id se))) (\<lambda>f5.
     qemu_put_be32 f5 (word_of_int (se_version_id se)))))))"

definition put_part :: "('m, 'o) SaveStateEntry \<Rightarrow> byte \<Rightarrow> 'o QEMUFile \<Rightarrow> qf_error + 'o QEMUFile" where
  "put_part se kind f = bindR (qemu_put_byte f kind) (\<lambda>f1. qemu_put_be32 f1 (section_id se))"

fun begin_live :: "('m, 'o) SaveStateEntry list \<Rightarrow> 'm \<Rightarrow> 'o QEMUFile \<Rightarrow> qf_error + 'm \<times> 'o QEMUFile" where
  "begin_live [] m f = Inr (m, f)"
| "begin_live (se # hs) m f =
     (case save_live_state se of
        None \<Rightarrow> begin_live hs m f
      | Some live \<Rightarrow>
          bindR (put_section se QEMU_VM_SECTION_START f) (\<lambda>f1.
          bindR (live m (uint QEMU_VM_SECTION_START) f1) (\<lambda>(_, m', f2). begin_live hs m' f2)))"

definition qemu_savevm_state_begin ::
  "('m, 'o) SaveStateEntry list \<Rightarrow> int \<Rightarrow> int \<Rightarrow> 'm \<Rightarrow> 'o QEMUFile \<Rightarrow> qf_error + int \<times> 'm \<times> 'o QEMUFile" where
  "qemu_savevm_state_begin hs blk_enable shared m f =
     (let m1 = fold (\<lambda>se m. case set_params se of None \<Rightarrow> m | Some p \<Rightarrow> p blk_enable shared m) hs m
      in bindR (qemu_put_be32 f QEMU_VM_FILE_MAGIC) (\<lambda>f1.
         bindR (qemu_put_be32 f1 QEMU_VM_FILE_VERSION) (\<lambda>f2.
         bindR (begin_live hs m1 f2) (\<lambda>(m2, f3).
         if qemu_file_has_error f3
         then bindR (qemu_savevm_state_cancel hs m2 f3) (\<lambda>(m3, f4). Inr (- EIO, m3, f4))
         else Inr (0, m2, f3)))))"

fun iterate_live ::
  "('m, 'o) SaveStateEntry list \<Rightarrow> int \<Rightarrow> 'm \<Rightarrow> 'o QEMUFile \<Rightarrow> qf_error + int \<times> 'm \<times> 'o QEMUFile" where
  "iterate_live [] ret m f = Inr (ret, m, f)"
| "iterate_live (se # hs) ret m f =
     (case save_live_state se of
        None \<Rightarrow> iterate_live hs ret m f
      | Some live \<Rightarrow>
          bindR (put_part se QEMU_VM_SECTION_PART f) (\<lambda>f1.
          bindR (live m (uint QEMU_VM_SECTION_PART) f1) (\<lambda>(r, m', f2).
            if r = 0 then Inr (r, m', f2) else iterate_live hs r m' f2)))"

definition qemu_savevm_state_iterate ::
  "('m, 'o) SaveStateEntry list \<Rightarrow> 'm \<Rightarrow> 'o QEMUFile \<Rightarrow> qf_error + int \<times> 'm \<times> 'o QEMUFile" where
  "qemu_savevm_state_iterate hs m f =
     bindR (iterate_live hs 1 m f) (\<lambda>(ret, m1, f1).
       if ret \<noteq> 0 then Inr (1, m1, f1)
       else if qemu_file_has_error f1
       then bindR (qemu_savevm_state_cancel hs m1 f1) (\<lambda>(m2, f2). Inr (- EIO, m2, f2))
       else Inr (0, m1, f1))"

fun end_live :: "('m, 'o) SaveStateEntry list \<Rightarrow> 'm \<Rightarrow> 'o QEMUFile \<Rightarrow> qf_error + 'm \<times> 'o QEMUFile" where
  "end_live [] m f = Inr (m, f)"
| "end_live (se # hs) m f =
     (case save_live_state se of
        None \<Rightarrow> end_live hs m f
      | Some live \<Rightarrow>
          bindR (put_part se QEMU_VM_SECTION_END f) (\<lambda>f1.
          bindR (live m (uint QEMU_VM_SECTION_END) f1) (\<lambda>(_, m', f2). end_live hs m' f2)))"

fun save_full :: "('m, 'o) SaveStateEntry list \<Rightarrow> 'm \<Rightarrow> 'o QEMUFile \<Rightarrow> qf_error + 'm \<times> 'o QEMUFile" where
  "save_full [] m f = Inr (m, f)"
| "save_full (se # hs) m f =
     (case save_state se of
        None \<Rightarrow> save_full hs m f
      | Some sv \<Rightarrow>
          bindR (put_section se QEMU_VM_SECTION_FULL f) (\<lambda>f1.
          bindR (sv m f1) (\<lambda>(m', f2). save_full hs m' f2)))"

definition qemu_savevm_state_complete ::
  "('m, 'o) SaveStateEntry list \<Rightarrow> 'm \<Rightarrow> 'o QEMUFile \<Rightarrow> qf_error + int \<times> 'm \<times> 'o QEMUFile" where
  "qemu_savevm_state_complete hs m f =
     bindR (end_live hs m f) (\<lambda>(m1, f1).
     bindR (save_full hs m1 f1) (\<lambda>(m2, f2).
     bindR (qemu_put_byte f2 QEMU_VM_EOF) (\<lambda>f3.
       Inr (if qemu_file_has_error f3 then - EIO else 0, m2, f3))))"

text \<open>The iteration of a snapshot: until a stage reports that everything live has been sent.\<close>

partial_function (option) iterate_loop ::
  "('m, 'o) SaveStateEntry list \<Rightarrow> 'm \<Rightarrow> 'o QEMUFile \<Rightarrow> (qf_error + int \<times> 'm \<times> 'o QEMUFile) option" where
  [code]: "iterate_loop hs m f =
     (case qemu_savevm_state_iterate hs m f of
        Inl e \<Rightarrow> Some (Inl e)
      | Inr (ret, m1, f1) \<Rightarrow> if ret = 0 then iterate_loop hs m1 f1 else Some (Inr (ret, m1, f1)))"

definition qemu_savevm_state ::
  "('m, 'o) SaveStateEntry list \<Rightarrow> 'm \<Rightarrow> 'o QEMUFile \<Rightarrow> (qf_error + int \<times> 'm \<times> 'o QEMUFile) option" where
  "qemu_savevm_state hs m f =
     (let out = (\<lambda>ret m f. Some (Inr (if qemu_file_has_error f then - EIO else ret, m, f)))
      in case qemu_savevm_state_begin hs 0 0 m f of
           Inl e \<Rightarrow> Some (Inl e)
         | Inr (r1, m1, f1) \<Rightarrow>
             if r1 < 0 then out r1 m1 f1
             else (case iterate_loop hs m1 f1 of
                     None \<Rightarrow> None
                   | Some (Inl e) \<Rightarrow> Some (Inl e)
                   | Some (Inr (r2, m2, f2)) \<Rightarrow>
                       if r2 < 0 then out r2 m2 f2
                       else (case qemu_savevm_state_complete hs m2 f2 of
                               Inl e \<Rightarrow> Some (Inl e)
                             | Inr (r3, m3, f3) \<Rightarrow> out r3 m3 f3)))"

section \<open>Loading\<close>

definition find_se :: "('m, 'o) SaveStateEntry list \<Rightarrow> byte list \<Rightarrow> int \<Rightarrow> ('m, 'o) SaveStateEntry option" where
  "find_se hs ident inst = find (\<lambda>se. idstr se = ident \<and> inst = instance_id se) hs"

record ('m, 'o) LoadStateEntry =
  le_se :: "('m, 'o) SaveStateEntry"
  le_section_id :: u32
  le_version_id :: int

datatype ('m, 'o) section_result =
    Finished int 'm "'o QEMUFile"
  | Another "('m, 'o) LoadStateEntry list" 'm "'o QEMUFile"

text \<open>\<open>idstr[len] = 0\<close> ends the name that was read; \<open>strcmp\<close> stops at the first zero.\<close>

definition c_string :: "byte list \<Rightarrow> byte list" where
  "c_string bs = takeWhile (\<lambda>b. b \<noteq> 0) bs"

definition run_load ::
  "('m, 'o) LoadStateEntry \<Rightarrow> ('m, 'o) LoadStateEntry list \<Rightarrow> 'm \<Rightarrow> 'o QEMUFile \<Rightarrow> qf_error + ('m, 'o) section_result" where
  "run_load le les m f =
     bindR (load_state (le_se le) m (le_version_id le) f) (\<lambda>(ret, m', f').
       Inr (if ret < 0 then Finished ret m' f' else Another les m' f'))"

definition load_start ::
  "('m, 'o) SaveStateEntry list \<Rightarrow> ('m, 'o) LoadStateEntry list \<Rightarrow> 'm \<Rightarrow> 'o QEMUFile \<Rightarrow> qf_error + ('m, 'o) section_result" where
  "load_start hs les m f =
     bindR (qemu_get_be32 f) (\<lambda>(sid, f1).
     bindR (qemu_get_byte f1) (\<lambda>(len, f2).
     bindR (qemu_get_buffer f2 (unat len)) (\<lambda>(ident, f3).
     bindR (qemu_get_be32 f3) (\<lambda>(inst, f4).
     bindR (qemu_get_be32 f4) (\<lambda>(ver, f5).
     case find_se hs (c_string ident) (sint inst) of
       None \<Rightarrow> Inr (Finished (- EINVAL) m f5)
     | Some se \<Rightarrow>
         if word_of_int (se_version_id se) < ver then Inr (Finished (- EINVAL) m f5)
         else let le = \<lparr>le_se = se, le_section_id = sid, le_version_id = sint ver\<rparr>
              in run_load le (le # les) m f5)))))"

definition load_part ::
  "('m, 'o) LoadStateEntry list \<Rightarrow> 'm \<Rightarrow> 'o QEMUFile \<Rightarrow> qf_error + ('m, 'o) section_result" where
  "load_part les m f =
     bindR (qemu_get_be32 f) (\<lambda>(sid, f1).
     case find (\<lambda>le. le_section_id le = sid) les of
       None \<Rightarrow> Inr (Finished (- EINVAL) m f1)
     | Some le \<Rightarrow> run_load le les m f1)"

definition load_section ::
  "('m, 'o) SaveStateEntry list \<Rightarrow> ('m, 'o) LoadStateEntry list \<Rightarrow> 'm \<Rightarrow> 'o QEMUFile \<Rightarrow> qf_error + ('m, 'o) section_result" where
  "load_section hs les m f =
     bindR (qemu_get_byte f) (\<lambda>(section_type, f1).
       if section_type = QEMU_VM_EOF then Inr (Finished 0 m f1)
       else if section_type = QEMU_VM_SECTION_START \<or> section_type = QEMU_VM_SECTION_FULL then load_start hs les m f1
       else if section_type = QEMU_VM_SECTION_PART \<or> section_type = QEMU_VM_SECTION_END then load_part les m f1
       else Inr (Finished (- EINVAL) m f1))"

partial_function (option) load_sections ::
  "('m, 'o) SaveStateEntry list \<Rightarrow> ('m, 'o) LoadStateEntry list \<Rightarrow> 'm \<Rightarrow> 'o QEMUFile \<Rightarrow>
   (qf_error + int \<times> 'm \<times> 'o QEMUFile) option" where
  [code]: "load_sections hs les m f =
     (case load_section hs les m f of
        Inl e \<Rightarrow> Some (Inl e)
      | Inr r \<Rightarrow> (case r of
            Finished ret m' f' \<Rightarrow> Some (Inr (if qemu_file_has_error f' then - EIO else ret, m', f'))
          | Another les' m' f' \<Rightarrow> load_sections hs les' m' f'))"

definition qemu_loadvm_state ::
  "('m, 'o) SaveStateEntry list \<Rightarrow> 'm \<Rightarrow> 'o QEMUFile \<Rightarrow> (qf_error + int \<times> 'm \<times> 'o QEMUFile) option" where
  "qemu_loadvm_state hs m f =
     (case qemu_get_be32 f of
        Inl e \<Rightarrow> Some (Inl e)
      | Inr (v, f1) \<Rightarrow>
          if v \<noteq> QEMU_VM_FILE_MAGIC then Some (Inr (- EINVAL, m, f1))
          else (case qemu_get_be32 f1 of
                  Inl e \<Rightarrow> Some (Inl e)
                | Inr (v, f2) \<Rightarrow>
                    if v = QEMU_VM_FILE_VERSION_COMPAT then Some (Inr (- ENOTSUP, m, f2))
                    else if v \<noteq> QEMU_VM_FILE_VERSION then Some (Inr (- ENOTSUP, m, f2))
                    else load_sections hs [] m f2))"

section \<open>A snapshot restores the machine\<close>

text \<open>
  What a handler has to do for that: append an encoding of its part without changing the
  machine, and copy that part when it loads the encoding.  The name has to fit its length byte.
\<close>

definition entry_codec ::
  "('m \<Rightarrow> 'm \<Rightarrow> bool) \<Rightarrow> ('m, FILE) SaveStateEntry \<Rightarrow> ('m \<Rightarrow> byte list) \<Rightarrow> ('m \<Rightarrow> 'm \<Rightarrow> 'm) \<Rightarrow> bool" where
  "entry_codec R se enc cp \<longleftrightarrow> save_live_state se = None \<and> set_params se = None \<and>
     length (idstr se) < 256 \<and> 0 \<notin> set (idstr se) \<and>
     - (2 ^ 31) \<le> instance_id se \<and> instance_id se < 2 ^ 31 \<and> - (2 ^ 31) \<le> se_version_id se \<and> se_version_id se < 2 ^ 31 \<and>
     (\<exists>sv. save_state se = Some sv \<and>
        (\<forall>m t f bs. R m t \<longrightarrow> fout.Writes f bs \<longrightarrow>
           (\<exists>f'. sv m f = Inr (m, f') \<and> fout.Writes f' (bs @ enc m) \<and> close_fn f' = close_fn f))) \<and>
     (\<forall>m t f bs. R m t \<longrightarrow> fin.Reads f (enc m @ bs) \<longrightarrow>
        (\<exists>f'. load_state se t (se_version_id se) f = Inr (0, cp m t, f') \<and> fin.Reads f' bs \<and> has_error f' = has_error f)) \<and>
     (\<forall>m t. R m t \<longrightarrow> R m (cp m t))"

definition section_bytes :: "('m, 'o) SaveStateEntry \<Rightarrow> byte list" where
  "section_bytes se = be32_bytes (section_id se) @ [of_nat (length (idstr se))] @ idstr se @
     be32_bytes (word_of_int (instance_id se)) @ be32_bytes (word_of_int (se_version_id se))"

lemma put_section_eq:
  "put_section se kind f = put_items f [QByte kind, QBe32 (section_id se), QByte (of_nat (length (idstr se))),
     QBuf (idstr se), QBe32 (word_of_int (instance_id se)), QBe32 (word_of_int (se_version_id se))]"
  by (simp add: put_section_def)

lemma put_section_writes:
  assumes "fout.Writes f bs"
  shows "\<exists>f'. put_section se kind f = Inr f' \<and> fout.Writes f' (bs @ kind # section_bytes se) \<and> close_fn f' = close_fn f"
  using put_items_writes [OF assms, of "[QByte kind, QBe32 (section_id se), QByte (of_nat (length (idstr se))),
     QBuf (idstr se), QBe32 (word_of_int (instance_id se)), QBe32 (word_of_int (se_version_id se))]"]
  unfolding put_section_eq by (simp add: section_bytes_def)

lemma sint_word_of_int_u32: "- (2 ^ 31) \<le> k \<Longrightarrow> k < 2 ^ 31 \<Longrightarrow> sint (word_of_int k :: u32) = k"
  by (simp add: signed_of_int signed_take_bit_int_eq_self)

lemma load_start_reads:
  assumes codec: "entry_codec R se enc cp" and "R m t" and "find_se hs (idstr se) (instance_id se) = Some se"
    and "fin.Reads f (section_bytes se @ enc m @ bs)"
  shows "\<exists>les' f'. load_start hs les t f = Inr (Another les' (cp m t) f') \<and> fin.Reads f' bs \<and> has_error f' = has_error f"
proof -
  let ?len = "of_nat (length (idstr se)) :: byte"
  let ?inst = "word_of_int (instance_id se) :: u32" and ?ver = "word_of_int (se_version_id se) :: u32"
  note c = codec [unfolded entry_codec_def]
  have len: "unat ?len = length (idstr se)" using c by (simp add: unsigned_of_nat take_bit_nat_eq_self)
  have str: "c_string (idstr se) = idstr se" using c by (auto simp: c_string_def takeWhile_eq_all_conv)
  from assms(4) have "fin.Reads f (be32_bytes (section_id se) @ [?len] @ idstr se @ be32_bytes ?inst @ be32_bytes ?ver @ enc m @ bs)"
    by (simp add: section_bytes_def)
  from get_be32_item [OF this] obtain f1 where 1: "qemu_get_be32 f = Inr (section_id se, f1)"
    "fin.Reads f1 ([?len] @ idstr se @ be32_bytes ?inst @ be32_bytes ?ver @ enc m @ bs)" "has_error f1 = has_error f" by blast
  from get_byte_item [OF 1(2)] obtain f2 where 2: "qemu_get_byte f1 = Inr (?len, f2)"
    "fin.Reads f2 (idstr se @ be32_bytes ?inst @ be32_bytes ?ver @ enc m @ bs)" "has_error f2 = has_error f1" by blast
  from fin.get_buffer_reads [OF 2(2), of "length (idstr se)"] obtain f3 where
    3: "qemu_get_buffer f2 (unat ?len) = Inr (idstr se, f3)"
    "fin.Reads f3 (be32_bytes ?inst @ be32_bytes ?ver @ enc m @ bs)" "has_error f3 = has_error f2"
    by (auto simp: len)
  from get_be32_item [OF 3(2)] obtain f4 where 4: "qemu_get_be32 f3 = Inr (?inst, f4)"
    "fin.Reads f4 (be32_bytes ?ver @ enc m @ bs)" "has_error f4 = has_error f3" by blast
  from get_be32_item [OF 4(2)] obtain f5 where 5: "qemu_get_be32 f4 = Inr (?ver, f5)"
    "fin.Reads f5 (enc m @ bs)" "has_error f5 = has_error f4" by blast
  from c assms(2) 5(2) obtain f6 where 6: "load_state se t (se_version_id se) f5 = Inr (0, cp m t, f6)"
    "fin.Reads f6 bs" "has_error f6 = has_error f5" by blast
  have "sint ?inst = instance_id se" "sint ?ver = se_version_id se" using c sint_word_of_int_u32 by auto
  then have "load_start hs les t f = Inr (Another (\<lparr>le_se = se, le_section_id = section_id se,
      le_version_id = se_version_id se\<rparr> # les) (cp m t) f6)"
    using 1(1) 2(1) 3(1) 4(1) 5(1) 6(1) str assms(3) by (simp add: load_start_def run_load_def Let_def)
  then show ?thesis using 6 1(3) 2(3) 3(3) 4(3) 5(3) by auto
qed

text \<open>The image of the handlers' sections.\<close>

fun image :: "('m, 'o) SaveStateEntry list \<Rightarrow> 'm codec list \<Rightarrow> 'm \<Rightarrow> byte list" where
  "image (se # hs) (c # cs) m = QEMU_VM_SECTION_FULL # section_bytes se @ fst c m @ image hs cs m"
| "image _ _ m = []"

lemma save_full_writes:
  assumes "list_all2 (\<lambda>se c. entry_codec R se (fst c) (snd c)) hs cs" and "R m t" and "fout.Writes f bs"
  shows "\<exists>f'. save_full hs m f = Inr (m, f') \<and> fout.Writes f' (bs @ image hs cs m) \<and> close_fn f' = close_fn f"
  using assms
proof (induction hs cs arbitrary: f bs rule: list_all2_induct)
  case (Cons se hs c cs)
  obtain f1 where f1: "put_section se QEMU_VM_SECTION_FULL f = Inr f1"
    "fout.Writes f1 (bs @ QEMU_VM_SECTION_FULL # section_bytes se)" "close_fn f1 = close_fn f"
    using put_section_writes [OF Cons.prems(2)] by blast
  obtain sv f2 where f2: "save_state se = Some sv" "sv m f1 = Inr (m, f2)"
    "fout.Writes f2 ((bs @ QEMU_VM_SECTION_FULL # section_bytes se) @ fst c m)" "close_fn f2 = close_fn f1"
    using Cons.hyps(1) Cons.prems(1) f1(2) unfolding entry_codec_def by blast
  from Cons.IH [OF Cons.prems(1) f2(3)] f1 f2 show ?case by auto
qed simp

lemma load_sections_reads:
  assumes "list_all2 (\<lambda>se c. entry_codec R se (fst c) (snd c)) hs cs" and "R m t"
    and "\<And>se. se \<in> set hs \<Longrightarrow> find_se all (idstr se) (instance_id se) = Some se"
    and "fin.Reads f (image hs cs m @ [QEMU_VM_EOF])" and "\<not> has_error f"
  shows "\<exists>f'. load_sections all les t f = Some (Inr (0, cp_all cs m t, f'))"
  using assms
proof (induction hs cs arbitrary: f t les rule: list_all2_induct)
  case Nil
  then obtain f1 where "qemu_get_byte f = Inr (QEMU_VM_EOF, f1)" "has_error f1 = has_error f"
    using get_byte_item [of f QEMU_VM_EOF "[]"] by auto
  with Nil.prems show ?case
    by (subst load_sections.simps) (simp add: load_section_def qemu_file_has_error_def)
next
  case (Cons se hs c cs)
  obtain f1 where f1: "qemu_get_byte f = Inr (QEMU_VM_SECTION_FULL, f1)"
    "fin.Reads f1 (section_bytes se @ fst c m @ (image hs cs m @ [QEMU_VM_EOF]))" "has_error f1 = has_error f"
    using get_byte_item [of f QEMU_VM_SECTION_FULL] Cons.prems(3) by auto
  obtain les' f2 where f2: "load_start all les t f1 = Inr (Another les' (snd c m t) f2)"
    "fin.Reads f2 (image hs cs m @ [QEMU_VM_EOF])" "has_error f2 = has_error f1"
    using load_start_reads [OF Cons.hyps(1) Cons.prems(1) _ f1(2)] Cons.prems(2) by fastforce
  have "R m (snd c m t)" using Cons.hyps(1) Cons.prems(1) by (simp add: entry_codec_def)
  with Cons.IH [OF this _ f2(2), of les'] Cons.prems(2,4) f1 f2
  obtain f' where "load_sections all les' (snd c m t) f2 = Some (Inr (0, cp_all cs m (snd c m t), f'))" by auto
  moreover have "load_section all les t f = Inr (Another les' (snd c m t) f2)"
    using f1 f2 by (simp add: load_section_def QEMU_VM_SECTION_FULL_def QEMU_VM_EOF_def)
  ultimately show ?case
    by (subst load_sections.simps) (simp add: cp_all_def)
qed

lemma find_distinct:
  "distinct (map g hs) \<Longrightarrow> x \<in> set hs \<Longrightarrow> find (\<lambda>y. g y = g x) hs = Some x"
  by (induction hs) (auto simp: rev_image_eqI)

lemma no_live:
  assumes "\<forall>se \<in> set hs. save_live_state se = None \<and> set_params se = None"
  shows "begin_live hs m f = Inr (m, f)" "end_live hs m f = Inr (m, f)" "iterate_live hs r m f = Inr (r, m, f)"
    "fold (\<lambda>se m. case set_params se of None \<Rightarrow> m | Some p \<Rightarrow> p a b m) hs m = m"
  using assms by (induction hs) auto

text \<open>Writing the image of a machine, and what the closed file holds.\<close>

definition vm_header :: "byte list" where
  "vm_header = be32_bytes QEMU_VM_FILE_MAGIC @ be32_bytes QEMU_VM_FILE_VERSION"

lemma snapshot_written:
  assumes codecs: "list_all2 (\<lambda>se c. entry_codec R se (fst c) (snd c)) hs cs" and R: "R m t"
  shows "\<exists>f. qemu_savevm_state hs m fopen_new = Some (Inr (0, m, f)) \<and>
    fin.Reads (fopen_old (snd (qemu_fclose f))) (vm_header @ image hs cs m @ [QEMU_VM_EOF])"
proof -
  have "\<forall>se \<in> set hs. save_live_state se = None \<and> set_params se = None"
    using codecs by (auto simp: list_all2_conv_all_nth in_set_conv_nth entry_codec_def)
  note live = no_live [OF this]
  have new: "fout.Writes fopen_new []" by (simp add: fopen_new_def fout.open_writes)
  let ?head = "be32_bytes QEMU_VM_FILE_MAGIC @ be32_bytes QEMU_VM_FILE_VERSION"
  obtain f1 where f1: "qemu_put_be32 fopen_new QEMU_VM_FILE_MAGIC = Inr f1" "fout.Writes f1 (be32_bytes QEMU_VM_FILE_MAGIC)"
    "close_fn f1 = close_fn fopen_new" using fout.put_be32_writes [OF new] by auto
  obtain f2 where f2: "qemu_put_be32 f1 QEMU_VM_FILE_VERSION = Inr f2" "fout.Writes f2 ?head" "close_fn f2 = close_fn f1"
    using fout.put_be32_writes [OF f1(2)] by blast
  obtain f3 where f3: "save_full hs m f2 = Inr (m, f3)" "fout.Writes f3 (?head @ image hs cs m)" "close_fn f3 = close_fn f2"
    using save_full_writes [OF codecs R f2(2)] by blast
  obtain f4 where f4: "qemu_put_byte f3 QEMU_VM_EOF = Inr f4" "fout.Writes f4 ((?head @ image hs cs m) @ [QEMU_VM_EOF])"
    "close_fn f4 = close_fn f3" using fout.put_byte_writes [OF f3(2)] by blast
  have ok: "\<not> has_error f2" "\<not> has_error f4" using f2(2) f4(2) by (simp_all add: fout.Writes_def)
  have save: "qemu_savevm_state hs m fopen_new = Some (Inr (0, m, f4))"
    using f1(1) f2(1) f3(1) f4(1) ok live
    by (simp add: qemu_savevm_state_def qemu_savevm_state_begin_def iterate_loop.simps qemu_savevm_state_iterate_def
        qemu_savevm_state_complete_def qemu_file_has_error_def Let_def)
  have "fin.Reads (fopen_old (snd (qemu_fclose f4))) (vm_header @ image hs cs m @ [QEMU_VM_EOF])"
    using fclose_open(2) [OF f4(2)] f1(3) f2(3) f3(3) f4(3) by (simp add: vm_header_def)
  with save show ?thesis by blast
qed

lemma savevm_restores:
  assumes codecs: "list_all2 (\<lambda>se c. entry_codec R se (fst c) (snd c)) hs cs"
    and dist: "distinct (map (\<lambda>se. (idstr se, instance_id se)) hs)" and R: "R m t"
  shows "\<exists>f f'. qemu_savevm_state hs m fopen_new = Some (Inr (0, m, f)) \<and>
    qemu_loadvm_state hs t (fopen_old (snd (qemu_fclose f))) = Some (Inr (0, cp_all cs m t, f'))"
proof -
  obtain f where save: "qemu_savevm_state hs m fopen_new = Some (Inr (0, m, f))"
    and g: "fin.Reads (fopen_old (snd (qemu_fclose f))) (vm_header @ image hs cs m @ [QEMU_VM_EOF])"
    using snapshot_written [OF codecs R] by blast
  let ?g = "fopen_old (snd (qemu_fclose f))"
  have "\<not> has_error ?g" by (simp add: fopen_old_def qemu_fopen_ops_def)
  obtain g1 where g1: "qemu_get_be32 ?g = Inr (QEMU_VM_FILE_MAGIC, g1)"
    "fin.Reads g1 (be32_bytes QEMU_VM_FILE_VERSION @ image hs cs m @ [QEMU_VM_EOF])" "has_error g1 = has_error ?g"
    using get_be32_item [of ?g] g by (auto simp: vm_header_def)
  obtain g2 where g2: "qemu_get_be32 g1 = Inr (QEMU_VM_FILE_VERSION, g2)"
    "fin.Reads g2 (image hs cs m @ [QEMU_VM_EOF])" "has_error g2 = has_error g1"
    using get_be32_item [OF g1(2)] by blast
  have "\<And>se. se \<in> set hs \<Longrightarrow> find_se hs (idstr se) (instance_id se) = Some se"
    using find_distinct [OF dist] by (simp add: find_se_def eq_commute)
  from load_sections_reads [OF codecs R this g2(2)] \<open>\<not> has_error ?g\<close> g1(3) g2(3) obtain f' where
    "load_sections hs [] t g2 = Some (Inr (0, cp_all cs m t, f'))" by blast
  then show ?thesis using save g1(1) g2(1)
    by (auto simp: qemu_loadvm_state_def QEMU_VM_FILE_VERSION_def QEMU_VM_FILE_VERSION_COMPAT_def)
qed

text \<open>
  C8. A snapshot restores the machine: with handlers of distinct names or instances that
  each save and restore their part, \<open>qemu_savevm_state\<close> succeeds, and \<open>qemu_loadvm_state\<close> on the
  file it wrote returns 0 and has copied every part into the machine it runs in.
\<close>

theorem savevm_roundtrip:
  assumes codecs: "list_all2 (\<lambda>se c. entry_codec R se (fst c) (snd c)) hs cs"
    and dist: "distinct (map (\<lambda>se. (idstr se, instance_id se)) hs)" and R: "R m t"
  shows "\<exists>f f'. qemu_savevm_state hs m fopen_new = Some (Inr (0, m, f)) \<and>
    qemu_loadvm_state hs t (fopen_old (snd (qemu_fclose f))) = Some (Inr (0, cp_all cs m t, f'))"
  by (rule savevm_restores [OF assms])

text \<open>
  The handlers that \<open>vmstate_register\<close> builds: the hooks of the description must leave the states it is used
  for as they are.
\<close>

lemma vmsd_entry_codec:
  assumes fields: "fields_codec R (vmsd_version vmsd) (vmsd_fields vmsd) cs"
    and vers: "minimum_version_id vmsd \<le> vmsd_version vmsd" "minimum_version_id_old vmsd \<le> vmsd_version vmsd"
      "pre_load vmsd = None" "post_save vmsd = None"
    and se: "save_live_state se = None" "set_params se = None" "save_state se = Some (vmsd_save vmsd rd wr)"
      "load_state se = vmsd_load vmsd rd wr" "se_version_id se = vmsd_version vmsd"
    and ranges: "length (idstr se) < 256" "0 \<notin> set (idstr se)" "- (2 ^ 31) \<le> instance_id se" "instance_id se < 2 ^ 31"
      "- (2 ^ 31) \<le> vmsd_version vmsd" "vmsd_version vmsd < 2 ^ 31"
    and RM: "\<And>m t. RM m t \<Longrightarrow> R (rd m) (rd t)" "\<And>m t. RM m t \<Longrightarrow> RM m (wr (cp_all cs (rd m) (rd t)) t)"
    and hooks: "\<And>m t. RM m t \<Longrightarrow> after_save vmsd (rd m) = rd m"
      "\<And>m t. RM m t \<Longrightarrow> after_load vmsd (cp_all cs (rd m) (rd t)) = (0, cp_all cs (rd m) (rd t))"
    and lens: "\<And>m. wr (rd m) m = m"
  shows "entry_codec RM se (\<lambda>m. enc_all cs (rd m)) (\<lambda>m t. wr (cp_all cs (rd m) (rd t)) t)"
proof -
  have save: "\<exists>f'. vmsd_save vmsd rd wr m f = Inr (m, f') \<and> fout.Writes f' (bs @ enc_all cs (rd m)) \<and> close_fn f' = close_fn f"
    if "RM m t" "fout.Writes f bs" for m t f bs
    using save_fields_codec [OF fields RM(1) [OF that(1)] that(2), of "vmsd_version vmsd"] vers(4) lens hooks(1) [OF that(1)]
    by (auto simp: vmsd_save_def vmstate_save_state_def after_save_def)
  have load: "\<exists>f'. vmsd_load vmsd rd wr t (vmsd_version vmsd) f = Inr (0, wr (cp_all cs (rd m) (rd t)) t, f') \<and>
      fin.Reads f' bs \<and> has_error f' = has_error f"
    if "RM m t" "fin.Reads f (enc_all cs (rd m) @ bs)" for m t f bs
    using load_fields_codec [OF fields RM(1) [OF that(1)] that(2)] vers(1-3) hooks(2) [OF that(1)]
    by (auto simp: vmsd_load_def vmstate_load_state_def after_load_def split: option.splits)
  have sv: "\<exists>sv. save_state se = Some sv \<and> (\<forall>m t f bs. RM m t \<longrightarrow> fout.Writes f bs \<longrightarrow>
      (\<exists>f'. sv m f = Inr (m, f') \<and> fout.Writes f' (bs @ enc_all cs (rd m)) \<and> close_fn f' = close_fn f))"
    using save se(3) by blast
  show ?thesis
    unfolding entry_codec_def
    using sv load RM(2) se(1,2,4,5) ranges by (intro conjI allI impI) auto
qed

definition ex_vmsd :: "(byte, FILE) VMStateDescription" where
  "ex_vmsd = \<lparr>vmsd_name = ''latch'', vmsd_version = 1, minimum_version_id = 1, minimum_version_id_old = 1,
     load_state_old = None, pre_load = None, post_load = None, pre_save = None, post_save = None,
     vmsd_fields = [VMSTATE_SINGLE ''value'' 0 vmstate_info_uint8 id (\<lambda>v _. v)]\<rparr>"

definition ex_handlers :: "(byte, FILE) SaveStateEntry list" where
  "ex_handlers = savevm_handlers (vmstate_register \<lparr>savevm_handlers = [], global_section_id = 0\<rparr> 0 0 ex_vmsd id (\<lambda>v _. v) 0)"

lemma ex_entry_codec:
  "list_all2 (\<lambda>se c. entry_codec (\<lambda>_ _. True) se (fst c) (snd c)) ex_handlers
     [(\<lambda>m. enc_all [(\<lambda>s. [s], \<lambda>s _. s)] m, \<lambda>m t. cp_all [(\<lambda>s. [s], \<lambda>s _. s)] m t)]"
proof -
  have "field_codec (\<lambda>_ _. True) (VMSTATE_SINGLE ''value'' 0 vmstate_info_uint8 id (\<lambda>v _. v)) (\<lambda>s. [id s]) (\<lambda>s _. id s)"
    unfolding VMSTATE_SINGLE_def by (rule c_uint8.single_codec) simp_all
  then have fc: "fields_codec (\<lambda>_ _. True) (vmsd_version ex_vmsd) (vmsd_fields ex_vmsd) [(\<lambda>s. [s], \<lambda>s _. s)]"
    by (simp add: ex_vmsd_def VMSTATE_SINGLE_def single_field_def)
  obtain se where se: "ex_handlers = [se]" "save_live_state se = None" "set_params se = None"
    "save_state se = Some (vmsd_save ex_vmsd id (\<lambda>v _. v))" "load_state se = vmsd_load ex_vmsd id (\<lambda>v _. v)"
    "se_version_id se = vmsd_version ex_vmsd" "instance_id se = 0" "idstr se = map of_char ''latch''"
    by (simp add: ex_handlers_def vmstate_register_def Let_def ex_vmsd_def)
  have "entry_codec (\<lambda>_ _. True) se (\<lambda>m. enc_all [(\<lambda>s. [s], \<lambda>s _. s)] (id m))
      (\<lambda>m t. cp_all [(\<lambda>s. [s], \<lambda>s _. s)] (id m) (id t))"
    using se by (intro vmsd_entry_codec [OF fc, where rd = id and wr = "\<lambda>v _. v"]) (simp_all add: ex_vmsd_def after_save_def after_load_def)
  then show ?thesis unfolding se(1) by simp
qed

theorem savevm_roundtrip_witness:
  "\<exists>f f'. qemu_savevm_state ex_handlers 42 fopen_new = Some (Inr (0, 42, f)) \<and>
    qemu_loadvm_state ex_handlers 7 (fopen_old (snd (qemu_fclose f))) = Some (Inr (0, 42, f'))"
  using savevm_roundtrip [OF ex_entry_codec, of 42 7]
  by (simp add: ex_handlers_def vmstate_register_def Let_def)

text \<open>
  The bounded field: \<open>vmstate_info_int32_le\<close> accepts a file whose value is at least the one
  the machine has and rejects a smaller one with \<open>-EINVAL\<close>; the field keeps its value.
\<close>

theorem int32_le_direction:
  assumes "fin.Reads f (be32_bytes v @ bs)"
  shows "\<exists>f'. info_get vmstate_info_int32_le old f = Inr (if sint old \<le> sint v then 0 else - EINVAL, old, f') \<and>
    fin.Reads f' bs"
  using get_be32_item [OF assms] by (auto simp: vmstate_info_int32_le_def check_value_def)

theorem int32_le_direction_witness:
  "\<exists>f'. info_get vmstate_info_int32_le 3 (fopen_old \<lparr>fbytes = be32_bytes 5, fpos = 0\<rparr>) = Inr (0, 3, f')"
proof -
  have "fin.Reads (fopen_old \<lparr>fbytes = be32_bytes 5, fpos = 0\<rparr>) (be32_bytes 5 @ [])"
    using fin.open_reads [of "\<lparr>fbytes = be32_bytes 5, fpos = 0\<rparr>" None "Some stdio_fclose"] by (simp add: fopen_old_def)
  from int32_le_direction [OF this, of 3] show ?thesis by auto
qed

end
