(* ===== verification/I8259.thy ===== *)
theory I8259
  imports SaveVM
begin

text \<open>
  The interrupt controllers of the PC, \<^verbatim>\<open>hw/i8259.c\<close>: a master and a slave 8259 in cascade.
  The request line to the CPU (\<open>parent_irq\<close>, a \<open>qemu_irq\<close> of \<^verbatim>\<open>hw/irq.c\<close>) is the list of the
  levels that were set on it.
\<close>

section \<open>State\<close>

record PicState =
  last_irr :: byte
  irr :: byte
  imr :: byte
  isr :: byte
  priority_add :: byte
  irq_base :: byte
  read_reg_select :: byte
  poll :: byte
  special_mask :: byte
  init_state :: byte
  auto_eoi :: byte
  rotate_on_auto_eoi :: byte
  special_fully_nested_mode :: byte
  init4 :: byte
  single_mode :: byte
  elcr :: byte
  elcr_mask :: byte

text \<open>
  \<open>time_drift_fix\<close>, \<open>timer_acks\<close> and \<open>timer_ints_to_push\<close> are globals of the emulator that the
  controller reads and updates.
\<close>

record PicState2 =
  pic0 :: PicState
  pic1 :: PicState
  parent_irq :: "int list"
  time_drift_fix :: bool
  timer_acks :: int
  timer_ints_to_push :: int

datatype pic_id = Master | Slave

fun the_pic :: "PicState2 \<Rightarrow> pic_id \<Rightarrow> PicState" where
  "the_pic s Master = pic0 s"
| "the_pic s Slave = pic1 s"

fun set_pic :: "PicState2 \<Rightarrow> pic_id \<Rightarrow> PicState \<Rightarrow> PicState2" where
  "set_pic s Master p = s\<lparr>pic0 := p\<rparr>"
| "set_pic s Slave p = s\<lparr>pic1 := p\<rparr>"

definition qemu_set_irq :: "PicState2 \<Rightarrow> int \<Rightarrow> PicState2" where
  "qemu_set_irq s level = s\<lparr>parent_irq := parent_irq s @ [level]\<rparr>"

definition irq_bit :: "nat \<Rightarrow> byte" where
  "irq_bit irq = push_bit irq 1"

section \<open>Requests and priorities\<close>

definition pic_set_irq1 :: "PicState \<Rightarrow> nat \<Rightarrow> int \<Rightarrow> PicState" where
  "pic_set_irq1 s irq level =
     (let msk = irq_bit irq
      in if elcr s AND msk \<noteq> 0
         then (if level \<noteq> 0 then s\<lparr>irr := irr s OR msk, last_irr := last_irr s OR msk\<rparr>
               else s\<lparr>irr := irr s AND NOT msk, last_irr := last_irr s AND NOT msk\<rparr>)
         else (if level \<noteq> 0
               then (if last_irr s AND msk = 0 then s\<lparr>irr := irr s OR msk\<rparr> else s)\<lparr>last_irr := last_irr s OR msk\<rparr>
               else s\<lparr>last_irr := last_irr s AND NOT msk\<rparr>))"

text \<open>The search loop of \<open>get_priority\<close>; it ends because the mask has a bit set.\<close>

lemma byte_some_bit: "(m :: byte) \<noteq> 0 \<Longrightarrow> \<exists>n < 8. bit m n"
proof (rule ccontr)
  assume "m \<noteq> 0" and none: "\<not> (\<exists>n < 8. bit m n)"
  have "m = 0" by (rule bit_eqI) (use none in \<open>auto\<close>)
  with \<open>m \<noteq> 0\<close> show False by simp
qed

lemma rotated_bit: "(m :: byte) \<noteq> 0 \<Longrightarrow> \<exists>k. bit m ((p + k + a) mod 8)"
proof -
  assume "m \<noteq> 0"
  then obtain n where n: "n < 8" "bit m n" using byte_some_bit by blast
  have "(p + (n + 7 * (p + a)) + a) mod 8 = (8 * (p + a) + n) mod 8" by (simp add: algebra_simps)
  then have "(p + (n + 7 * (p + a)) + a) mod 8 = n" using n by simp
  with n show ?thesis by metis
qed

lemma and_irq_bit: "(m AND irq_bit n = 0) \<longleftrightarrow> n < 8 \<longrightarrow> \<not> bit m n"
proof -
  have "bit (m AND irq_bit n) k \<longleftrightarrow> bit m k \<and> k = n \<and> n < 8" for k
    by (auto simp: irq_bit_def bit_simps)
  then have "(m AND irq_bit n = 0) \<longleftrightarrow> (\<forall>k. \<not> (bit m k \<and> k = n \<and> n < 8))"
    by (metis bit_eqI bit_0_eq bot_apply bot_bool_def)
  then show ?thesis by auto
qed

function priority_loop :: "byte \<Rightarrow> nat \<Rightarrow> nat \<Rightarrow> nat" where
  "priority_loop msk add priority =
     (if msk = 0 then 8
      else if msk AND irq_bit ((priority + add) mod 8) = 0 then priority_loop msk add (Suc priority)
      else priority)"
  by pat_completeness auto

termination
proof (relation "measure (\<lambda>(msk, add, priority). LEAST k. bit msk ((priority + k + add) mod 8))")
  fix msk :: byte and add priority :: nat
  assume msk: "msk \<noteq> 0" and step: "msk AND irq_bit ((priority + add) mod 8) = 0"
  let ?P = "\<lambda>p k. bit msk ((p + k + add) mod 8)"
  obtain k where k: "?P priority k" using rotated_bit [OF msk] by blast
  have "\<not> ?P priority 0" using step by (simp add: and_irq_bit)
  then have "(LEAST k. ?P priority k) = Suc (LEAST k. ?P priority (Suc k))" using Least_Suc [of "?P priority", OF k] by blast
  then show "((msk, add, Suc priority), msk, add, priority)
      \<in> measure (\<lambda>(msk, add, priority). LEAST k. bit msk ((priority + k + add) mod 8))"
    by simp
qed simp

declare priority_loop.simps [simp del]

definition get_priority :: "PicState \<Rightarrow> byte \<Rightarrow> nat" where
  "get_priority s msk = (if msk = 0 then 8 else priority_loop msk (unat (priority_add s)) 0)"

definition pic_get_irq :: "pic_id \<Rightarrow> PicState \<Rightarrow> int" where
  "pic_get_irq which s =
     (let priority = get_priority s (irr s AND NOT (imr s))
      in if priority = 8 then -1
         else let msk = isr s;
                  msk = (if special_mask s \<noteq> 0 then msk AND NOT (imr s) else msk);
                  msk = (if special_fully_nested_mode s \<noteq> 0 \<and> which = Master then msk AND NOT (irq_bit 2) else msk);
                  cur_priority = get_priority s msk
              in if priority < cur_priority then int ((priority + unat (priority_add s)) mod 8) else -1)"

definition pic_update_irq :: "PicState2 \<Rightarrow> PicState2" where
  "pic_update_irq s =
     (let irq2 = pic_get_irq Slave (pic1 s);
          s1 = (if 0 \<le> irq2 then s\<lparr>pic0 := pic_set_irq1 (pic_set_irq1 (pic0 s) 2 1) 2 0\<rparr> else s);
          irq = pic_get_irq Master (pic0 s1)
      in if 0 \<le> irq then qemu_set_irq s1 1 else s1)"

definition i8259_set_irq :: "PicState2 \<Rightarrow> nat \<Rightarrow> int \<Rightarrow> PicState2" where
  "i8259_set_irq s irq level =
     (let which = (if irq div 8 = 0 then Master else Slave)
      in pic_update_irq (set_pic s which (pic_set_irq1 (the_pic s which) (irq mod 8) level)))"

section \<open>Acknowledge\<close>

definition pic_intack :: "PicState \<Rightarrow> nat \<Rightarrow> PicState" where
  "pic_intack s irq =
     (let s1 = (if auto_eoi s \<noteq> 0
                then (if rotate_on_auto_eoi s \<noteq> 0 then s\<lparr>priority_add := of_nat ((irq + 1) mod 8)\<rparr> else s)
                else s\<lparr>isr := isr s OR irq_bit irq\<rparr>)
      in if elcr s1 AND irq_bit irq = 0 then s1\<lparr>irr := irr s1 AND NOT (irq_bit irq)\<rparr> else s1)"

text \<open>With the drift fix on, an acknowledged timer interrupt may be followed by one that was missed.\<close>

definition push_timer :: "PicState2 \<Rightarrow> int \<Rightarrow> PicState2" where
  "push_timer s irq =
     (if time_drift_fix s \<and> irq = 0
      then let s1 = s\<lparr>timer_acks := timer_acks s + 1\<rparr>
           in if 0 < timer_ints_to_push s1
              then s1\<lparr>timer_ints_to_push := timer_ints_to_push s1 - 1,
                      pic0 := pic_set_irq1 (pic_set_irq1 (pic0 s1) 0 0) 0 1\<rparr>
              else s1
      else s)"

definition pic_read_irq :: "PicState2 \<Rightarrow> int \<times> PicState2" where
  "pic_read_irq s =
     (let irq = pic_get_irq Master (pic0 s)
      in if 0 \<le> irq
         then let s1 = push_timer (s\<lparr>pic0 := pic_intack (pic0 s) (nat irq)\<rparr>) irq
              in if irq = 2
                 then let irq2 = pic_get_irq Slave (pic1 s1);
                          s2 = (if 0 \<le> irq2 then s1\<lparr>pic1 := pic_intack (pic1 s1) (nat irq2)\<rparr> else s1);
                          irq2' = (if 0 \<le> irq2 then irq2 else 7)
                      in (uint (irq_base (pic1 s2)) + irq2', pic_update_irq s2)
                 else (uint (irq_base (pic0 s1)) + irq, pic_update_irq s1)
         else (uint (irq_base (pic0 s)) + 7, pic_update_irq s))"

section \<open>Ports\<close>

definition pic_reset :: "PicState \<Rightarrow> PicState" where
  "pic_reset s =
     s\<lparr>last_irr := 0, irr := 0, imr := 0, isr := 0, priority_add := 0, irq_base := 0, read_reg_select := 0,
       poll := 0, special_mask := 0, init_state := 0, auto_eoi := 0, rotate_on_auto_eoi := 0,
       special_fully_nested_mode := 0, init4 := 0, single_mode := 0\<rparr>"

datatype pic_error = HwError string

text \<open>The end-of-interrupt and rotation commands, OCW2.\<close>

definition pic_ocw2 :: "pic_id \<Rightarrow> PicState2 \<Rightarrow> u32 \<Rightarrow> PicState2" where
  "pic_ocw2 which s2 val =
     (let s = the_pic s2 which; cmd = drop_bit 5 val
      in if cmd = 0 \<or> cmd = 4 then set_pic s2 which (s\<lparr>rotate_on_auto_eoi := ucast (drop_bit 2 cmd)\<rparr>)
         else if cmd = 1 \<or> cmd = 5
         then let priority = get_priority s (isr s)
              in if priority \<noteq> 8
                 then let irq = (priority + unat (priority_add s)) mod 8;
                          s' = s\<lparr>isr := isr s AND NOT (irq_bit irq)\<rparr>;
                          s' = (if cmd = 5 then s'\<lparr>priority_add := of_nat ((irq + 1) mod 8)\<rparr> else s')
                      in pic_update_irq (set_pic s2 which s')
                 else s2
         else if cmd = 3
         then pic_update_irq (set_pic s2 which (s\<lparr>isr := isr s AND NOT (irq_bit (unat (val AND 7)))\<rparr>))
         else if cmd = 6 then pic_update_irq (set_pic s2 which (s\<lparr>priority_add := ucast ((val + 1) AND 7)\<rparr>))
         else if cmd = 7
         then let irq = unat (val AND 7)
              in pic_update_irq (set_pic s2 which
                   (s\<lparr>isr := isr s AND NOT (irq_bit irq), priority_add := of_nat ((irq + 1) mod 8)\<rparr>))
         else s2)"

definition pic_ocw3 :: "PicState \<Rightarrow> u32 \<Rightarrow> PicState" where
  "pic_ocw3 s val =
     (let s = (if val AND 0x04 \<noteq> 0 then s\<lparr>poll := 1\<rparr> else s);
          s = (if val AND 0x02 \<noteq> 0 then s\<lparr>read_reg_select := ucast (val AND 1)\<rparr> else s)
      in if val AND 0x40 \<noteq> 0 then s\<lparr>special_mask := ucast (drop_bit 5 val AND 1)\<rparr> else s)"

definition pic_ioport_write :: "pic_id \<Rightarrow> PicState2 \<Rightarrow> u32 \<Rightarrow> u32 \<Rightarrow> pic_error + PicState2" where
  "pic_ioport_write which s2 addr0 val =
     (let addr = addr0 AND 1; s = the_pic s2 which
      in if addr = 0
         then (if val AND 0x10 \<noteq> 0
               then let s1 = (pic_reset s)\<lparr>init_state := 1, init4 := ucast (val AND 1), single_mode := ucast (val AND 2)\<rparr>
                    in if val AND 0x08 \<noteq> 0 then Inl (HwError ''level sensitive irq not supported'')
                       else Inr (set_pic (qemu_set_irq s2 0) which s1)
               else if val AND 0x08 \<noteq> 0 then Inr (set_pic s2 which (pic_ocw3 s val))
               else Inr (pic_ocw2 which s2 val))
         else if init_state s = 0 then Inr (pic_update_irq (set_pic s2 which (s\<lparr>imr := ucast val\<rparr>)))
         else if init_state s = 1
         then Inr (set_pic s2 which (s\<lparr>irq_base := ucast (val AND 0xf8),
                init_state := (if single_mode s \<noteq> 0 then (if init4 s \<noteq> 0 then 3 else 0) else 2)\<rparr>))
         else if init_state s = 2
         then Inr (set_pic s2 which (s\<lparr>init_state := (if init4 s \<noteq> 0 then 3 else 0)\<rparr>))
         else if init_state s = 3
         then Inr (set_pic s2 which (s\<lparr>special_fully_nested_mode := ucast (drop_bit 4 val AND 1),
                auto_eoi := ucast (drop_bit 1 val AND 1), init_state := 0\<rparr>))
         else Inr s2)"

definition pic_poll_read :: "pic_id \<Rightarrow> PicState2 \<Rightarrow> u32 \<Rightarrow> u32 \<times> PicState2" where
  "pic_poll_read which s2 addr1 =
     (let ret = pic_get_irq which (the_pic s2 which)
      in if 0 \<le> ret
         then let slave = drop_bit 7 addr1 \<noteq> 0; r = nat ret;
                  s3 = (if slave
                        then s2\<lparr>pic0 := (pic0 s2)\<lparr>isr := isr (pic0 s2) AND NOT (irq_bit 2),
                                                 irr := irr (pic0 s2) AND NOT (irq_bit 2)\<rparr>\<rparr>
                        else s2);
                  s = the_pic s3 which;
                  s4 = set_pic s3 which (s\<lparr>irr := irr s AND NOT (irq_bit r), isr := isr s AND NOT (irq_bit r)\<rparr>)
              in (of_nat r, if slave \<or> r \<noteq> 2 then pic_update_irq s4 else s4)
         else (0x07, pic_update_irq s2))"

definition pic_ioport_read :: "pic_id \<Rightarrow> PicState2 \<Rightarrow> u32 \<Rightarrow> u32 \<times> PicState2" where
  "pic_ioport_read which s2 addr1 =
     (let addr = addr1 AND 1; s = the_pic s2 which
      in if poll s \<noteq> 0
         then let (ret, s3) = pic_poll_read which s2 addr1 in (ret, set_pic s3 which ((the_pic s3 which)\<lparr>poll := 0\<rparr>))
         else if addr = 0 then (if read_reg_select s \<noteq> 0 then ucast (isr s) else ucast (irr s), s2)
         else (ucast (imr s), s2))"

definition pic_intack_read :: "PicState2 \<Rightarrow> u32 \<times> PicState2" where
  "pic_intack_read s =
     (let (ret, s1) = pic_poll_read Master s 0x00;
          (ret, s2) = (if ret = 2 then let (r, s') = pic_poll_read Slave s1 0x80 in (r + 8, s') else (ret, s1))
      in (ret, s2\<lparr>pic0 := (pic0 s2)\<lparr>read_reg_select := 1\<rparr>\<rparr>))"

definition elcr_ioport_write :: "PicState \<Rightarrow> u32 \<Rightarrow> PicState" where
  "elcr_ioport_write s val = s\<lparr>elcr := ucast val AND elcr_mask s\<rparr>"

definition elcr_ioport_read :: "PicState \<Rightarrow> u32" where
  "elcr_ioport_read s = ucast (elcr s)"

definition zero_pic :: PicState where
  "zero_pic =
     \<lparr>last_irr = 0, irr = 0, imr = 0, isr = 0, priority_add = 0, irq_base = 0, read_reg_select = 0, poll = 0,
      special_mask = 0, init_state = 0, auto_eoi = 0, rotate_on_auto_eoi = 0, special_fully_nested_mode = 0,
      init4 = 0, single_mode = 0, elcr = 0, elcr_mask = 0\<rparr>"

definition i8259_init :: "bool \<Rightarrow> PicState2" where
  "i8259_init drift_fix =
     \<lparr>pic0 = zero_pic\<lparr>elcr_mask := 0xf8\<rparr>, pic1 = zero_pic\<lparr>elcr_mask := 0xde\<rparr>, parent_irq = [],
      time_drift_fix = drift_fix, timer_acks = 0, timer_ints_to_push = 0\<rparr>"

definition kvm_i8259_init :: "bool \<Rightarrow> PicState2" where
  "kvm_i8259_init drift_fix =
     \<lparr>pic0 = zero_pic, pic1 = zero_pic, parent_irq = [],
      time_drift_fix = drift_fix, timer_acks = 0, timer_ints_to_push = 0\<rparr>"

section \<open>Saved state\<close>

text \<open>
  With the controller in the kernel, saving first copies the kernel's registers into the device and
  loading then copies the device's registers into the kernel. \<open>kernel_pic\<close> is the kernel's chip,
  which the two ioctls read and replace, and \<open>None\<close> when the controller is emulated.
\<close>

record kvm_pic_state =
  k_last_irr :: byte
  k_irr :: byte
  k_imr :: byte
  k_isr :: byte
  k_priority_add :: byte
  k_irq_base :: byte
  k_read_reg_select :: byte
  k_poll :: byte
  k_special_mask :: byte
  k_init_state :: byte
  k_auto_eoi :: byte
  k_rotate_on_auto_eoi :: byte
  k_special_fully_nested_mode :: byte
  k_init4 :: byte
  k_elcr :: byte
  k_elcr_mask :: byte

record pic_dev =
  dev_pic :: PicState
  kernel_pic :: "kvm_pic_state option"

definition kvm_kernel_pic_save_to_user :: "kvm_pic_state \<Rightarrow> PicState \<Rightarrow> PicState" where
  "kvm_kernel_pic_save_to_user kpic s =
     s\<lparr>last_irr := k_last_irr kpic,
       irr := k_irr kpic,
       imr := k_imr kpic,
       isr := k_isr kpic,
       priority_add := k_priority_add kpic,
       irq_base := k_irq_base kpic,
       read_reg_select := k_read_reg_select kpic,
       poll := k_poll kpic,
       special_mask := k_special_mask kpic,
       init_state := k_init_state kpic,
       auto_eoi := k_auto_eoi kpic,
       rotate_on_auto_eoi := k_rotate_on_auto_eoi kpic,
       special_fully_nested_mode := k_special_fully_nested_mode kpic,
       init4 := k_init4 kpic,
       elcr := k_elcr kpic,
       elcr_mask := k_elcr_mask kpic\<rparr>"

definition kvm_kernel_pic_load_from_user :: "PicState \<Rightarrow> kvm_pic_state" where
  "kvm_kernel_pic_load_from_user s =
     \<lparr>k_last_irr = last_irr s,
      k_irr = irr s,
      k_imr = imr s,
      k_isr = isr s,
      k_priority_add = priority_add s,
      k_irq_base = irq_base s,
      k_read_reg_select = read_reg_select s,
      k_poll = poll s,
      k_special_mask = special_mask s,
      k_init_state = init_state s,
      k_auto_eoi = auto_eoi s,
      k_rotate_on_auto_eoi = rotate_on_auto_eoi s,
      k_special_fully_nested_mode = special_fully_nested_mode s,
      k_init4 = init4 s,
      k_elcr = elcr s,
      k_elcr_mask = elcr_mask s\<rparr>"

definition pic_pre_save :: "pic_dev \<Rightarrow> pic_dev" where
  "pic_pre_save d = (case kernel_pic d of
     None \<Rightarrow> d
   | Some kpic \<Rightarrow> d\<lparr>dev_pic := kvm_kernel_pic_save_to_user kpic (dev_pic d)\<rparr>)"

definition pic_post_load :: "pic_dev \<Rightarrow> int \<Rightarrow> int \<times> pic_dev" where
  "pic_post_load d version_id = (0, case kernel_pic d of
     None \<Rightarrow> d
   | Some _ \<Rightarrow> d\<lparr>kernel_pic := Some (kvm_kernel_pic_load_from_user (dev_pic d))\<rparr>)"

definition pic_u8 :: "string \<Rightarrow> (PicState \<Rightarrow> byte) \<Rightarrow> ((byte \<Rightarrow> byte) \<Rightarrow> PicState \<Rightarrow> PicState) \<Rightarrow> (pic_dev, 'o) VMStateField" where
  "pic_u8 nm rd upd = VMSTATE_UINT8 nm (rd \<circ> dev_pic) (\<lambda>v d. d\<lparr>dev_pic := upd (\<lambda>_. v) (dev_pic d)\<rparr>)"

definition vmstate_pic :: "(pic_dev, 'o) VMStateDescription" where
  "vmstate_pic = \<lparr>vmsd_name = ''i8259'', vmsd_version = 1, minimum_version_id = 1, minimum_version_id_old = 1,
     load_state_old = None, pre_load = None, post_load = Some pic_post_load, pre_save = Some pic_pre_save,
     post_save = None, vmsd_fields =
      [pic_u8 ''last_irr'' last_irr last_irr_update,
       pic_u8 ''irr'' irr irr_update,
       pic_u8 ''imr'' imr imr_update,
       pic_u8 ''isr'' isr isr_update,
       pic_u8 ''priority_add'' priority_add priority_add_update,
       pic_u8 ''irq_base'' irq_base irq_base_update,
       pic_u8 ''read_reg_select'' read_reg_select read_reg_select_update,
       pic_u8 ''poll'' poll poll_update,
       pic_u8 ''special_mask'' special_mask special_mask_update,
       pic_u8 ''init_state'' init_state init_state_update,
       pic_u8 ''auto_eoi'' auto_eoi auto_eoi_update,
       pic_u8 ''rotate_on_auto_eoi'' rotate_on_auto_eoi rotate_on_auto_eoi_update,
       pic_u8 ''special_fully_nested_mode'' special_fully_nested_mode special_fully_nested_mode_update,
       pic_u8 ''init4'' init4 init4_update,
       pic_u8 ''single_mode'' single_mode single_mode_update,
       pic_u8 ''elcr'' elcr elcr_update] \<rparr>"

section \<open>Priority\<close>

lemma priority_loop_first:
  assumes "msk \<noteq> 0"
  shows "p \<le> priority_loop msk add p \<and> bit msk ((priority_loop msk add p + add) mod 8) \<and>
    (\<forall>q. p \<le> q \<and> q < priority_loop msk add p \<longrightarrow> \<not> bit msk ((q + add) mod 8))"
  using assms
proof (induction msk add p rule: priority_loop.induct)
  case (1 msk add p)
  show ?case
  proof (cases "msk AND irq_bit ((p + add) mod 8) = 0")
    case True
    then have "priority_loop msk add p = priority_loop msk add (Suc p)"
      using 1(2) by (subst priority_loop.simps) simp
    moreover have "\<not> bit msk ((p + add) mod 8)" using True by (simp add: and_irq_bit)
    ultimately show ?thesis using 1(1) [OF 1(2) True 1(2)]
      by (metis Suc_leD Suc_leI le_neq_implies_less)
  next
    case False
    then have "priority_loop msk add p = p" using 1(2) by (subst priority_loop.simps) simp
    with False show ?thesis by (auto simp: and_irq_bit)
  qed
qed

text \<open>\<open>prio_of a n\<close> is the priority of line \<open>n\<close> when line \<open>a\<close> has the highest.\<close>

definition prio_of :: "nat \<Rightarrow> nat \<Rightarrow> nat" where
  "prio_of a n = (n + 8 - a mod 8) mod 8"

lemma prio_of_line: "n < 8 \<Longrightarrow> (prio_of a n + a) mod 8 = n"
proof -
  assume n: "n < 8"
  have "a mod 8 < 8" by simp
  have "((n + 8 - a mod 8) mod 8 + a) mod 8 = ((n + 8 - a mod 8) + a mod 8) mod 8"
    by (simp only: mod_add_left_eq mod_add_right_eq)
  also have "\<dots> = (n + 8) mod 8" using \<open>a mod 8 < 8\<close> by simp
  finally show ?thesis using n by (simp add: prio_of_def)
qed

lemma prio_of_less [simp]: "prio_of a n < 8"
  by (simp add: prio_of_def)

lemma prio_of_rotated: "q < 8 \<Longrightarrow> prio_of a ((q + a) mod 8) = q"
proof -
  assume q: "q < 8"
  define r where "r = a mod 8"
  have r: "r < 8" "(q + a) mod 8 = (q + r) mod 8" by (simp_all add: r_def mod_add_right_eq)
  show ?thesis
  proof (cases "q + r < 8")
    case True
    then show ?thesis using q r by (simp add: prio_of_def r_def [symmetric])
  next
    case False
    then have "(q + r) mod 8 = q + r - 8" using q r by (simp add: le_mod_geq)
    then show ?thesis using q r False by (simp add: prio_of_def r_def [symmetric])
  qed
qed

lemma get_priority_0 [simp]: "get_priority s 0 = 8"
  by (simp add: get_priority_def)

lemma get_priority_8: "get_priority s msk = 8 \<longleftrightarrow> msk = 0"
  and get_priority_first: "msk \<noteq> 0 \<Longrightarrow> get_priority s msk < 8 \<and>
     bit msk ((get_priority s msk + unat (priority_add s)) mod 8) \<and>
     (\<forall>n < 8. bit msk n \<longrightarrow> get_priority s msk \<le> prio_of (unat (priority_add s)) n)"
proof -
  let ?a = "unat (priority_add s)" and ?p = "get_priority s msk"
  have first: "?p < 8 \<and> bit msk ((?p + ?a) mod 8) \<and> (\<forall>n < 8. bit msk n \<longrightarrow> ?p \<le> prio_of ?a n)" if nz: "msk \<noteq> 0"
  proof -
    have p: "?p = priority_loop msk ?a 0" using nz by (simp add: get_priority_def)
    have all: "?p \<le> prio_of ?a n" if "n < 8" "bit msk n" for n
      using priority_loop_first [OF nz, of 0 ?a] prio_of_line [OF that(1)] that(2) unfolding p
      by (metis le0 not_le)
    obtain n where "n < 8" "bit msk n" using byte_some_bit [OF nz] by blast
    then have "?p < 8" using all [of n] prio_of_less [of ?a n] by linarith
    with all priority_loop_first [OF nz, of 0 ?a] show ?thesis unfolding p by blast
  qed
  then show "msk \<noteq> 0 \<Longrightarrow> ?p < 8 \<and> bit msk ((?p + ?a) mod 8) \<and> (\<forall>n < 8. bit msk n \<longrightarrow> ?p \<le> prio_of ?a n)"
    by blast
  show "?p = 8 \<longleftrightarrow> msk = 0" using first by (auto simp: get_priority_def)
qed

section \<open>The interrupt the controller wants\<close>

definition requested :: "PicState \<Rightarrow> nat \<Rightarrow> bool" where
  "requested s n \<longleftrightarrow> bit (irr s) n \<and> \<not> bit (imr s) n"

text \<open>The interrupts in service that count: in special mask mode not the masked ones, in special
  fully nested mode not the cascade line of the master.\<close>

definition in_service :: "pic_id \<Rightarrow> PicState \<Rightarrow> nat \<Rightarrow> bool" where
  "in_service which s n \<longleftrightarrow> bit (isr s) n \<and> (special_mask s \<noteq> 0 \<longrightarrow> \<not> bit (imr s) n) \<and>
     (special_fully_nested_mode s \<noteq> 0 \<and> which = Master \<longrightarrow> n \<noteq> 2)"

definition prio :: "PicState \<Rightarrow> nat \<Rightarrow> nat" where
  "prio s n = prio_of (unat (priority_add s)) n"

definition service_mask :: "pic_id \<Rightarrow> PicState \<Rightarrow> byte" where
  "service_mask which s =
     (let m = (if special_mask s \<noteq> 0 then isr s AND NOT (imr s) else isr s)
      in if special_fully_nested_mode s \<noteq> 0 \<and> which = Master then m AND NOT (irq_bit 2) else m)"

lemma bit_irq_bit [simp]: "bit (irq_bit n) k \<longleftrightarrow> k = n \<and> n < 8"
  by (auto simp: irq_bit_def bit_simps)

lemma bit_requests: "n < 8 \<Longrightarrow> bit (irr s AND NOT (imr s)) n \<longleftrightarrow> requested s n"
  by (simp add: requested_def bit_simps)

lemma bit_service_mask: "n < 8 \<Longrightarrow> bit (service_mask which s) n \<longleftrightarrow> in_service which s n"
  by (auto simp: service_mask_def in_service_def Let_def bit_simps)

lemma pic_get_irq_eq:
  "pic_get_irq which s =
     (let p = get_priority s (irr s AND NOT (imr s))
      in if p \<noteq> 8 \<and> p < get_priority s (service_mask which s) then int ((p + unat (priority_add s)) mod 8) else -1)"
  by (simp add: pic_get_irq_def service_mask_def Let_def)

lemma get_priority_prio:
  assumes "msk \<noteq> 0"
  shows "\<exists>n < 8. bit msk n \<and> get_priority s msk = prio s n \<and> (get_priority s msk + unat (priority_add s)) mod 8 = n \<and>
    (\<forall>k < 8. bit msk k \<longrightarrow> prio s n \<le> prio s k)"
proof -
  let ?n = "(get_priority s msk + unat (priority_add s)) mod 8"
  note f = get_priority_first [OF assms, of s]
  have "prio s ?n = get_priority s msk" using f prio_of_rotated by (simp add: prio_def)
  with f show ?thesis by (intro exI [of _ ?n]) (auto simp: prio_def)
qed

text \<open>
  C13. Interrupt selection: \<open>pic_get_irq\<close> returns the unmasked request of the highest priority
  under the current rotation, provided it beats everything in service, and -1 only when every
  unmasked request is held back by an interrupt in service of the same or higher priority.
\<close>

theorem pic_get_irq_selects:
  "(\<exists>n < 8. pic_get_irq which s = int n \<and> requested s n \<and> (\<forall>k < 8. requested s k \<longrightarrow> prio s n \<le> prio s k) \<and>
      (\<forall>k < 8. in_service which s k \<longrightarrow> prio s n < prio s k)) \<or>
   (pic_get_irq which s = -1 \<and>
      (\<forall>n < 8. requested s n \<longrightarrow> (\<exists>k < 8. in_service which s k \<and> prio s k \<le> prio s n)))"
proof (cases "irr s AND NOT (imr s) = 0")
  case True
  then have "pic_get_irq which s = -1" by (simp add: pic_get_irq_eq get_priority_8 Let_def)
  moreover have "\<not> requested s n" if "n < 8" for n using bit_requests [OF that, of s] True by simp
  ultimately show ?thesis by blast
next
  case False
  obtain n where n: "n < 8" "requested s n" "get_priority s (irr s AND NOT (imr s)) = prio s n"
    "(get_priority s (irr s AND NOT (imr s)) + unat (priority_add s)) mod 8 = n"
    "\<forall>k < 8. requested s k \<longrightarrow> prio s n \<le> prio s k"
    using get_priority_prio [OF False, of s] bit_requests by blast
  have p: "prio s n < 8" by (simp add: prio_def)
  then have irq: "pic_get_irq which s = (if prio s n < get_priority s (service_mask which s) then int n else -1)"
    using n by (simp add: pic_get_irq_eq Let_def)
  show ?thesis
  proof (cases "service_mask which s = 0")
    case True
    then have "\<not> in_service which s k" if "k < 8" for k using bit_service_mask [OF that, of which s] by simp
    moreover have "get_priority s (service_mask which s) = 8" using True by (simp add: get_priority_8)
    ultimately show ?thesis using irq n p by auto
  next
    case False
    obtain k where k: "k < 8" "in_service which s k" "get_priority s (service_mask which s) = prio s k"
      "\<forall>j < 8. in_service which s j \<longrightarrow> prio s k \<le> prio s j"
      using get_priority_prio [OF False, of s] bit_service_mask by blast
    show ?thesis
    proof (cases "prio s n < prio s k")
      case True
      then have "\<forall>j < 8. in_service which s j \<longrightarrow> prio s n < prio s j" using k(4) by (meson less_le_trans)
      then show ?thesis using irq n k(3) True by auto
    next
      case False
      then have "\<forall>j < 8. requested s j \<longrightarrow> prio s k \<le> prio s j" using n(5) by (meson le_trans not_less)
      then show ?thesis using irq k False by auto
    qed
  qed
qed

text \<open>Lines 1 and 4 request, 3 is in service and line 4 has the lowest number that was rotated to
  the top: 4 is chosen.\<close>

theorem pic_get_irq_selects_witness:
  "let s = zero_pic\<lparr>irr := 0x12, isr := 0x08, priority_add := 4\<rparr>
   in pic_get_irq Slave s = 4 \<and> (\<exists>n < 8. pic_get_irq Slave s = int n \<and> (\<forall>k < 8. requested s k \<longrightarrow> prio s n \<le> prio s k))"
proof -
  let ?s = "zero_pic\<lparr>irr := 0x12, isr := 0x08, priority_add := 4\<rparr>"
  have "pic_get_irq Slave ?s = 4" by code_simp
  with pic_get_irq_selects [of Slave ?s] show ?thesis by auto
qed

section \<open>Well-formed controllers\<close>

text \<open>
  What the rest of the code relies on: the rotation is a line number, the initialisation is in
  one of its four steps, vectors start at a multiple of eight, and only lines that may be level
  triggered are.
\<close>

definition pic_wf :: "PicState \<Rightarrow> bool" where
  "pic_wf s \<longleftrightarrow> unat (priority_add s) < 8 \<and> unat (init_state s) \<le> 3 \<and> irq_base s AND 7 = 0 \<and> elcr s AND NOT (elcr_mask s) = 0"

definition pics_wf :: "PicState2 \<Rightarrow> bool" where
  "pics_wf s \<longleftrightarrow> pic_wf (pic0 s) \<and> pic_wf (pic1 s) \<and> elcr_mask (pic0 s) = 0xf8 \<and> elcr_mask (pic1 s) = 0xde"

datatype pic_op =
    SetIrq nat int | ReadIrq | WritePort pic_id u32 u32 | ReadPort pic_id u32 | IntackRead | WriteElcr pic_id u32 | ResetPic pic_id

fun pic_exec :: "PicState2 \<Rightarrow> pic_op \<Rightarrow> pic_error + PicState2" where
  "pic_exec s (SetIrq irq level) = Inr (i8259_set_irq s irq level)"
| "pic_exec s ReadIrq = Inr (snd (pic_read_irq s))"
| "pic_exec s (WritePort which addr val) = pic_ioport_write which s addr val"
| "pic_exec s (ReadPort which addr) = Inr (snd (pic_ioport_read which s addr))"
| "pic_exec s IntackRead = Inr (snd (pic_intack_read s))"
| "pic_exec s (WriteElcr which val) = Inr (set_pic s which (elcr_ioport_write (the_pic s which) val))"
| "pic_exec s (ResetPic which) = Inr (set_pic s which (pic_reset (the_pic s which)))"

inductive pic_reachable :: "PicState2 \<Rightarrow> bool" where
  Init: "pic_reachable (i8259_init drift)"
| Step: "pic_reachable s \<Longrightarrow> pic_exec s op = Inr s' \<Longrightarrow> pic_reachable s'"

lemma pic_wf_fields [simp]:
  "pic_wf (s\<lparr>irr := x\<rparr>) = pic_wf s" "pic_wf (s\<lparr>last_irr := x\<rparr>) = pic_wf s" "pic_wf (s\<lparr>isr := x\<rparr>) = pic_wf s"
  "pic_wf (s\<lparr>imr := x\<rparr>) = pic_wf s" "pic_wf (s\<lparr>poll := x\<rparr>) = pic_wf s" "pic_wf (s\<lparr>read_reg_select := x\<rparr>) = pic_wf s"
  "pic_wf (s\<lparr>special_mask := x\<rparr>) = pic_wf s" "pic_wf (s\<lparr>rotate_on_auto_eoi := x\<rparr>) = pic_wf s"
  "pic_wf (s\<lparr>special_fully_nested_mode := x\<rparr>) = pic_wf s" "pic_wf (s\<lparr>auto_eoi := x\<rparr>) = pic_wf s"
  "pic_wf (s\<lparr>init4 := x\<rparr>) = pic_wf s" "pic_wf (s\<lparr>single_mode := x\<rparr>) = pic_wf s"
  by (simp_all add: pic_wf_def)

lemma pic_wf_rotate: "pic_wf s \<Longrightarrow> unat x < 8 \<Longrightarrow> pic_wf (s\<lparr>priority_add := x\<rparr>)"
  by (simp add: pic_wf_def)

lemma pic_wf_step: "pic_wf s \<Longrightarrow> unat x \<le> 3 \<Longrightarrow> pic_wf (s\<lparr>init_state := x\<rparr>)"
  by (simp add: pic_wf_def)

text \<open>The invariant of one controller with its fixed mask, as the operations keep it.\<close>

definition wf_with :: "byte \<Rightarrow> PicState \<Rightarrow> bool" where
  "wf_with m s \<longleftrightarrow> pic_wf s \<and> elcr_mask s = m"

lemma pics_wf_alt: "pics_wf s \<longleftrightarrow> wf_with 0xf8 (pic0 s) \<and> wf_with 0xde (pic1 s)"
  by (auto simp: pics_wf_def wf_with_def)

definition mask_of :: "pic_id \<Rightarrow> byte" where
  "mask_of which = (case which of Master \<Rightarrow> 0xf8 | Slave \<Rightarrow> 0xde)"

lemma pics_wf_the: "pics_wf s \<Longrightarrow> wf_with (mask_of which) (the_pic s which)"
  by (cases which) (auto simp: pics_wf_alt mask_of_def)

lemma pics_wf_set: "pics_wf s \<Longrightarrow> wf_with (mask_of which) p \<Longrightarrow> pics_wf (set_pic s which p)"
  by (cases which) (auto simp: pics_wf_alt mask_of_def)

lemma set_irq1_wf: "wf_with m s \<Longrightarrow> wf_with m (pic_set_irq1 s irq level)"
  by (auto simp: wf_with_def pic_set_irq1_def Let_def pic_wf_def)

lemma intack_wf: "wf_with m s \<Longrightarrow> wf_with m (pic_intack s irq)"
  by (auto simp: wf_with_def pic_intack_def Let_def pic_wf_def bit_facts)

lemma pics_wf_irq [simp]: "pics_wf (qemu_set_irq s l) = pics_wf s"
  by (simp add: pics_wf_def qemu_set_irq_def)

lemma update_irq_wf: "pics_wf s \<Longrightarrow> pics_wf (pic_update_irq s)"
  by (auto simp: pic_update_irq_def Let_def pics_wf_alt qemu_set_irq_def intro!: set_irq1_wf)

lemma push_timer_wf: "pics_wf s \<Longrightarrow> pics_wf (push_timer s irq)"
  by (auto simp: push_timer_def Let_def pics_wf_alt intro!: set_irq1_wf)

lemma read_irq_wf: "pics_wf s \<Longrightarrow> pics_wf (snd (pic_read_irq s))"
proof -
  assume wf: "pics_wf s"
  have ack0: "pics_wf (push_timer (s\<lparr>pic0 := pic_intack (pic0 s) n\<rparr>) k)" for n k
    using wf by (intro push_timer_wf) (simp add: pics_wf_alt intack_wf)
  have ack1: "pics_wf (t\<lparr>pic1 := pic_intack (pic1 t) n\<rparr>)" if "pics_wf t" for t n
    using that by (simp add: pics_wf_alt intack_wf)
  show ?thesis using wf by (auto simp: pic_read_irq_def Let_def intro!: update_irq_wf ack0 ack1)
qed

lemma ocw3_wf: "wf_with m s \<Longrightarrow> wf_with m (pic_ocw3 s val)"
  by (auto simp: wf_with_def pic_ocw3_def Let_def pic_wf_def)

lemma ocw2_wf: "pics_wf s \<Longrightarrow> pics_wf (pic_ocw2 which s val)"
proof -
  assume wf: "pics_wf s"
  let ?p = "the_pic s which"
  have p: "wf_with (mask_of which) ?p" using pics_wf_the [OF wf] .
  then have upd: "wf_with (mask_of which) (?p\<lparr>isr := x\<rparr>)" "wf_with (mask_of which) (?p\<lparr>rotate_on_auto_eoi := x\<rparr>)"
    "unat y < 8 \<Longrightarrow> wf_with (mask_of which) (?p\<lparr>isr := x, priority_add := y\<rparr>)"
    "unat y < 8 \<Longrightarrow> wf_with (mask_of which) (?p\<lparr>priority_add := y\<rparr>)" for x y
    by (auto simp: wf_with_def pic_wf_def)
  show ?thesis
    unfolding pic_ocw2_def Let_def
    using wf by (auto intro!: update_irq_wf pics_wf_set [OF wf] upd simp: bit_facts)
qed

lemma write_wf: "pics_wf s \<Longrightarrow> pic_ioport_write which s addr val = Inr s' \<Longrightarrow> pics_wf s'"
proof -
  assume wf: "pics_wf s" and wr: "pic_ioport_write which s addr val = Inr s'"
  let ?p = "the_pic s which"
  have p: "wf_with (mask_of which) ?p" using pics_wf_the [OF wf] .
  then have upd: "wf_with (mask_of which) ((pic_reset ?p)\<lparr>init_state := 1, init4 := x, single_mode := y\<rparr>)"
    "wf_with (mask_of which) (?p\<lparr>imr := x\<rparr>)"
    "unat y \<le> 3 \<Longrightarrow> wf_with (mask_of which) (?p\<lparr>irq_base := ucast (val AND 0xf8), init_state := y\<rparr>)"
    "unat y \<le> 3 \<Longrightarrow> wf_with (mask_of which) (?p\<lparr>init_state := y\<rparr>)"
    "wf_with (mask_of which) (?p\<lparr>special_fully_nested_mode := x, auto_eoi := y, init_state := 0\<rparr>)" for x y
    by (auto simp: wf_with_def pic_wf_def pic_reset_def bit_facts)
  have low: "pics_wf (qemu_set_irq s 0)" using wf by simp
  show ?thesis
    using wr wf unfolding pic_ioport_write_def Let_def
    by (auto split: if_splits
        intro!: update_irq_wf pics_wf_set [OF wf] pics_wf_set [OF low] upd ocw2_wf ocw3_wf [OF p])
qed

lemma poll_read_wf: "pics_wf s \<Longrightarrow> pics_wf (snd (pic_poll_read which s addr))"
proof -
  assume wf: "pics_wf s"
  have clear0: "pics_wf (t\<lparr>pic0 := (pic0 t)\<lparr>isr := x, irr := y\<rparr>\<rparr>)" if "pics_wf t" for t x y
    using that by (auto simp: pics_wf_alt wf_with_def)
  have clear: "pics_wf (set_pic t which ((the_pic t which)\<lparr>irr := x, isr := y\<rparr>))" if "pics_wf t" for t x y
    using pics_wf_the [OF that, of which] by (intro pics_wf_set [OF that]) (auto simp: wf_with_def)
  show ?thesis using wf by (auto simp: pic_poll_read_def Let_def intro!: update_irq_wf clear clear0)
qed

lemma ioport_read_wf: "pics_wf s \<Longrightarrow> pics_wf (snd (pic_ioport_read which s addr))"
proof -
  assume wf: "pics_wf s"
  obtain r t where t: "pic_poll_read which s addr = (r, t)" by (cases "pic_poll_read which s addr")
  then have "pics_wf t" using poll_read_wf [OF wf, of which addr] by simp
  then have "pics_wf (set_pic t which ((the_pic t which)\<lparr>poll := 0\<rparr>))"
    using pics_wf_the [of t which] by (intro pics_wf_set) (auto simp: wf_with_def)
  then show ?thesis using wf t by (simp add: pic_ioport_read_def Let_def)
qed

lemma intack_read_wf: "pics_wf s \<Longrightarrow> pics_wf (snd (pic_intack_read s))"
proof -
  assume wf: "pics_wf s"
  have sel: "pics_wf (t\<lparr>pic0 := (pic0 t)\<lparr>read_reg_select := 1\<rparr>\<rparr>)" if "pics_wf t" for t
    using that by (auto simp: pics_wf_alt wf_with_def)
  obtain r t where t: "pic_poll_read Master s 0 = (r, t)" by (cases "pic_poll_read Master s 0")
  then have "pics_wf t" using poll_read_wf [OF wf, of Master 0] by simp
  moreover obtain r2 t2 where t2: "pic_poll_read Slave t 0x80 = (r2, t2)" by (cases "pic_poll_read Slave t 0x80")
  ultimately have "pics_wf t2" using poll_read_wf [of t Slave "0x80"] by simp
  with \<open>pics_wf t\<close> t t2 show ?thesis by (simp add: pic_intack_read_def Let_def sel)
qed

lemma set_irq_wf: "pics_wf s \<Longrightarrow> pics_wf (i8259_set_irq s irq level)"
  unfolding i8259_set_irq_def Let_def
  by (intro update_irq_wf pics_wf_set set_irq1_wf pics_wf_the)

lemma pic_exec_wf: "pics_wf s \<Longrightarrow> pic_exec s op = Inr s' \<Longrightarrow> pics_wf s'"
proof (induction s op rule: pic_exec.induct)
  case (6 s which val)
  have "wf_with (mask_of which) (elcr_ioport_write (the_pic s which) val)"
    using pics_wf_the [OF 6(1), of which]
    by (auto simp: elcr_ioport_write_def wf_with_def pic_wf_def and.assoc)
  with 6 show ?case by (auto intro: pics_wf_set)
next
  case (7 s which)
  have "wf_with (mask_of which) (pic_reset (the_pic s which))"
    using pics_wf_the [OF 7(1), of which] by (auto simp: pic_reset_def wf_with_def pic_wf_def)
  with 7 show ?case by (auto intro: pics_wf_set)
qed (auto intro: set_irq_wf read_irq_wf write_wf ioport_read_wf intack_read_wf)

lemma pic_reachable_wf: "pic_reachable s \<Longrightarrow> pics_wf s"
proof (induction rule: pic_reachable.induct)
  case (Init drift)
  then show ?case by (simp add: i8259_init_def pics_wf_def pic_wf_def zero_pic_def)
next
  case (Step s op s')
  then show ?case by (blast intro: pic_exec_wf)
qed

lemma base_multiple: "(b :: byte) AND 7 = 0 \<Longrightarrow> uint b mod 8 = 0 \<and> uint b \<le> 248"
proof -
  assume "b AND 7 = 0"
  moreover have "b AND 7 = take_bit 3 b" by (simp add: take_bit_eq_mask mask_eq_exp_minus_1)
  ultimately have "take_bit 3 (uint b) = 0" by (metis unsigned_take_bit_eq unsigned_0)
  then have m: "uint b mod 8 = 0" by (simp add: take_bit_eq_mod)
  have "uint b < 256" using unsigned_less [of b, where ?'a = int] by simp
  then have "uint b \<le> 248" using m by presburger
  with m show ?thesis by simp
qed

lemma pic_get_irq_range: "-1 \<le> pic_get_irq which s \<and> pic_get_irq which s < 8"
proof -
  have "int (k mod 8) < 8" for k :: nat by simp
  then show ?thesis by (simp add: pic_get_irq_def Let_def)
qed

text \<open>
  C38. Well-formedness and vectors: from reset on, whatever the guest writes to and reads from the
  ports and whatever lines the devices raise, both controllers stay well formed, and the vector
  handed to the CPU is one of the eight that start at the base the guest programmed.
\<close>

theorem pic_vectors:
  assumes "pic_reachable s"
  shows "pics_wf s \<and>
    (\<exists>which n. 0 \<le> n \<and> n < 8 \<and> fst (pic_read_irq s) = uint (irq_base (the_pic s which)) + n \<and>
       uint (irq_base (the_pic s which)) mod 8 = 0 \<and> fst (pic_read_irq s) < 256)"
proof -
  have wf: "pics_wf s" using pic_reachable_wf [OF assms] .
  have base: "uint (irq_base (the_pic s which)) mod 8 = 0" "uint (irq_base (the_pic s which)) \<le> 248" for which
    using base_multiple pics_wf_the [OF wf, of which] by (auto simp: wf_with_def pic_wf_def)
  have keep0: "irq_base (pic0 (push_timer (s\<lparr>pic0 := pic_intack (pic0 s) k\<rparr>) i)) = irq_base (pic0 s)" for k i
    by (simp add: push_timer_def pic_intack_def pic_set_irq1_def Let_def)
  have keep1: "pic1 (push_timer (s\<lparr>pic0 := x\<rparr>) i) = pic1 s" for x i
    by (simp add: push_timer_def Let_def)
  have keepi: "irq_base (pic_intack p k) = irq_base p" for p k by (simp add: pic_intack_def Let_def)
  have "\<exists>which n. 0 \<le> n \<and> n < 8 \<and> fst (pic_read_irq s) = uint (irq_base (the_pic s which)) + n"
  proof (cases "pic_get_irq Master (pic0 s) = 2")
    case True
    then show ?thesis
      using pic_get_irq_range [of Slave "pic1 s"]
      by (intro exI [of _ Slave]) (auto simp: pic_read_irq_def Let_def keep1 keepi)
  next
    case False
    then show ?thesis
      using pic_get_irq_range [of Master "pic0 s"]
      by (intro exI [of _ Master]) (auto simp: pic_read_irq_def Let_def keep0)
  qed
  then obtain which n where "0 \<le> n" "n < 8" "fst (pic_read_irq s) = uint (irq_base (the_pic s which)) + n" by blast
  with base [of which] wf show ?thesis by fastforce
qed

definition ex_pic_setup :: "pic_op list" where
  "ex_pic_setup =
     [WritePort Master 0x20 0x11, WritePort Master 0x21 0x08, WritePort Master 0x21 0x04, WritePort Master 0x21 0x01,
      WritePort Slave 0xa0 0x11, WritePort Slave 0xa1 0x70, WritePort Slave 0xa1 0x02, WritePort Slave 0xa1 0x01]"

fun pic_run :: "PicState2 \<Rightarrow> pic_op list \<Rightarrow> pic_error + PicState2" where
  "pic_run s [] = Inr s"
| "pic_run s (op # ops) = bindR (pic_exec s op) (\<lambda>s'. pic_run s' ops)"

lemma pic_run_reachable: "pic_reachable s \<Longrightarrow> pic_run s ops = Inr s' \<Longrightarrow> pic_reachable s'"
proof (induction ops arbitrary: s)
  case (Cons op ops)
  then show ?case by (auto simp: bindR_Inr_iff intro: pic_reachable.Step)
qed simp

lemma ex_pic_run:
  "\<exists>s. pic_run (i8259_init False) (ex_pic_setup @ [SetIrq 12 1]) = Inr s \<and> fst (pic_read_irq s) = 0x74"
proof -
  have "case pic_run (i8259_init False) (ex_pic_setup @ [SetIrq 12 1]) of
      Inl _ \<Rightarrow> False | Inr s \<Rightarrow> fst (pic_read_irq s) = 0x74"
    by code_simp
  then show ?thesis by (auto split: sum.splits)
qed

theorem pic_vectors_witness:
  "\<exists>s. pic_run (i8259_init False) (ex_pic_setup @ [SetIrq 12 1]) = Inr s \<and> pics_wf s \<and> fst (pic_read_irq s) = 0x74"
  using ex_pic_run pic_vectors [OF pic_run_reachable [OF pic_reachable.Init]] by blast

section \<open>The life of an interrupt\<close>

lemma irq_bit_neq_0: "n < 8 \<Longrightarrow> irq_bit n \<noteq> 0"
  by (metis bit_irq_bit bit_0_eq bot_apply bot_bool_def)

lemma irq_bit_unmasked: "n < 8 \<Longrightarrow> \<not> bit (m :: byte) n \<Longrightarrow> irq_bit n AND NOT m = irq_bit n"
  by (rule bit_eqI) (auto simp: bit_simps)

lemma irq_bit_cleared: "irq_bit n AND NOT (irq_bit n) = 0"
  by (rule bit_eqI) (auto simp: bit_simps)

lemma get_priority_irq_bit:
  assumes "n < 8"
  shows "get_priority s (irq_bit n) < 8 \<and> (get_priority s (irq_bit n) + unat (priority_add s)) mod 8 = n"
  using get_priority_first [OF irq_bit_neq_0 [OF assms], of s] by simp

lemma get_irq_single:
  assumes "n < 8" "irr s = irq_bit n" "\<not> bit (imr s) n" "isr s = 0"
  shows "pic_get_irq which s = int n"
proof -
  have "service_mask which s = 0" using assms(4) by (simp add: service_mask_def Let_def)
  then show ?thesis
    using get_priority_irq_bit [OF assms(1), of s] irq_bit_unmasked [OF assms(1,3)] assms(2)
      irq_bit_neq_0 [OF assms(1)]
    by (simp add: pic_get_irq_eq get_priority_8 Let_def)
qed

lemma get_irq_none: "irr s = 0 \<Longrightarrow> pic_get_irq which s = -1"
  by (simp add: pic_get_irq_eq get_priority_8 Let_def)

lemma rising_edge:
  assumes "n < 8" "pic_get_irq Slave (pic1 s) = -1" "irr (pic0 s) = 0" "isr (pic0 s) = 0"
    and "\<not> bit (imr (pic0 s)) n" "\<not> bit (elcr (pic0 s)) n" "\<not> bit (last_irr (pic0 s)) n"
  shows "i8259_set_irq s n 1 = s\<lparr>pic0 := (pic0 s)\<lparr>irr := irq_bit n, last_irr := last_irr (pic0 s) OR irq_bit n\<rparr>, parent_irq := parent_irq s @ [1]\<rparr>"
proof -
  let ?p = "(pic0 s)\<lparr>irr := irq_bit n, last_irr := last_irr (pic0 s) OR irq_bit n\<rparr>"
  have "pic_set_irq1 (pic0 s) n 1 = ?p" using assms by (simp add: pic_set_irq1_def Let_def and_irq_bit)
  moreover have "pic_get_irq Master ?p = int n" using assms by (intro get_irq_single) simp_all
  ultimately show ?thesis
    using assms(1,2) by (simp add: i8259_set_irq_def pic_update_irq_def qemu_set_irq_def Let_def)
qed

lemma acknowledge:
  assumes "n < 8" "n \<noteq> 2" "\<not> time_drift_fix s" "pic_get_irq Slave (pic1 s) = -1" "irr (pic0 s) = irq_bit n"
    and "isr (pic0 s) = 0" "auto_eoi (pic0 s) = 0" "\<not> bit (imr (pic0 s)) n" "\<not> bit (elcr (pic0 s)) n"
  shows "pic_read_irq s = (uint (irq_base (pic0 s)) + int n, s\<lparr>pic0 := (pic0 s)\<lparr>isr := irq_bit n, irr := 0\<rparr>\<rparr>)"
proof -
  let ?q = "(pic0 s)\<lparr>isr := irq_bit n, irr := 0\<rparr>"
  have "pic_get_irq Master (pic0 s) = int n" using assms by (intro get_irq_single) simp_all
  moreover have "pic_intack (pic0 s) n = ?q"
    using assms irq_bit_cleared by (simp add: pic_intack_def Let_def and_irq_bit)
  ultimately show ?thesis
    using assms(1-4) get_irq_none [of ?q] by (simp add: pic_read_irq_def push_timer_def pic_update_irq_def Let_def)
qed

text \<open>
  Delivery of an interrupt: a rising edge on an idle, unmasked line of the master raises the
  CPU's line once; the acknowledge returns the line's vector, moves the line from requested to
  in service and asks for nothing more; the non-specific end of interrupt clears it again.
\<close>

theorem interrupt_cycle:
  assumes "n < 8" "n \<noteq> 2" and "\<not> time_drift_fix s" and slave: "pic_get_irq Slave (pic1 s) = -1"
    and idle: "irr (pic0 s) = 0" "isr (pic0 s) = 0" "auto_eoi (pic0 s) = 0"
    and line: "\<not> bit (imr (pic0 s)) n" "\<not> bit (elcr (pic0 s)) n" "\<not> bit (last_irr (pic0 s)) n"
  defines "s1 \<equiv> i8259_set_irq s n 1"
  defines "s2 \<equiv> snd (pic_read_irq s1)"
  shows "parent_irq s1 = parent_irq s @ [1] \<and> fst (pic_read_irq s1) = uint (irq_base (pic0 s)) + int n \<and>
    irr (pic0 s2) = 0 \<and> isr (pic0 s2) = irq_bit n \<and> parent_irq s2 = parent_irq s1 \<and>
    (\<exists>s3. pic_ioport_write Master s2 0x20 0x20 = Inr s3 \<and> isr (pic0 s3) = 0 \<and> parent_irq s3 = parent_irq s2)"
proof -
  let ?p = "(pic0 s)\<lparr>irr := irq_bit n, last_irr := last_irr (pic0 s) OR irq_bit n\<rparr>"
  have s1: "s1 = s\<lparr>pic0 := ?p, parent_irq := parent_irq s @ [1]\<rparr>"
    unfolding s1_def by (rule rising_edge [OF assms(1) slave idle(1,2) line])
  let ?q = "?p\<lparr>isr := irq_bit n, irr := 0\<rparr>"
  have read: "pic_read_irq s1 = (uint (irq_base (pic0 s)) + int n, s1\<lparr>pic0 := ?q\<rparr>)"
    using acknowledge [OF assms(1,2), of s1] assms(3) slave idle line by (simp add: s1)
  have s2: "s2 = s1\<lparr>pic0 := ?q\<rparr>" by (simp add: s2_def read)
  let ?e = "?q\<lparr>isr := 0\<rparr>"
  have "get_priority ?q (irq_bit n) \<noteq> 8" "(get_priority ?q (irq_bit n) + unat (priority_add ?q)) mod 8 = n"
    using get_priority_irq_bit [OF assms(1), of ?q] by auto
  moreover have "drop_bit 5 (0x20 :: u32) = 1" by code_simp
  ultimately have "pic_ocw2 Master s2 0x20 = pic_update_irq (s2\<lparr>pic0 := ?e\<rparr>)"
    using irq_bit_cleared [of n] by (simp add: pic_ocw2_def Let_def s2)
  then have "pic_ioport_write Master s2 0x20 0x20 = Inr (s2\<lparr>pic0 := ?e\<rparr>)"
    using slave get_irq_none [of ?e] by (simp add: pic_ioport_write_def Let_def pic_update_irq_def s2 s1)
  then show ?thesis unfolding read by (simp add: s2 s1)
qed

theorem interrupt_cycle_witness:
  "fst (pic_read_irq (i8259_set_irq (i8259_init False) 4 1)) = 4 \<and>
   isr (pic0 (snd (pic_read_irq (i8259_set_irq (i8259_init False) 4 1)))) = irq_bit 4"
proof -
  have "pic_get_irq Slave (pic1 (i8259_init False)) = -1" by (rule get_irq_none) (simp add: i8259_init_def zero_pic_def)
  then show ?thesis
    using interrupt_cycle [of 4 "i8259_init False"] by (simp add: i8259_init_def zero_pic_def)
qed

section \<open>Saving and loading\<close>

definition pic_cp :: "(PicState \<Rightarrow> byte) \<Rightarrow> ((byte \<Rightarrow> byte) \<Rightarrow> PicState \<Rightarrow> PicState) \<Rightarrow> pic_dev codec" where
  "pic_cp rd upd = cp_field (\<lambda>v. [v]) (rd \<circ> dev_pic) (\<lambda>v d. d\<lparr>dev_pic := upd (\<lambda>_. v) (dev_pic d)\<rparr>)"

lemma pic_u8_codec: "field_codec (\<lambda>_ _. True) (pic_u8 nm rd upd) (fst (pic_cp rd upd)) (snd (pic_cp rd upd))"
  unfolding pic_u8_def pic_cp_def by (rule any_field_codecs)

lemma pic_u8_version [simp]: "vf_version (pic_u8 nm rd upd) = 0"
  by (simp add: pic_u8_def vm_macro_defs)

definition pic_codecs :: "pic_dev codec list" where
  "pic_codecs =
     [pic_cp last_irr last_irr_update,
      pic_cp irr irr_update,
      pic_cp imr imr_update,
      pic_cp isr isr_update,
      pic_cp priority_add priority_add_update,
      pic_cp irq_base irq_base_update,
      pic_cp read_reg_select read_reg_select_update,
      pic_cp poll poll_update,
      pic_cp special_mask special_mask_update,
      pic_cp init_state init_state_update,
      pic_cp auto_eoi auto_eoi_update,
      pic_cp rotate_on_auto_eoi rotate_on_auto_eoi_update,
      pic_cp special_fully_nested_mode special_fully_nested_mode_update,
      pic_cp init4 init4_update,
      pic_cp single_mode single_mode_update,
      pic_cp elcr elcr_update]"

lemma vmstate_pic_codec: "fields_codec (\<lambda>_ _. True) 1 (vmsd_fields vmstate_pic) pic_codecs"
  unfolding fields_codec_def vmstate_pic_def pic_codecs_def by (simp add: pic_u8_codec)

lemma vmstate_pic_simps [simp]:
  "vmsd_version vmstate_pic = 1" "minimum_version_id vmstate_pic = 1" "minimum_version_id_old vmstate_pic = 1"
  "pre_load vmstate_pic = None" "post_load vmstate_pic = Some pic_post_load"
  "pre_save vmstate_pic = Some pic_pre_save" "post_save vmstate_pic = None"
  by (simp_all add: vmstate_pic_def)

lemma pic_copy: "cp_all pic_codecs d e = e\<lparr>dev_pic := (dev_pic d)\<lparr>elcr_mask := elcr_mask (dev_pic e)\<rparr>\<rparr>"
  unfolding cp_all_def pic_codecs_def pic_cp_def
  by (cases d, cases e, cases "dev_pic d", cases "dev_pic e") simp

text \<open>The registers the guest sees: the kernel's when the controller runs in the kernel.\<close>

definition guest_pic :: "pic_dev \<Rightarrow> PicState" where
  "guest_pic d = (case kernel_pic d of None \<Rightarrow> dev_pic d | Some kpic \<Rightarrow> kvm_kernel_pic_save_to_user kpic (dev_pic d))"

text \<open>
  C40. A snapshot restores the interrupt controller: a controller saved to a file and loaded into
  another one of the same kind (emulated or in the kernel) gives the guest the registers it had,
  although saving goes through the kernel's copy on one side and loading pushes the registers back
  into the kernel on the other. The one exception is the mask of the level-triggered lines, which is
  that of the receiving device: it is not part of the saved fields.
\<close>

theorem pic_snapshot:
  assumes "(kernel_pic d = None) = (kernel_pic e = None)"
  shows "\<exists>d' f e' f'. vmstate_save_state vmstate_pic d fopen_new = Inr (d', f) \<and>
    vmstate_load_state vmstate_pic e 1 (fopen_old (snd (qemu_fclose f))) = Inr (0, e', f') \<and>
    guest_pic e' = (guest_pic d)\<lparr>elcr_mask := elcr_mask (dev_pic e)\<rparr> \<and> (kernel_pic e' = None) = (kernel_pic d = None)"
proof -
  let ?d = "pic_pre_save d"
  let ?e = "e\<lparr>dev_pic := (dev_pic ?d)\<lparr>elcr_mask := elcr_mask (dev_pic e)\<rparr>\<rparr>"
  let ?e' = "snd (pic_post_load ?e 1)"
  let ?v = "vmstate_pic :: (pic_dev, FILE) VMStateDescription"
  have "after_save ?v d = ?d" "after_load ?v (cp_all pic_codecs ?d e) = (0, ?e')"
    by (simp_all add: after_save_def after_load_def pic_copy pic_post_load_def)
  then have "\<exists>f f'. vmstate_save_state vmstate_pic d fopen_new = Inr (?d, f) \<and>
    vmstate_load_state vmstate_pic e 1 (fopen_old (snd (qemu_fclose f))) = Inr (0, ?e', f')"
    using vmsd_roundtrip [where vmsd = ?v and s = d and t = e and cs = pic_codecs and R = "\<lambda>_ _. True" and r = 0 and t' = ?e']
      vmstate_pic_codec by simp
  moreover have "guest_pic ?e' = (guest_pic d)\<lparr>elcr_mask := elcr_mask (dev_pic e)\<rparr> \<and> (kernel_pic ?e' = None) = (kernel_pic d = None)"
    using assms by (cases "dev_pic d", cases "dev_pic e")
      (auto simp: guest_pic_def pic_pre_save_def pic_post_load_def kvm_kernel_pic_save_to_user_def
        kvm_kernel_pic_load_from_user_def split: option.splits)
  ultimately show ?thesis by metis
qed

definition ex_kernel_pic :: kvm_pic_state where
  "ex_kernel_pic = kvm_kernel_pic_load_from_user (zero_pic\<lparr>imr := 0xb8, irq_base := 8, elcr := 8, elcr_mask := 0xf8\<rparr>)"

text \<open>A chip of the kernel loaded into the device of a new virtual machine: its mask becomes zero.\<close>

theorem pic_snapshot_witness:
  "\<exists>d' f e' f'. vmstate_save_state vmstate_pic \<lparr>dev_pic = zero_pic, kernel_pic = Some ex_kernel_pic\<rparr> fopen_new = Inr (d', f) \<and>
    vmstate_load_state vmstate_pic \<lparr>dev_pic = pic0 (kvm_i8259_init False), kernel_pic = Some ex_kernel_pic\<rparr> 1
      (fopen_old (snd (qemu_fclose f))) = Inr (0, e', f') \<and>
    guest_pic e' = zero_pic\<lparr>imr := 0xb8, irq_base := 8, elcr := 8, elcr_mask := 0\<rparr> \<and> kernel_pic e' \<noteq> None"
  using pic_snapshot [of "\<lparr>dev_pic = zero_pic, kernel_pic = Some ex_kernel_pic\<rparr>"
      "\<lparr>dev_pic = pic0 (kvm_i8259_init False), kernel_pic = Some ex_kernel_pic\<rparr>"]
  by (simp add: guest_pic_def kvm_kernel_pic_save_to_user_def ex_kernel_pic_def kvm_kernel_pic_load_from_user_def
      zero_pic_def kvm_i8259_init_def)

end
