(* ===== verification/I8254.thy ===== *)
theory I8254
  imports SaveVM
begin

text \<open>
  The programmable interval timer, \<^verbatim>\<open>hw/i8254.c\<close> and \<^verbatim>\<open>hw/i8254.h\<close>, with the scaling routine
  \<open>muldiv64\<close> of \<^verbatim>\<open>vl.c\<close>. Times are nanoseconds of the virtual clock (\<open>int64_t\<close>), counter values
  are C integers, and the interrupt line of a channel is the list of the levels set on it. The
  clock is an argument: one reading \<open>now\<close>, or a sequence \<open>clk\<close> of readings where a handler
  reads the clock several times.
\<close>

unbundle bit_operations_syntax

section \<open>Scaling with a 96-bit intermediate result\<close>

definition muldiv64 :: "u64 \<Rightarrow> u32 \<Rightarrow> u32 \<Rightarrow> u64" where
  "muldiv64 a b c =
     (let low = (ucast a :: u32);
          high = (ucast (drop_bit 32 a) :: u32);
          rl = (ucast low :: u64) * ucast b;
          rh = (ucast high :: u64) * ucast b;
          rh = rh + drop_bit 32 rl;
          res_high = (ucast (rh div ucast c) :: u32);
          res_low = (ucast ((push_bit 32 (rh mod ucast c) + (rl AND 0xffffffff)) div ucast c) :: u32)
      in push_bit 32 (ucast res_high) OR ucast res_low)"

definition PIT_FREQ :: u32 where
  "PIT_FREQ = 1193182"

definition get_ticks_per_sec :: u32 where
  "get_ticks_per_sec = 1000000000"

section \<open>State\<close>

record PITChannelState =
  count :: int
  latched_count :: u16
  count_latched :: byte
  status_latched :: byte
  status :: byte
  read_state :: byte
  write_state :: byte
  write_latch :: byte
  rw_mode :: byte
  mode :: byte
  bcd :: byte
  gate :: byte
  count_load_time :: u64
  next_transition_time :: u64
  irq_timer :: "timer option"
  irq :: "int list"

record PITState =
  channels :: "PITChannelState list"
  flags :: u32

text \<open>The device with the globals of the time-drift fix.\<close>

record pit_sys =
  pit :: PITState
  time_drift_fix :: bool
  timer_acks :: int
  timer_interrupts :: int
  timer_ints_to_push :: int

datatype pit_error = DivByZero | BadChannel | Exit

definition RW_STATE_LSB :: byte where "RW_STATE_LSB = 1"
definition RW_STATE_MSB :: byte where "RW_STATE_MSB = 2"
definition RW_STATE_WORD0 :: byte where "RW_STATE_WORD0 = 3"
definition RW_STATE_WORD1 :: byte where "RW_STATE_WORD1 = 4"
definition PIT_FLAGS_HPET_LEGACY :: u32 where "PIT_FLAGS_HPET_LEGACY = 1"

lemmas rw_state_defs = RW_STATE_LSB_def RW_STATE_MSB_def RW_STATE_WORD0_def RW_STATE_WORD1_def

definition chan :: "pit_sys \<Rightarrow> nat \<Rightarrow> PITChannelState" where
  "chan y i = channels (pit y) ! i"

definition set_chan :: "pit_sys \<Rightarrow> nat \<Rightarrow> PITChannelState \<Rightarrow> pit_sys" where
  "set_chan y i s = y\<lparr>pit := (pit y)\<lparr>channels := (channels (pit y))[i := s]\<rparr>\<rparr>"

section \<open>Counting\<close>

definition pit_ticks :: "PITChannelState \<Rightarrow> u64 \<Rightarrow> u64" where
  "pit_ticks s t = muldiv64 (t - count_load_time s) PIT_FREQ get_ticks_per_sec"

definition pit_get_count :: "PITChannelState \<Rightarrow> u64 \<Rightarrow> pit_error + int" where
  "pit_get_count s now =
     (let d = pit_ticks s now; c = (word_of_int (count s) :: u64)
      in if mode s = 0 \<or> mode s = 1 \<or> mode s = 4 \<or> mode s = 5 then Inr (sint (ucast ((c - d) AND 0xffff) :: u32))
         else if c = 0 then Inl DivByZero
         else if mode s = 3 then Inr (sint (ucast (c - (2 * d) mod c) :: u32))
         else Inr (sint (ucast (c - d mod c) :: u32)))"

text \<open>The output of a channel after \<open>d\<close> ticks.\<close>

definition pit_out :: "PITChannelState \<Rightarrow> u64 \<Rightarrow> pit_error + int" where
  "pit_out s d =
     (let c = (word_of_int (count s) :: u64)
      in if mode s = 1 then Inr (of_bool (d < c))
         else if mode s = 2 then if c = 0 then Inl DivByZero else Inr (of_bool (d mod c = 0 \<and> d \<noteq> 0))
         else if mode s = 3 then if c = 0 then Inl DivByZero else Inr (of_bool (d mod c < word_of_int (drop_bit 1 (count s + 1))))
         else if mode s = 4 \<or> mode s = 5 then Inr (of_bool (d = c))
         else Inr (of_bool (c \<le> d)))"

definition pit_get_out1 :: "PITChannelState \<Rightarrow> u64 \<Rightarrow> pit_error + int" where
  "pit_get_out1 s t = pit_out s (pit_ticks s t)"

text \<open>The tick of the next transition, \<open>None\<close> when none will occur.\<close>

definition next_tick :: "PITChannelState \<Rightarrow> u64 \<Rightarrow> pit_error + u64 option" where
  "next_tick s d =
     (let c = (word_of_int (count s) :: u64)
      in if mode s = 2 then
           if c = 0 then Inl DivByZero
           else let base = (d div c) * c in Inr (Some (if d - base = 0 \<and> d \<noteq> 0 then base + c else base + c + 1))
         else if mode s = 3 then
           if c = 0 then Inl DivByZero
           else let base = (d div c) * c; period2 = word_of_int (drop_bit 1 (count s + 1))
                in Inr (Some (if d - base < period2 then base + period2 else base + c))
         else if mode s = 4 \<or> mode s = 5 then
           Inr (if d < c then Some c else if d = c then Some (c + 1) else None)
         else Inr (if d < c then Some c else None))"

definition pit_get_next_transition_time :: "PITChannelState \<Rightarrow> u64 \<Rightarrow> pit_error + u64" where
  "pit_get_next_transition_time s current_time =
     bindR (next_tick s (pit_ticks s current_time)) (\<lambda>n. case n of
       None \<Rightarrow> Inr (- 1)
     | Some n \<Rightarrow>
         let next_time = count_load_time s + muldiv64 n get_ticks_per_sec PIT_FREQ
         in Inr (if next_time \<le> current_time then current_time + 1 else next_time))"

section \<open>The interrupt line and the timer\<close>

definition drift_update :: "pit_sys \<Rightarrow> int \<Rightarrow> pit_sys" where
  "drift_update y cnt =
     (let pit_ticks_per_sec = (if cnt > 0 then uint PIT_FREQ div cnt else 0);
          timer_max_fix = pit_ticks_per_sec div 20;
          delta = timer_interrupts y - timer_acks y;
          max_delta = pit_ticks_per_sec * 60;
          y = (if delta > max_delta \<and> pit_ticks_per_sec > 0
               then y\<lparr>timer_acks := timer_interrupts y, timer_ints_to_push := 0\<rparr>
               else if delta > 0 then y\<lparr>timer_ints_to_push := min delta timer_max_fix\<rparr>
               else y)
      in y\<lparr>timer_interrupts := timer_interrupts y + 1\<rparr>)"

definition pit_irq_timer_update :: "pit_sys \<Rightarrow> nat \<Rightarrow> u64 \<Rightarrow> pit_error + pit_sys" where
  "pit_irq_timer_update y i current_time =
     (let s = chan y i
      in case irq_timer s of
           None \<Rightarrow> Inr y
         | Some _ \<Rightarrow>
             bindR (pit_get_next_transition_time s current_time) (\<lambda>expire_time.
             bindR (pit_get_out1 s current_time) (\<lambda>irq_level.
             let y = (if time_drift_fix y \<and> irq_level = 1 then drift_update y (count s) else y)
             in Inr (set_chan y i (s\<lparr>irq := irq s @ [irq_level], next_transition_time := expire_time,
                       irq_timer := Some (if expire_time \<noteq> - 1 then Some expire_time else None)\<rparr>)))))"

definition pit_irq_timer :: "pit_sys \<Rightarrow> nat \<Rightarrow> pit_error + pit_sys" where
  "pit_irq_timer y i = pit_irq_timer_update y i (next_transition_time (chan y i))"

definition pit_set_gate :: "pit_sys \<Rightarrow> nat \<Rightarrow> byte \<Rightarrow> u64 \<Rightarrow> pit_error + pit_sys" where
  "pit_set_gate y i val now =
     (let s = chan y i
      in bindR (if (mode s = 1 \<or> mode s = 5 \<or> mode s = 2 \<or> mode s = 3) \<and> gate s < val
                then pit_irq_timer_update (set_chan y i (s\<lparr>count_load_time := now\<rparr>)) i now
                else Inr y)
           (\<lambda>y. Inr (set_chan y i ((chan y i)\<lparr>gate := val\<rparr>))))"

definition pit_get_out :: "pit_sys \<Rightarrow> nat \<Rightarrow> u64 \<Rightarrow> pit_error + int" where
  "pit_get_out y i t = pit_get_out1 (chan y i) t"

definition pit_get_gate :: "pit_sys \<Rightarrow> nat \<Rightarrow> int" where
  "pit_get_gate y i = uint (gate (chan y i))"

definition pit_get_initial_count :: "pit_sys \<Rightarrow> nat \<Rightarrow> int" where
  "pit_get_initial_count y i = count (chan y i)"

definition pit_get_mode :: "pit_sys \<Rightarrow> nat \<Rightarrow> int" where
  "pit_get_mode y i = uint (mode (chan y i))"

section \<open>Ports\<close>

definition pit_load_count :: "pit_sys \<Rightarrow> int \<Rightarrow> nat \<Rightarrow> u64 \<Rightarrow> pit_error + pit_sys" where
  "pit_load_count y val i now =
     (let val = (if val = 0 then 0x10000 else val);
          y = set_chan y i ((chan y i)\<lparr>count_load_time := now, count := val\<rparr>)
      in if i = 0 \<and> flags (pit y) AND PIT_FLAGS_HPET_LEGACY \<noteq> 0 then Inr y
         else pit_irq_timer_update y i now)"

definition pit_latch_count :: "PITChannelState \<Rightarrow> u64 \<Rightarrow> pit_error + PITChannelState" where
  "pit_latch_count s now =
     (if count_latched s = 0
      then bindR (pit_get_count s now) (\<lambda>n. Inr (s\<lparr>latched_count := word_of_int n, count_latched := rw_mode s\<rparr>))
      else Inr s)"

definition pit_latch_status :: "PITChannelState \<Rightarrow> u64 \<Rightarrow> pit_error + PITChannelState" where
  "pit_latch_status s now =
     (if status_latched s = 0
      then bindR (pit_get_out1 s now) (\<lambda>out.
             Inr (s\<lparr>status := push_bit 7 (word_of_int out) OR push_bit 4 (rw_mode s) OR push_bit 1 (mode s) OR bcd s,
                    status_latched := 1\<rparr>))
      else Inr s)"

text \<open>The read back command; channel \<open>i\<close> reads the clock for the \<open>2 i\<close>-th and \<open>2 i + 1\<close>-th time.\<close>

fun pit_read_back :: "pit_sys \<Rightarrow> (nat \<Rightarrow> u64) \<Rightarrow> u32 \<Rightarrow> nat list \<Rightarrow> pit_error + pit_sys" where
  "pit_read_back y clk val [] = Inr y"
| "pit_read_back y clk val (i # is) =
     (if val AND push_bit i 2 \<noteq> 0
      then bindR (if val AND 0x20 = 0 then pit_latch_count (chan y i) (clk (2 * i)) else Inr (chan y i)) (\<lambda>s.
           bindR (if val AND 0x10 = 0 then pit_latch_status s (clk (2 * i + 1)) else Inr s) (\<lambda>s.
           pit_read_back (set_chan y i s) clk val is))
      else pit_read_back y clk val is)"

definition pit_ioport_write :: "pit_sys \<Rightarrow> (nat \<Rightarrow> u64) \<Rightarrow> u32 \<Rightarrow> u32 \<Rightarrow> pit_error + pit_sys" where
  "pit_ioport_write y clk addr val =
     (let addr = addr AND 3
      in if addr = 3 then
           let channel = unat (drop_bit 6 val)
           in if channel = 3 then pit_read_back y clk val [0, 1, 2]
              else if 3 < channel then Inl BadChannel
              else let s = chan y channel; acc = drop_bit 4 val AND 3
                   in if acc = 0 then bindR (pit_latch_count s (clk 0)) (\<lambda>s. Inr (set_chan y channel s))
                      else Inr (set_chan y channel
                             (s\<lparr>rw_mode := ucast acc, read_state := ucast acc, write_state := ucast acc,
                                mode := ucast (drop_bit 1 val AND 7), bcd := ucast (val AND 1)\<rparr>))
         else
           let i = unat addr; s = chan y i
           in if write_state s = RW_STATE_MSB then pit_load_count y (sint (push_bit 8 val)) i (clk 0)
              else if write_state s = RW_STATE_WORD0
              then Inr (set_chan y i (s\<lparr>write_latch := ucast val, write_state := RW_STATE_WORD1\<rparr>))
              else if write_state s = RW_STATE_WORD1
              then bindR (pit_load_count y (sint (ucast (write_latch s) OR push_bit 8 val)) i (clk 0)) (\<lambda>y.
                     Inr (set_chan y i ((chan y i)\<lparr>write_state := RW_STATE_WORD0\<rparr>)))
              else pit_load_count y (sint val) i (clk 0))"

definition pit_read_channel :: "PITChannelState \<Rightarrow> u64 \<Rightarrow> pit_error + int \<times> PITChannelState" where
  "pit_read_channel s now =
     (if status_latched s \<noteq> 0 then Inr (uint (status s), s\<lparr>status_latched := 0\<rparr>)
      else if count_latched s \<noteq> 0 then
        if count_latched s = RW_STATE_MSB then Inr (uint (drop_bit 8 (latched_count s)), s\<lparr>count_latched := 0\<rparr>)
        else if count_latched s = RW_STATE_WORD0
        then Inr (uint (latched_count s AND 0xff), s\<lparr>count_latched := RW_STATE_MSB\<rparr>)
        else Inr (uint (latched_count s AND 0xff), s\<lparr>count_latched := 0\<rparr>)
      else bindR (pit_get_count s now) (\<lambda>n.
        if read_state s = RW_STATE_MSB then Inr (drop_bit 8 n AND 0xff, s)
        else if read_state s = RW_STATE_WORD0 then Inr (n AND 0xff, s\<lparr>read_state := RW_STATE_WORD1\<rparr>)
        else if read_state s = RW_STATE_WORD1 then Inr (drop_bit 8 n AND 0xff, s\<lparr>read_state := RW_STATE_WORD0\<rparr>)
        else Inr (n AND 0xff, s)))"

definition pit_ioport_read :: "pit_sys \<Rightarrow> u64 \<Rightarrow> u32 \<Rightarrow> pit_error + u32 \<times> pit_sys" where
  "pit_ioport_read y now addr =
     (let i = unat (addr AND 3)
      in if 3 \<le> i then Inl BadChannel
         else bindR (pit_read_channel (chan y i) now) (\<lambda>(ret, s). Inr (word_of_int ret, set_chan y i s)))"

section \<open>Creation and reset\<close>

fun pit_reset_loop :: "pit_sys \<Rightarrow> (nat \<Rightarrow> u64) \<Rightarrow> nat list \<Rightarrow> pit_error + pit_sys" where
  "pit_reset_loop y clk [] = Inr y"
| "pit_reset_loop y clk (i # is) =
     bindR (pit_load_count (set_chan y i ((chan y i)\<lparr>mode := 3, gate := of_bool (i \<noteq> 2)\<rparr>)) 0 i (clk i))
       (\<lambda>y. pit_reset_loop y clk is)"

definition pit_reset :: "pit_sys \<Rightarrow> (nat \<Rightarrow> u64) \<Rightarrow> pit_error + pit_sys" where
  "pit_reset y clk =
     pit_reset_loop (y\<lparr>pit := (pit y)\<lparr>flags := flags (pit y) AND NOT PIT_FLAGS_HPET_LEGACY\<rparr>\<rparr>) clk [0, 1, 2]"

text \<open>
  Leaving and entering the legacy mode of the high-precision timer. \<open>kvm\<close> is present when the timer
  runs in the kernel: whether the kernel supports the extended state, and what it does then.
\<close>

definition hpet_disable_pit :: "(bool \<times> (pit_sys \<Rightarrow> pit_sys)) option \<Rightarrow> pit_sys \<Rightarrow> pit_error + pit_sys" where
  "hpet_disable_pit kvm y = (case kvm of
     Some (has_pit_state2, kpit) \<Rightarrow> if has_pit_state2 then Inr (kpit y) else Inl Exit
   | None \<Rightarrow>
       let y = y\<lparr>pit := (pit y)\<lparr>flags := flags (pit y) OR PIT_FLAGS_HPET_LEGACY\<rparr>\<rparr>
       in Inr (case irq_timer (chan y 0) of
                 None \<Rightarrow> y
               | Some _ \<Rightarrow> set_chan y 0 ((chan y 0)\<lparr>irq_timer := Some None\<rparr>)))"

definition hpet_enable_pit :: "(bool \<times> (pit_sys \<Rightarrow> pit_sys)) option \<Rightarrow> pit_sys \<Rightarrow> u64 \<Rightarrow> pit_error + pit_sys" where
  "hpet_enable_pit kvm y now = (case kvm of
     Some (has_pit_state2, kpit) \<Rightarrow> if has_pit_state2 then Inr (kpit y) else Inl Exit
   | None \<Rightarrow>
       let y = y\<lparr>pit := (pit y)\<lparr>flags := flags (pit y) AND NOT PIT_FLAGS_HPET_LEGACY\<rparr>\<rparr>
       in pit_load_count y (count (chan y 0)) 0 now)"

definition zero_channel :: PITChannelState where
  "zero_channel =
     \<lparr>count = 0, latched_count = 0, count_latched = 0, status_latched = 0, status = 0, read_state = 0, write_state = 0,
      write_latch = 0, rw_mode = 0, mode = 0, bcd = 0, gate = 0, count_load_time = 0, next_transition_time = 0,
      irq_timer = None, irq = []\<rparr>"

definition pit_init :: "bool \<Rightarrow> pit_sys" where
  "pit_init drift_fix =
     \<lparr>pit = \<lparr>channels = [zero_channel\<lparr>irq_timer := Some None\<rparr>, zero_channel, zero_channel], flags = 0\<rparr>,
      time_drift_fix = drift_fix, timer_acks = 0, timer_interrupts = 0, timer_ints_to_push = 0\<rparr>"

section \<open>Saved state\<close>

definition vmstate_pit_channel :: "(PITChannelState, 'o) VMStateDescription" where
  "vmstate_pit_channel = \<lparr>vmsd_name = ''pit channel'', vmsd_version = 2, minimum_version_id = 2, minimum_version_id_old = 2,
     load_state_old = None, pre_load = None, post_load = None, pre_save = None, post_save = None, vmsd_fields =
      [VMSTATE_INT32 ''count'' (\<lambda>s. word_of_int (count s)) (\<lambda>v s. s\<lparr>count := sint v\<rparr>),
       VMSTATE_UINT16 ''latched_count'' latched_count (\<lambda>v s. s\<lparr>latched_count := v\<rparr>),
       VMSTATE_UINT8 ''count_latched'' count_latched (\<lambda>v s. s\<lparr>count_latched := v\<rparr>),
       VMSTATE_UINT8 ''status_latched'' status_latched (\<lambda>v s. s\<lparr>status_latched := v\<rparr>),
       VMSTATE_UINT8 ''status'' status (\<lambda>v s. s\<lparr>status := v\<rparr>),
       VMSTATE_UINT8 ''read_state'' read_state (\<lambda>v s. s\<lparr>read_state := v\<rparr>),
       VMSTATE_UINT8 ''write_state'' write_state (\<lambda>v s. s\<lparr>write_state := v\<rparr>),
       VMSTATE_UINT8 ''write_latch'' write_latch (\<lambda>v s. s\<lparr>write_latch := v\<rparr>),
       VMSTATE_UINT8 ''rw_mode'' rw_mode (\<lambda>v s. s\<lparr>rw_mode := v\<rparr>),
       VMSTATE_UINT8 ''mode'' mode (\<lambda>v s. s\<lparr>mode := v\<rparr>),
       VMSTATE_UINT8 ''bcd'' bcd (\<lambda>v s. s\<lparr>bcd := v\<rparr>),
       VMSTATE_UINT8 ''gate'' gate (\<lambda>v s. s\<lparr>gate := v\<rparr>),
       VMSTATE_INT64 ''count_load_time'' count_load_time (\<lambda>v s. s\<lparr>count_load_time := v\<rparr>),
       VMSTATE_INT64 ''next_transition_time'' next_transition_time (\<lambda>v s. s\<lparr>next_transition_time := v\<rparr>)]\<rparr>"

definition PIT_SAVEVM_VERSION :: int where "PIT_SAVEVM_VERSION = 2"

text \<open>The loader of the old format, one channel after the other.\<close>

definition pit_load_old_channel :: "PITChannelState \<Rightarrow> 'o QEMUFile \<Rightarrow> qf_error + PITChannelState \<times> 'o QEMUFile" where
  "pit_load_old_channel s f =
     bindR (qemu_get_be32 f) (\<lambda>(cnt, f).
     bindR (get_u16 f) (\<lambda>(lc, f).
     bindR (qemu_get_byte f) (\<lambda>(b0, f).
     bindR (qemu_get_byte f) (\<lambda>(b1, f).
     bindR (qemu_get_byte f) (\<lambda>(b2, f).
     bindR (qemu_get_byte f) (\<lambda>(b3, f).
     bindR (qemu_get_byte f) (\<lambda>(b4, f).
     bindR (qemu_get_byte f) (\<lambda>(b5, f).
     bindR (qemu_get_byte f) (\<lambda>(b6, f).
     bindR (qemu_get_byte f) (\<lambda>(b7, f).
     bindR (qemu_get_byte f) (\<lambda>(b8, f).
     bindR (qemu_get_byte f) (\<lambda>(b9, f).
     bindR (qemu_get_be64 f) (\<lambda>(clt, f).
       let s = s\<lparr>count := sint cnt, latched_count := lc, count_latched := b0, status_latched := b1, status := b2,
                 read_state := b3, write_state := b4, write_latch := b5, rw_mode := b6, mode := b7, bcd := b8, gate := b9,
                 count_load_time := clt\<rparr>
       in case irq_timer s of
            None \<Rightarrow> Inr (s, f)
          | Some _ \<Rightarrow>
              bindR (qemu_get_be64 f) (\<lambda>(nt, f).
              bindR (qemu_get_timer f) (\<lambda>(tm, f).
                Inr (s\<lparr>next_transition_time := nt, irq_timer := Some tm\<rparr>, f))))))))))))))))"

fun pit_load_old_channels :: "PITChannelState list \<Rightarrow> 'o QEMUFile \<Rightarrow> qf_error + PITChannelState list \<times> 'o QEMUFile" where
  "pit_load_old_channels [] f = Inr ([], f)"
| "pit_load_old_channels (s # ss) f =
     bindR (pit_load_old_channel s f) (\<lambda>(s, f).
     bindR (pit_load_old_channels ss f) (\<lambda>(ss, f). Inr (s # ss, f)))"

definition pit_load_old :: "PITState \<Rightarrow> int \<Rightarrow> 'o QEMUFile \<Rightarrow> qf_error + int \<times> PITState \<times> 'o QEMUFile" where
  "pit_load_old p version_id f =
     (if version_id \<noteq> PIT_SAVEVM_VERSION then Inr (- EINVAL, p, f)
      else bindR (qemu_get_be32 f) (\<lambda>(fl, f).
           bindR (pit_load_old_channels (channels p) f) (\<lambda>(cs, f).
             Inr (0, p\<lparr>flags := fl, channels := cs\<rparr>, f))))"

text \<open>The timer of channel 0, which exists as soon as the device is created.\<close>

definition timer0 :: "PITState \<Rightarrow> timer" where
  "timer0 p = (case irq_timer (channels p ! 0) of Some tm \<Rightarrow> tm | None \<Rightarrow> None)"

definition set_timer0 :: "timer \<Rightarrow> PITState \<Rightarrow> PITState" where
  "set_timer0 tm p = p\<lparr>channels := (channels p)[0 := (channels p ! 0)\<lparr>irq_timer := Some tm\<rparr>]\<rparr>"

definition vmstate_pit :: "(PITState, 'o) VMStateDescription" where
  "vmstate_pit = \<lparr>vmsd_name = ''i8254'', vmsd_version = 2, minimum_version_id = 2, minimum_version_id_old = 1,
     load_state_old = Some pit_load_old, pre_load = None, post_load = None, pre_save = None, post_save = None, vmsd_fields =
      [VMSTATE_UINT32 ''flags'' flags (\<lambda>v p. p\<lparr>flags := v\<rparr>),
       VMSTATE_STRUCT_ARRAY ''channels'' 2 3 vmstate_pit_channel channels (\<lambda>v p. p\<lparr>channels := v\<rparr>),
       VMSTATE_TIMER ''channels[0].irq_timer'' timer0 set_timer0]\<rparr>"

section \<open>Scaling is exact\<close>

lemma muldiv_split:
  fixes H L b c :: nat
  assumes "0 < c"
  defines "rh \<equiv> H * b + L * b div 2 ^ 32"
  shows "(H * 2 ^ 32 + L) * b div c = rh div c * 2 ^ 32 + (rh mod c * 2 ^ 32 + L * b mod 2 ^ 32) div c"
proof -
  have "(H * 2 ^ 32 + L) * b = H * b * 2 ^ 32 + (L * b div 2 ^ 32 * 2 ^ 32 + L * b mod 2 ^ 32)"
    by (simp add: algebra_simps)
  also have "\<dots> = rh * 2 ^ 32 + L * b mod 2 ^ 32" by (simp add: rh_def algebra_simps)
  also have "rh * 2 ^ 32 = (rh div c * 2 ^ 32) * c + rh mod c * 2 ^ 32"
    using div_mult_mod_eq [of rh c] by (metis add_mult_distrib mult.assoc mult.commute)
  finally have "(H * 2 ^ 32 + L) * b = (rh div c * 2 ^ 32) * c + (rh mod c * 2 ^ 32 + L * b mod 2 ^ 32)"
    by simp
  then show ?thesis using assms(1) by simp
qed

lemma unat_shift_or:
  "unat (push_bit 32 (ucast (h :: u32)) OR ucast (l :: u32) :: u64) = unat h * 2 ^ 32 + unat l"
proof -
  have "push_bit 32 (ucast h :: u64) AND ucast l = 0"
    by (rule bit_eqI) (auto simp: bit_simps dest: bit_imp_le_length)
  then have "push_bit 32 (ucast h) OR ucast l = push_bit 32 (ucast h :: u64) + (ucast l :: u64)"
    by (simp add: disjunctive_add bit_eq_iff bit_simps)
  moreover have "unat (push_bit 32 (ucast h :: u64) + (ucast l :: u64)) = unat h * 2 ^ 32 + unat l"
    using unsigned_less [of h, where ?'a = nat] unsigned_less [of l, where ?'a = nat]
    by (simp add: push_bit_eq_mult unat_word_ariths unsigned_ucast_eq take_bit_nat_eq_self)
  ultimately show ?thesis by simp
qed

lemma unat_u32: "unat (w :: u32) < 2 ^ 32"
  using unsigned_less [of w, where ?'a = nat] by simp

lemma unat_and_32: "unat (w AND 0xffffffff :: u64) = unat w mod 2 ^ 32"
proof -
  have "(0xffffffff :: u64) = mask 32" by (simp add: mask_eq_exp_minus_1)
  then have "w AND 0xffffffff = take_bit 32 w" by (simp add: take_bit_eq_mask)
  then show ?thesis by (simp add: take_bit_eq_mod unat_mod)
qed

lemma unat_up [simp]: "unat (ucast (w :: u32) :: u64) = unat w"
  using unsigned_less [of w, where ?'a = nat] by (simp add: unsigned_ucast_eq take_bit_nat_eq_self)

lemma muldiv_bounds:
  fixes H L b c :: nat
  assumes "H < 2 ^ 32" "L < 2 ^ 32" "b < 2 ^ 32"
  shows "L * b < 2 ^ 64" "H * b + L * b div 2 ^ 32 < 2 ^ 64"
proof -
  have "L * b \<le> (2 ^ 32 - 1) * (2 ^ 32 - 1)" "H * b \<le> (2 ^ 32 - 1) * (2 ^ 32 - 1)"
    using assms by (intro mult_mono; simp)+
  then show "L * b < 2 ^ 64" "H * b + L * b div 2 ^ 32 < 2 ^ 64" by simp_all
qed

lemma unat_muldiv64:
  assumes "c \<noteq> 0"
  shows "unat (muldiv64 a b c) = unat a * unat b div unat c mod 2 ^ 64"
proof -
  define l h where "l = (ucast a :: u32)" and "h = (ucast (drop_bit 32 a) :: u32)"
  let ?L = "unat l" and ?H = "unat h"
  let ?rl = "ucast l * ucast b :: u64"
  let ?rh = "ucast h * ucast b + drop_bit 32 ?rl :: u64"
  let ?q = "(push_bit 32 (?rh mod ucast c) + (?rl AND 0xffffffff)) div ucast c :: u64"
  have less: "?H < 2 ^ 32" "?L < 2 ^ 32" "unat b < 2 ^ 32" "unat c < 2 ^ 32" by (simp_all only: unat_u32)
  have c: "0 < unat c" using assms by (simp add: unat_gt_0)
  have a: "unat a = ?H * 2 ^ 32 + ?L"
    using less_mult_imp_div_less [of "unat a" "2 ^ 32" "2 ^ 32"] unsigned_less [of a, where ?'a = nat]
    by (simp add: l_def h_def unsigned_ucast_eq unat_drop_bit_eq drop_bit_eq_div take_bit_eq_mod unat_div)
  have rl: "unat ?rl = ?L * unat b" using muldiv_bounds(1) [OF less(1-3)] by (simp add: unat_word_ariths)
  have rh: "unat ?rh = ?H * unat b + ?L * unat b div 2 ^ 32"
    using muldiv_bounds(2) [OF less(1-3)] rl by (simp add: unat_word_ariths unsigned_drop_bit_eq drop_bit_eq_div)
  have "unat ?rh mod unat c \<le> unat c - 1" using c mod_less_divisor [of "unat c" "unat ?rh"] by linarith
  then have "?L * unat b mod 2 ^ 32 < 2 ^ 32" "unat ?rh mod unat c * 2 ^ 32 \<le> (unat c - 1) * 2 ^ 32"
    by (simp_all del: unat_word_ariths)
  then have small: "unat ?rh mod unat c * 2 ^ 32 + ?L * unat b mod 2 ^ 32 < unat c * 2 ^ 32"
    using c by (simp add: diff_mult_distrib)
  have "unat (push_bit 32 (?rh mod ucast c) + (?rl AND 0xffffffff)) = unat ?rh mod unat c * 2 ^ 32 + ?L * unat b mod 2 ^ 32"
  proof -
    have "unat (?rl AND 0xffffffff) = ?L * unat b mod 2 ^ 32"
      using rl by (simp add: unat_and_32)
    moreover have "unat (push_bit 32 (?rh mod ucast c)) = unat ?rh mod unat c * 2 ^ 32"
      using small less(4) by (simp add: push_bit_eq_mult unat_word_ariths)
    ultimately show ?thesis using small less(4) by (simp add: unat_word_ariths)
  qed
  then have q: "unat ?q = (unat ?rh mod unat c * 2 ^ 32 + ?L * unat b mod 2 ^ 32) div unat c"
    by (simp add: unat_div)
  then have "unat ?q < 2 ^ 32" using small c by (simp add: less_mult_imp_div_less mult.commute)
  then have "unat (muldiv64 a b c) = unat ?rh div unat c mod 2 ^ 32 * 2 ^ 32 + unat ?q"
    unfolding muldiv64_def Let_def unat_shift_or l_def [symmetric] h_def [symmetric]
    by (simp add: unsigned_ucast_eq take_bit_nat_eq_self unat_div take_bit_eq_mod)
  also have "\<dots> = (unat ?rh div unat c * 2 ^ 32 + unat ?q) mod 2 ^ 64"
    using mod_mult2_eq [of "unat ?rh div unat c * 2 ^ 32 + unat ?q" "2 ^ 32" "2 ^ 32"] \<open>unat ?q < 2 ^ 32\<close>
    by (simp add: mult.commute)
  finally show ?thesis using muldiv_split [OF c, of ?H ?L "unat b"] rh q a by simp
qed

text \<open>
  The scaling routine computes \<open>a * b / c\<close> rounded down and reduced to 64 bits, exactly: the two
  32-bit halves, the carry between them and the remainder of the upper half lose nothing, although
  no intermediate result has more than 64 bits.
\<close>

theorem muldiv64_exact:
  assumes "c \<noteq> 0"
  shows "unat (muldiv64 a b c) = unat a * unat b div unat c mod 2 ^ 64"
  by (rule unat_muldiv64 [OF assms])

theorem muldiv64_exact_witness:
  "unat (muldiv64 0xffffffffffffffff PIT_FREQ get_ticks_per_sec) = 0xffffffffffffffff * 1193182 div 1000000000 mod 2 ^ 64"
  using muldiv64_exact [of get_ticks_per_sec "0xffffffffffffffff" PIT_FREQ]
  by (simp add: get_ticks_per_sec_def PIT_FREQ_def)

section \<open>The output between two transitions\<close>

definition count_ok :: "PITChannelState \<Rightarrow> bool" where
  "count_ok s \<longleftrightarrow> 1 \<le> count s \<and> count s \<le> 0x10000"

abbreviation cnt :: "PITChannelState \<Rightarrow> nat" where "cnt s \<equiv> nat (count s)"

text \<open>The output and the next transition over natural numbers.\<close>

fun out_nat :: "byte \<Rightarrow> nat \<Rightarrow> nat \<Rightarrow> bool" where
  "out_nat m c d =
     (if m = 1 then d < c else if m = 2 then d mod c = 0 \<and> d \<noteq> 0 else if m = 3 then d mod c < (c + 1) div 2
      else if m = 4 \<or> m = 5 then d = c else c \<le> d)"

fun next_nat :: "byte \<Rightarrow> nat \<Rightarrow> nat \<Rightarrow> nat option" where
  "next_nat m c d =
     (if m = 2 then Some (d div c * c + (if d mod c = 0 \<and> d \<noteq> 0 then c else c + 1))
      else if m = 3 then Some (d div c * c + (if d mod c < (c + 1) div 2 then (c + 1) div 2 else c))
      else if m = 4 \<or> m = 5 then if d < c then Some c else if d = c then Some (c + 1) else None
      else if d < c then Some c else None)"

declare out_nat.simps [simp del] next_nat.simps [simp del]

lemma count_word: "count_ok s \<Longrightarrow> unat (word_of_int (count s) :: u64) = cnt s \<and> 0 < cnt s \<and> cnt s \<le> 65536"
  by (simp add: count_ok_def unsigned_of_int take_bit_int_eq_self nat_le_iff)

lemma period_word: "count_ok s \<Longrightarrow> unat (word_of_int (drop_bit 1 (count s + 1)) :: u64) = (cnt s + 1) div 2"
proof -
  assume "count_ok s"
  then have "0 \<le> count s" "0 \<le> (count s + 1) div 2" "(count s + 1) div 2 < 18446744073709551616" unfolding count_ok_def by linarith+
  moreover from this have "nat ((count s + 1) div 2) = (cnt s + 1) div 2" by (simp add: nat_div_distrib nat_add_distrib)
  ultimately show ?thesis by (simp add: drop_bit_eq_div unsigned_of_int take_bit_int_eq_self)
qed

lemma count_not_0: "count_ok s \<Longrightarrow> (word_of_int (count s) :: u64) \<noteq> 0"
  using count_word by (metis less_nat_zero_code unsigned_0)

lemma pit_out_nat: "count_ok s \<Longrightarrow> pit_out s d = Inr (of_bool (out_nat (mode s) (cnt s) (unat d)))"
  using count_word [of s] period_word [of s] count_not_0 [of s]
  by (simp add: pit_out_def Let_def out_nat.simps word_less_nat_alt word_le_nat_alt unat_mod word_unat_eq_iff)

lemma next_tick_nat:
  assumes "count_ok s" and "unat d < 2 ^ 63"
  shows "next_tick s d = Inr (map_option of_nat (next_nat (mode s) (cnt s) (unat d)))"
proof -
  let ?c = "word_of_int (count s) :: u64"
  note c = count_word [OF assms(1)] period_word [OF assms(1)] count_not_0 [OF assms(1)]
  have base: "unat (d div ?c * ?c) = unat d div cnt s * cnt s"
    using c le_less_trans [OF div_times_less_eq_dividend [of "unat d" "cnt s"], of "2 ^ 64"] assms(2)
      le_less_trans [OF div_le_dividend [of "unat d" "cnt s"], of "2 ^ 64"]
    by (simp add: unat_word_ariths unat_div)
  have diff: "unat (d - d div ?c * ?c) = unat d mod cnt s"
    using c by (simp add: minus_div_mult_eq_mod unat_mod)
  have of_c: "of_nat (cnt s) = ?c" "(of_nat (Suc (cnt s) div 2) :: u64) = word_of_int (drop_bit (Suc 0) (count s + 1))"
    "of_nat (unat d div cnt s) = d div ?c"
    using c unat_div [of d ?c] by (metis One_nat_def Suc_eq_plus1 of_nat_unat ucast_id)+
  have "d = d div ?c * ?c \<longleftrightarrow> unat d mod cnt s = 0"
    by (metis base add.right_neutral div_mult_mod_eq mod_mult_self2_is_0 word_unat_eq_iff)
  moreover have "d = 0 \<longleftrightarrow> unat d = 0" "d = ?c \<longleftrightarrow> unat d = cnt s" using c by (simp_all add: word_unat_eq_iff)
  ultimately show ?thesis
    using c diff by (simp add: next_tick_def Let_def next_nat.simps word_less_nat_alt of_c add.commute [of 1])
qed

lemma next_nat_stable:
  assumes "m \<noteq> 2" "0 < c" "c \<le> 65536" "d \<le> d'" "\<forall>n. next_nat m c d = Some n \<longrightarrow> d' < n"
  shows "out_nat m c d' = out_nat m c d"
proof (cases "m = 3")
  case True
  let ?b = "d div c * c"
  have d: "d = ?b + d mod c" by simp
  have "d' < ?b + c" using assms True by (auto simp: next_nat.simps split: if_splits)
  then obtain e where e: "d' = ?b + e" "e < c" using assms(4) d by (metis add_less_cancel_left le_add1 le_iff_add le_trans)
  then have "d' mod c = e" by simp
  moreover have "d mod c \<le> e" using d assms(4) e(1) by linarith
  ultimately show ?thesis using assms True e by (auto simp: next_nat.simps out_nat.simps split: if_splits)
qed (use assms in \<open>auto simp: next_nat.simps out_nat.simps split: if_splits\<close>)

lemma next_nat_bounds:
  assumes "0 < c" "c \<le> 65536" "next_nat m c d = Some n"
  shows "d < n \<and> n \<le> d + 65537"
proof -
  define q r where "q = d div c * c" and "r = d mod c"
  have "d = q + r" "r < c" using assms(1) by (simp_all add: q_def r_def)
  with assms show ?thesis unfolding next_nat.simps q_def [symmetric] r_def [symmetric] by (auto split: if_splits)
qed


text \<open>Ticks and nanoseconds.\<close>

definition ticks_of :: "nat \<Rightarrow> nat" where
  "ticks_of t = t * 1193182 div 1000000000"

definition nsecs_of :: "nat \<Rightarrow> nat" where
  "nsecs_of n = n * 1000000000 div 1193182"

lemma ticks_before: "t < nsecs_of n \<Longrightarrow> ticks_of t < n"
  unfolding ticks_of_def nsecs_of_def
  by (simp add: less_mult_imp_div_less less_eq_div_iff_mult_less_eq Suc_le_eq [symmetric])

lemma ticks_mono: "t \<le> u \<Longrightarrow> ticks_of t \<le> ticks_of u"
  unfolding ticks_of_def by (intro div_le_mono mult_le_mono1)

lemma pit_ticks_nat:
  assumes "count_load_time s \<le> t"
  shows "unat (pit_ticks s t) = ticks_of (unat t - unat (count_load_time s))"
proof -
  have "unat t - unat (count_load_time s) < 2 ^ 64" using unsigned_less [of t, where ?'a = nat] by simp
  then have "(unat t - unat (count_load_time s)) * 1193182 div 1000000000 < 2 ^ 64" by (intro less_mult_imp_div_less) simp
  then show ?thesis using assms unat_muldiv64 [of get_ticks_per_sec "t - count_load_time s" PIT_FREQ]
    by (simp add: pit_ticks_def ticks_of_def unat_sub word_le_nat_alt get_ticks_per_sec_def PIT_FREQ_def)
qed

lemma next_time_nat:
  assumes "unat (pit_ticks s now) < 2 ^ 52" and "count_ok s" and "pit_get_next_transition_time s now = Inr nx"
  shows "case next_nat (mode s) (cnt s) (unat (pit_ticks s now)) of
      None \<Rightarrow> nx = - 1
    | Some n \<Rightarrow> nx = (let t = count_load_time s + of_nat (nsecs_of n) in if t \<le> now then now + 1 else t) \<and> nsecs_of n < 2 ^ 63"
proof (cases "next_nat (mode s) (cnt s) (unat (pit_ticks s now))")
  case (Some n)
  let ?d = "unat (pit_ticks s now)"
  have n: "n \<le> ?d + 65537" using next_nat_bounds [OF _ _ Some] count_word [OF assms(2)] by simp
  then have small: "nsecs_of n < 2 ^ 63" "unat (of_nat n :: u64) = n" using assms(1)
    by (simp_all add: nsecs_of_def less_mult_imp_div_less unsigned_of_nat take_bit_nat_eq_self)
  then have "unat (muldiv64 (of_nat n) get_ticks_per_sec PIT_FREQ) = nsecs_of n"
    using unat_muldiv64 [of PIT_FREQ "of_nat n" get_ticks_per_sec]
    by (simp add: PIT_FREQ_def get_ticks_per_sec_def nsecs_of_def)
  then have "muldiv64 (of_nat n) get_ticks_per_sec PIT_FREQ = of_nat (nsecs_of n)" by (metis of_nat_unat ucast_id)
  with assms Some small(1) next_tick_nat [OF assms(2), of "pit_ticks s now"] show ?thesis
    by (simp add: pit_get_next_transition_time_def Let_def)
qed (use assms next_tick_nat [OF assms(2), of "pit_ticks s now"] in \<open>simp add: pit_get_next_transition_time_def\<close>)

text \<open>
  C35. The time the timer is armed for is right, in every mode but 2: it is later than the present, and
  until then the output of the channel does not change, at whatever nanosecond it is looked at; when
  no time is returned (all ones), it never changes again. So sleeping until the returned
  time misses no transition, although ticks and nanoseconds are converted into each other by rounding down.
  Times are below \<open>2 ^ 61\<close> nanoseconds.
\<close>

theorem pit_output_stable:
  assumes "mode s \<noteq> 2" and ok: "count_ok s" and load: "count_load_time s \<le> now" and now: "now < 0x2000000000000000"
    and nx: "pit_get_next_transition_time s now = Inr nx"
  shows "now < nx \<and> (\<forall>t. now \<le> t \<and> t < nx \<and> t < 0x2000000000000000 \<longrightarrow> pit_get_out1 s t = pit_get_out1 s now)"
proof -
  let ?l = "unat (count_load_time s)" and ?d = "unat (pit_ticks s now)" and ?n = "next_nat (mode s) (cnt s) (unat (pit_ticks s now))"
  note c = count_word [OF ok]
  have t: "unat now < 2 ^ 61" "?l \<le> unat now" using load now by (simp_all add: word_le_nat_alt word_less_nat_alt)
  have d: "?d = ticks_of (unat now - ?l)" "?d < 2 ^ 52"
    using pit_ticks_nat [OF load] t by (simp_all add: ticks_of_def less_mult_imp_div_less)
  note nt = next_time_nat [OF d(2) ok nx]
  have stable: "pit_get_out1 s t = pit_get_out1 s now" if t: "now \<le> t" "\<forall>n. ?n = Some n \<longrightarrow> unat t - ?l < nsecs_of n" for t
  proof -
    have le: "count_load_time s \<le> t" using load t(1) by simp
    have "?d \<le> unat (pit_ticks s t)"
      using t(1) by (simp add: d(1) pit_ticks_nat [OF le] ticks_mono diff_le_mono word_le_nat_alt)
    moreover have "\<forall>n. ?n = Some n \<longrightarrow> unat (pit_ticks s t) < n"
      using t(2) ticks_before by (simp add: pit_ticks_nat [OF le])
    ultimately show ?thesis
      using next_nat_stable [OF assms(1), of "cnt s" ?d] c by (simp add: pit_get_out1_def pit_out_nat [OF ok])
  qed
  show ?thesis
  proof (cases ?n)
    case None
    then have "nx = - 1" using nt by simp
    moreover have "now < - 1" using now word_order.extremum by (rule less_le_trans)
    ultimately show ?thesis using None by (auto intro!: stable)
  next
    case (Some n)
    let ?t = "count_load_time s + of_nat (nsecs_of n)"
    have ns: "nsecs_of n < 2 ^ 63" "nx = (if ?t \<le> now then now + 1 else ?t)" using nt Some by (simp_all add: Let_def)
    have ut: "unat ?t = ?l + nsecs_of n"
      using ns(1) t by (simp add: unat_word_ariths unsigned_of_nat take_bit_nat_eq_self)
    have in_time: "unat t - ?l < nsecs_of n" if "now \<le> t" "t < ?t" for t
      using that t(2) ut by (simp add: word_le_nat_alt word_less_nat_alt)
    show ?thesis
    proof (cases "?t \<le> now")
      case True
      then have "nx = now + 1" using ns(2) by simp
      moreover have "unat (now + 1) = unat now + 1" using t(1) by (simp add: unat_word_ariths)
      moreover from this have "t = now" if "now \<le> t" "t < now + 1" for t
        using that by (simp add: word_less_nat_alt word_le_nat_alt word_unat_eq_iff)
      ultimately show ?thesis by (auto simp: word_less_nat_alt)
    next
      case False
      then show ?thesis using ns(2) in_time Some by (auto intro!: stable)
    qed
  qed
qed

definition ex_channel :: PITChannelState where
  "ex_channel = zero_channel\<lparr>count := 1000, mode := 3\<rparr>"

theorem pit_output_stable_witness:
  "(0 :: u64) < 419047 \<and> pit_get_out1 ex_channel 419046 = pit_get_out1 ex_channel 0"
proof -
  have "(0 :: u64) < 419047 \<and> (\<forall>t. 0 \<le> t \<and> t < 419047 \<and> t < 0x2000000000000000 \<longrightarrow> pit_get_out1 ex_channel t = pit_get_out1 ex_channel 0)"
    by (rule pit_output_stable) (code_simp | simp add: ex_channel_def count_ok_def zero_channel_def)+
  from conjunct2 [OF this, rule_format, of 419046] show ?thesis by simp
qed

text \<open>
  In mode 2 (rate generator) the returned transition is late: at a tick where the output is high it falls
  one tick later, but the next transition is said to be a whole period away.
\<close>

theorem pit_rate_generator_late:
  assumes "mode s = 2" and "2 \<le> count s" "count s \<le> 0x10000" and "d \<noteq> 0" "unat d mod nat (count s) = 0" "unat d < 2 ^ 62"
  shows "next_tick s d = Inr (Some (d + word_of_int (count s))) \<and> pit_out s (d + 1) \<noteq> pit_out s d"
proof -
  have ok: "count_ok s" using assms by (simp add: count_ok_def)
  have c: "unat (d + 1) = unat d + 1" "(of_nat (cnt s) :: u64) = word_of_int (count s)" "2 \<le> cnt s"
    using assms by (simp_all add: unat_word_ariths nat_le_iff)
  have "next_nat 2 (cnt s) (unat d) = Some (unat d + cnt s)"
    using assms(4,5) by (simp add: next_nat.simps unat_eq_0 minus_mod_eq_div_mult [symmetric])
  moreover have "out_nat 2 (cnt s) (unat d)" "\<not> out_nat 2 (cnt s) (unat d + 1)"
    using assms(4,5) c(3) by (simp_all add: out_nat.simps unat_eq_0 mod_Suc)
  ultimately show ?thesis
    using next_tick_nat [OF ok, of d] assms(1,6) c by (simp add: pit_out_nat [OF ok])
qed

theorem pit_rate_generator_late_witness:
  "next_tick (ex_channel\<lparr>mode := 2\<rparr>) 3000 = Inr (Some (3000 + word_of_int 1000)) \<and>
   pit_out (ex_channel\<lparr>mode := 2\<rparr>) (3000 + 1) \<noteq> pit_out (ex_channel\<lparr>mode := 2\<rparr>) 3000"
  using pit_rate_generator_late [of "ex_channel\<lparr>mode := 2\<rparr>" 3000] by (simp add: ex_channel_def)

section \<open>No fault and no wild value in any reachable state\<close>

definition chan_wf :: "PITChannelState \<Rightarrow> bool" where
  "chan_wf s \<longleftrightarrow> count_ok s \<and> mode s \<le> 7 \<and> rw_mode s \<le> 3 \<and> count_latched s \<le> 3 \<and> read_state s \<le> 4 \<and> write_state s \<le> 4"

definition pit_wf :: "pit_sys \<Rightarrow> bool" where
  "pit_wf y \<longleftrightarrow> length (channels (pit y)) = 3 \<and> (\<forall>i < 3. chan_wf (chan y i))"

lemma chan_set_chan [simp]:
  "length (channels (pit (set_chan y i s))) = length (channels (pit y))"
  "i < length (channels (pit y)) \<Longrightarrow> chan (set_chan y i s) j = (if i = j then s else chan y j)"
  "flags (pit (set_chan y i s)) = flags (pit y)"
  by (auto simp: chan_def set_chan_def)

lemma pit_wf_set: "pit_wf y \<Longrightarrow> i < 3 \<Longrightarrow> chan_wf s \<Longrightarrow> pit_wf (set_chan y i s)"
  by (auto simp: pit_wf_def)

lemma pit_wf_chan: "pit_wf y \<Longrightarrow> i < 3 \<Longrightarrow> chan_wf (chan y i) \<and> count_ok (chan y i)"
  by (auto simp: pit_wf_def chan_wf_def)

lemma chan_wf_fields [simp]:
  "chan_wf (s\<lparr>count_load_time := t\<rparr>) = chan_wf s" "chan_wf (s\<lparr>gate := g\<rparr>) = chan_wf s"
  "chan_wf (s\<lparr>irq := l\<rparr>) = chan_wf s" "chan_wf (s\<lparr>next_transition_time := t\<rparr>) = chan_wf s"
  "chan_wf (s\<lparr>irq_timer := tm\<rparr>) = chan_wf s" "chan_wf (s\<lparr>write_latch := b\<rparr>) = chan_wf s"
  "chan_wf (s\<lparr>latched_count := n\<rparr>) = chan_wf s" "chan_wf (s\<lparr>status := b\<rparr>) = chan_wf s"
  "chan_wf (s\<lparr>status_latched := b\<rparr>) = chan_wf s" "chan_wf (s\<lparr>bcd := b\<rparr>) = chan_wf s"
  by (simp_all add: chan_wf_def count_ok_def)

lemma chan_wf_update:
  "chan_wf s \<Longrightarrow> 1 \<le> n \<Longrightarrow> n \<le> 0x10000 \<Longrightarrow> chan_wf (s\<lparr>count := n\<rparr>)"
  "chan_wf s \<Longrightarrow> m \<le> 7 \<Longrightarrow> chan_wf (s\<lparr>mode := m\<rparr>)"
  "chan_wf s \<Longrightarrow> b \<le> 3 \<Longrightarrow> chan_wf (s\<lparr>rw_mode := b\<rparr>)"
  "chan_wf s \<Longrightarrow> b \<le> 3 \<Longrightarrow> chan_wf (s\<lparr>count_latched := b\<rparr>)"
  "chan_wf s \<Longrightarrow> b \<le> 4 \<Longrightarrow> chan_wf (s\<lparr>read_state := b\<rparr>)"
  "chan_wf s \<Longrightarrow> b \<le> 4 \<Longrightarrow> chan_wf (s\<lparr>write_state := b\<rparr>)"
  by (simp_all add: chan_wf_def count_ok_def)

lemma pit_get_count_ok: "count_ok s \<Longrightarrow> \<exists>n. pit_get_count s now = Inr n"
  using count_not_0 [of s] by (simp add: pit_get_count_def Let_def)

lemma next_time_ok: "count_ok s \<Longrightarrow> \<exists>nx. pit_get_next_transition_time s now = Inr nx"
  using count_not_0 [of s]
  by (auto simp: pit_get_next_transition_time_def next_tick_def Let_def split: option.splits)

lemma drift_keeps [simp]: "pit (drift_update y n) = pit y"
  by (simp add: drift_update_def Let_def)

lemma pit_wf_drift [simp]: "pit_wf (drift_update y n) = pit_wf y" "chan (drift_update y n) i = chan y i"
  by (simp_all add: pit_wf_def chan_def)

text \<open>An operation on one channel: the channel is well-formed afterwards and the others are untouched.\<close>

definition only_chan :: "nat \<Rightarrow> pit_sys \<Rightarrow> pit_sys \<Rightarrow> bool" where
  "only_chan i y y' \<longleftrightarrow> length (channels (pit y')) = length (channels (pit y)) \<and> chan_wf (chan y' i) \<and>
     (\<forall>j. j \<noteq> i \<longrightarrow> chan y' j = chan y j)"

lemma only_chan_wf: "pit_wf y \<Longrightarrow> only_chan i y y' \<Longrightarrow> pit_wf y'"
  by (metis only_chan_def pit_wf_def)

lemma only_chan_set: "only_chan i (set_chan y i s) y' \<Longrightarrow> i < length (channels (pit y)) \<Longrightarrow> only_chan i y y'"
  by (auto simp: only_chan_def)

lemma timer_update_chan:
  assumes "i < length (channels (pit y))" "chan_wf (chan y i)"
  shows "\<exists>y'. pit_irq_timer_update y i t = Inr y' \<and> only_chan i y y'"
proof (cases "irq_timer (chan y i)")
  case (Some tm)
  have ok: "count_ok (chan y i)" using assms(2) by (simp add: chan_wf_def)
  obtain nx where "pit_get_next_transition_time (chan y i) t = Inr nx" using next_time_ok [OF ok] by blast
  with Some assms ok show ?thesis
    by (auto simp: pit_irq_timer_update_def Let_def pit_get_out1_def pit_out_nat only_chan_def)
qed (use assms in \<open>simp add: pit_irq_timer_update_def only_chan_def\<close>)

lemma timer_update_wf:
  assumes "pit_wf y" "i < 3"
  shows "\<exists>y'. pit_irq_timer_update y i t = Inr y' \<and> pit_wf y'"
  using timer_update_chan [of i y t] pit_wf_chan [OF assms] only_chan_wf [OF assms(1)] assms by (auto simp: pit_wf_def)

lemma load_count_chan:
  assumes "i < length (channels (pit y))" "chan_wf ((chan y i)\<lparr>count := 1\<rparr>)" "0 \<le> val" "val \<le> 0x10000"
  shows "\<exists>y'. pit_load_count y val i now = Inr y' \<and> only_chan i y y'"
proof -
  let ?s = "(chan y i)\<lparr>count_load_time := now, count := if val = 0 then 0x10000 else val\<rparr>"
  have wf: "chan_wf ?s" using assms(2-4) by (simp add: chan_wf_def count_ok_def)
  then have "only_chan i y (set_chan y i ?s)" using assms(1) by (simp add: only_chan_def)
  moreover obtain y' where "pit_irq_timer_update (set_chan y i ?s) i now = Inr y'" "only_chan i (set_chan y i ?s) y'"
    using timer_update_chan [of i "set_chan y i ?s" now] wf assms(1) by auto
  ultimately show ?thesis using only_chan_set [of i y ?s] assms(1) by (auto simp: pit_load_count_def Let_def)
qed

lemma load_count_wf:
  assumes "pit_wf y" "i < 3" "0 \<le> val" "val \<le> 0x10000"
  shows "\<exists>y'. pit_load_count y val i now = Inr y' \<and> pit_wf y'"
  using load_count_chan [of i y val now] pit_wf_chan [OF assms(1,2)] only_chan_wf [OF assms(1)] assms
  by (auto simp: pit_wf_def chan_wf_update)

lemma set_gate_wf: "pit_wf y \<Longrightarrow> i < 3 \<Longrightarrow> \<exists>y'. pit_set_gate y i val now = Inr y' \<and> pit_wf y'"
proof -
  assume a: "pit_wf y" "i < 3"
  then have "pit_wf (set_chan y i ((chan y i)\<lparr>count_load_time := now\<rparr>))" using pit_wf_chan by (simp add: pit_wf_set)
  from timer_update_wf [OF this a(2), of now] obtain y' where
    y': "pit_irq_timer_update (set_chan y i ((chan y i)\<lparr>count_load_time := now\<rparr>)) i now = Inr y'" "pit_wf y'" by blast
  have "pit_wf (set_chan y' i ((chan y' i)\<lparr>gate := val\<rparr>))" "pit_wf (set_chan y i ((chan y i)\<lparr>gate := val\<rparr>))"
    using a y'(2) pit_wf_chan by (simp_all add: pit_wf_set)
  then show ?thesis using y'(1) by (auto simp: pit_set_gate_def Let_def)
qed

lemma latch_count_wf: "chan_wf s \<Longrightarrow> \<exists>s'. pit_latch_count s now = Inr s' \<and> chan_wf s'"
  using pit_get_count_ok [of s now] by (auto simp: pit_latch_count_def chan_wf_update(4) chan_wf_def count_ok_def)

lemma latch_status_wf: "chan_wf s \<Longrightarrow> \<exists>s'. pit_latch_status s now = Inr s' \<and> chan_wf s'"
  by (auto simp: pit_latch_status_def pit_get_out1_def pit_out_nat chan_wf_def count_ok_def)

lemma read_back_wf: "pit_wf y \<Longrightarrow> \<forall>i \<in> set is. i < 3 \<Longrightarrow> \<exists>y'. pit_read_back y clk val is = Inr y' \<and> pit_wf y'"
proof (induction "is" arbitrary: y)
  case (Cons i "is")
  have wf: "chan_wf (chan y i)" using pit_wf_chan Cons.prems by simp
  obtain s where s: "(if val AND 0x20 = 0 then pit_latch_count (chan y i) (clk (2 * i)) else Inr (chan y i)) = Inr s" "chan_wf s"
    using latch_count_wf [OF wf] wf by (cases "val AND 0x20 = 0") auto
  obtain s' where s': "(if val AND 0x10 = 0 then pit_latch_status s (clk (2 * i + 1)) else Inr s) = Inr s'" "chan_wf s'"
    using latch_status_wf [OF s(2)] s(2) by (cases "val AND 0x10 = 0") auto
  have "pit_wf (set_chan y i s')" using Cons.prems s'(2) by (simp add: pit_wf_set)
  then show ?case using Cons.IH [of y] Cons.IH [of "set_chan y i s'"] Cons.prems s(1) s'(1) by (auto simp del: One_nat_def)
qed simp

lemma sint_u32: "uint (w :: u32) < 2 ^ 31 \<Longrightarrow> sint w = uint w"
  using order_trans [of "- 2147483648" 0 "uint w"] by (simp add: sint_uint signed_take_bit_int_eq_self_iff)

lemma byte_counts:
  fixes b l :: byte
  shows "sint (ucast b :: u32) = uint b" "sint (push_bit 8 (ucast b) :: u32) = uint b * 256"
    "0 \<le> sint (ucast l OR push_bit 8 (ucast b) :: u32)" "sint (ucast l OR push_bit 8 (ucast b) :: u32) \<le> 0x10000"
    "sint (ucast l OR push_bit 8 (ucast b) :: u32) = uint b * 256 + uint l"
proof -
  have b: "uint b < 256" "uint l < 256" "0 \<le> uint b" "0 \<le> uint l" using unsigned_less [of b, where ?'a = int] unsigned_less [of l, where ?'a = int] by simp_all
  show "sint (ucast b :: u32) = uint b"
    using b by (simp add: sint_u32 unsigned_ucast_eq take_bit_int_eq_self)
  have "uint (push_bit 8 (ucast b) :: u32) = uint b * 256"
    using b by (simp add: push_bit_eq_mult uint_word_ariths unsigned_ucast_eq take_bit_int_eq_self)
  then show "sint (push_bit 8 (ucast b) :: u32) = uint b * 256" using b by (simp add: sint_u32)
  have "(ucast l OR push_bit 8 (ucast b) :: u32) = ucast l + push_bit 8 (ucast b)"
    by (intro disjunctive_add [symmetric]) (auto simp: bit_simps dest: bit_imp_le_length)
  then have "uint (ucast l OR push_bit 8 (ucast b) :: u32) = uint b * 256 + uint l"
    using b by (simp add: push_bit_eq_mult uint_word_ariths unsigned_ucast_eq take_bit_int_eq_self)
  then show eq: "sint (ucast l OR push_bit 8 (ucast b) :: u32) = uint b * 256 + uint l" using b by (simp add: sint_u32)
  show "0 \<le> sint (ucast l OR push_bit 8 (ucast b) :: u32)" "sint (ucast l OR push_bit 8 (ucast b) :: u32) \<le> 0x10000"
    unfolding eq using b by simp_all
qed

lemma command_fields:
  "(ucast (drop_bit 4 (v :: u32) AND 3) :: byte) \<le> 3" "(ucast (drop_bit 4 (v :: u32) AND 3) :: byte) \<le> 4"
  "(ucast (drop_bit 1 (v :: u32) AND 7) :: byte) \<le> 7"
proof -
  have "(ucast (w AND 3 :: u32) :: byte) \<le> 3" "(ucast (w AND 7 :: u32) :: byte) \<le> 7" for w
  proof -
    have "(ucast (w AND 3) :: byte) = ucast w AND 3" "(ucast (w AND 7) :: byte) = ucast w AND 7" by (simp_all add: unsigned_and_eq)
    then show "(ucast (w AND 3 :: u32) :: byte) \<le> 3" "(ucast (w AND 7 :: u32) :: byte) \<le> 7" by (simp_all add: word_and_le1)
  qed
  then show "(ucast (drop_bit 4 v AND 3) :: byte) \<le> 3" "(ucast (drop_bit 4 v AND 3) :: byte) \<le> 4" "(ucast (drop_bit 1 v AND 7) :: byte) \<le> 7"
    by (simp_all add: order_trans [of _ 3 4])
qed

lemma port_index: "unat (addr AND 3 :: u32) < 3 \<longleftrightarrow> addr AND 3 \<noteq> 3"
proof -
  have "addr AND 3 \<le> 3" by (simp add: word_and_le1)
  then show ?thesis by (auto simp: word_le_nat_alt word_unat_eq_iff)
qed

lemma pit_write_wf:
  assumes "pit_wf y"
  shows "\<exists>y'. pit_ioport_write y clk addr (ucast (b :: byte)) = Inr y' \<and> pit_wf y'"
proof (cases "addr AND 3 = 3")
  case True
  let ?ch = "unat (drop_bit 6 (ucast b :: u32))"
  have "unat b < 256" using unsigned_less [of b, where ?'a = nat] by simp
  then have ch: "?ch \<le> 3"
    by (simp add: drop_bit_eq_div unat_div unsigned_ucast_eq take_bit_nat_eq_self)
  show ?thesis
  proof (cases "?ch = 3")
    case True
    with \<open>addr AND 3 = 3\<close> read_back_wf [OF assms, of "[0, 1, 2]" clk "ucast b"] show ?thesis
      by (simp add: pit_ioport_write_def Let_def)
  next
    case False
    then have c: "?ch < 3" using ch by simp
    from latch_count_wf [of "chan y ?ch" "clk 0"] pit_wf_chan [OF assms c] obtain s where
      "pit_latch_count (chan y ?ch) (clk 0) = Inr s" "chan_wf s" by blast
    with c False True pit_wf_chan [OF assms c] show ?thesis
      by (auto simp: pit_ioport_write_def Let_def command_fields [unfolded One_nat_def] intro!: pit_wf_set assms chan_wf_update)
  qed
next
  case False
  let ?i = "unat (addr AND 3)"
  have i: "?i < 3" using False by (simp add: port_index)
  note l = load_count_wf [OF assms i]
  have v: "0 \<le> uint b" "uint b \<le> 0x10000" "uint b * 256 \<le> 0x10000" using unsigned_less [of b, where ?'a = int] by simp_all
  let ?s = "chan y ?i"
  consider "write_state ?s = RW_STATE_MSB" | "write_state ?s = RW_STATE_WORD0" | "write_state ?s = RW_STATE_WORD1"
    | "write_state ?s \<noteq> RW_STATE_MSB" "write_state ?s \<noteq> RW_STATE_WORD0" "write_state ?s \<noteq> RW_STATE_WORD1" by blast
  then show ?thesis
  proof cases
    case 1
    then show ?thesis using l [of "uint b * 256" "clk 0"] v False by (simp add: pit_ioport_write_def Let_def byte_counts)
  next
    case 2
    then show ?thesis using False pit_wf_chan [OF assms i] i assms
      by (simp add: pit_ioport_write_def Let_def rw_state_defs pit_wf_set chan_wf_update)
  next
    case 3
    obtain y' where y': "pit_load_count y (sint (ucast (write_latch ?s) OR push_bit 8 (ucast b) :: u32)) ?i (clk 0) = Inr y'" "pit_wf y'"
      using l [of "sint (ucast (write_latch ?s) OR push_bit 8 (ucast b) :: u32)" "clk 0"] byte_counts by blast
    then show ?thesis using 3 False pit_wf_chan [OF y'(2) i] i
      by (simp add: pit_ioport_write_def Let_def rw_state_defs pit_wf_set chan_wf_update)
  next
    case 4
    then show ?thesis using l [of "uint b" "clk 0"] v False by (simp add: pit_ioport_write_def Let_def byte_counts)
  qed
qed

lemma and_ff_int: "0 \<le> (n AND 0xff :: int)" "(n AND 0xff :: int) < 256"
proof -
  have "n AND 0xff = take_bit 8 n" by (simp add: take_bit_eq_mask mask_eq_exp_minus_1)
  then show "0 \<le> (n AND 0xff :: int)" "(n AND 0xff :: int) < 256" by (simp_all add: take_bit_eq_mod)
qed

lemma read_channel_wf:
  assumes "chan_wf s"
  shows "\<exists>r s'. pit_read_channel s now = Inr (r, s') \<and> chan_wf s' \<and> 0 \<le> r \<and> r < 256"
proof -
  obtain n where "pit_get_count s now = Inr n" using assms pit_get_count_ok chan_wf_def by blast
  moreover have "uint (drop_bit 8 (latched_count s)) < 256" "uint (latched_count s AND 0xff) < 256" "uint (status s) < 256"
  proof -
    have "uint (latched_count s) < 65536" using unsigned_less [of "latched_count s", where ?'a = int] by simp
    then have "uint (latched_count s) div 256 < 256" by linarith
    then show "uint (drop_bit 8 (latched_count s)) < 256" by (simp add: drop_bit_eq_div uint_div)
    show "uint (latched_count s AND 0xff) < 256" using word_and_le1 [of "latched_count s" "0xff"] by (simp add: word_le_def)
    show "uint (status s) < 256" using unsigned_less [of "status s", where ?'a = int] by simp
  qed
  ultimately show ?thesis using assms
    by (simp add: pit_read_channel_def rw_state_defs chan_wf_update and_ff_int)
qed

lemma pit_read_wf:
  assumes "pit_wf y" "addr AND 3 \<noteq> 3"
  shows "\<exists>r y'. pit_ioport_read y now addr = Inr (r, y') \<and> pit_wf y' \<and> r < 256"
proof -
  have i: "unat (addr AND 3) < 3" using assms(2) by (simp add: port_index)
  from read_channel_wf [of "chan y (unat (addr AND 3))" now] pit_wf_chan [OF assms(1) i] obtain r s where
    r: "pit_read_channel (chan y (unat (addr AND 3))) now = Inr (r, s)" "chan_wf s" "0 \<le> r" "r < 256" by blast
  have "(word_of_int r :: u32) < 256" using r(3,4) by (simp add: word_less_alt unsigned_of_int take_bit_int_eq_self)
  with r i assms(1) show ?thesis by (simp add: pit_ioport_read_def Let_def pit_wf_set)
qed

lemma pit_wf_flags [simp]: "pit_wf (y\<lparr>pit := (pit y)\<lparr>flags := f\<rparr>\<rparr>) = pit_wf y" "chan (y\<lparr>pit := (pit y)\<lparr>flags := f\<rparr>\<rparr>) i = chan y i"
  by (simp_all add: pit_wf_def chan_def)

lemma hpet_wf:
  assumes "pit_wf y"
  shows "\<exists>y'. hpet_disable_pit None y = Inr y' \<and> pit_wf y'" "\<exists>y'. hpet_enable_pit None y now = Inr y' \<and> pit_wf y'"
proof -
  let ?y = "y\<lparr>pit := (pit y)\<lparr>flags := flags (pit y) AND NOT PIT_FLAGS_HPET_LEGACY\<rparr>\<rparr>"
  have ch: "chan_wf (chan y 0)" "count_ok (chan y 0)" using pit_wf_chan [OF assms, of 0] by simp_all
  then show "\<exists>y'. hpet_disable_pit None y = Inr y' \<and> pit_wf y'"
    using assms by (auto simp: hpet_disable_pit_def Let_def pit_wf_set split: option.split)
  show "\<exists>y'. hpet_enable_pit None y now = Inr y' \<and> pit_wf y'"
    using load_count_wf [of ?y 0 "count (chan y 0)" now] assms ch(2) by (simp add: hpet_enable_pit_def Let_def count_ok_def)
qed

lemma reset_loop_wf:
  assumes "length (channels (pit y)) = 3" "distinct is" "\<forall>i \<in> set is. i < 3 \<and> chan_wf ((chan y i)\<lparr>count := 1\<rparr>)"
    and "\<forall>i < 3. i \<notin> set is \<longrightarrow> chan_wf (chan y i)"
  shows "\<exists>y'. pit_reset_loop y clk is = Inr y' \<and> pit_wf y'"
  using assms
proof (induction "is" arbitrary: y)
  case (Cons i "is")
  let ?y = "set_chan y i ((chan y i)\<lparr>mode := 3, gate := of_bool (i \<noteq> 2)\<rparr>)"
  have "i < length (channels (pit ?y))" "chan_wf ((chan ?y i)\<lparr>count := 1\<rparr>)" using Cons.prems by (auto simp: chan_wf_def count_ok_def)
  from load_count_chan [OF this, of 0 "clk i"] obtain y' where y': "pit_load_count ?y 0 i (clk i) = Inr y'" "only_chan i ?y y'" by auto
  then have "\<exists>y''. pit_reset_loop y' clk is = Inr y'' \<and> pit_wf y''"
    using Cons.prems by (intro Cons.IH) (auto simp: only_chan_def, metis)
  with y'(1) show ?case by simp
qed (simp add: pit_wf_def)

lemma reset_wf:
  assumes "length (channels (pit y)) = 3" "\<forall>i < 3. chan_wf ((chan y i)\<lparr>count := 1\<rparr>)"
  shows "\<exists>y'. pit_reset y clk = Inr y' \<and> pit_wf y'"
  unfolding pit_reset_def using assms by (intro reset_loop_wf) auto

text \<open>What the machine does to the timer once it runs; port accesses are bytes.\<close>

datatype pit_op =
  PitWrite "nat \<Rightarrow> u64" u32 byte | PitRead u64 u32 | PitGate nat byte u64 | PitExpire | PitHpetOn | PitHpetOff u64 | PitReset "nat \<Rightarrow> u64"

fun pit_exec :: "pit_sys \<Rightarrow> pit_op \<Rightarrow> pit_error + u32 \<times> pit_sys" where
  "pit_exec y (PitWrite clk addr b) = bindR (pit_ioport_write y clk addr (ucast b)) (\<lambda>y. Inr (0, y))"
| "pit_exec y (PitRead now addr) = pit_ioport_read y now addr"
| "pit_exec y (PitGate i val now) = bindR (pit_set_gate y i val now) (\<lambda>y. Inr (0, y))"
| "pit_exec y PitExpire = bindR (pit_irq_timer y 0) (\<lambda>y. Inr (0, y))"
| "pit_exec y PitHpetOn = bindR (hpet_disable_pit None y) (\<lambda>y. Inr (0, y))"
| "pit_exec y (PitHpetOff now) = bindR (hpet_enable_pit None y now) (\<lambda>y. Inr (0, y))"
| "pit_exec y (PitReset clk) = bindR (pit_reset y clk) (\<lambda>y. Inr (0, y))"

text \<open>Three ports are registered for reading, and the device has three channels.\<close>

fun pit_op_ok :: "pit_op \<Rightarrow> bool" where
  "pit_op_ok (PitRead now addr) = (addr AND 3 \<noteq> 3)"
| "pit_op_ok (PitGate i val now) = (i < 3)"
| "pit_op_ok _ = True"

inductive pit_reachable :: "pit_sys \<Rightarrow> bool" where
  reset: "pit_reset (pit_init drift) clk = Inr y \<Longrightarrow> pit_reachable y"
| step: "pit_reachable y \<Longrightarrow> pit_op_ok op \<Longrightarrow> pit_exec y op = Inr (r, y') \<Longrightarrow> pit_reachable y'"

lemma pit_exec_wf: "pit_wf y \<Longrightarrow> pit_op_ok op \<Longrightarrow> \<exists>r y'. pit_exec y op = Inr (r, y') \<and> pit_wf y' \<and> r < 256"
proof (induction op)
  case (PitWrite clk addr b)
  then show ?case using pit_write_wf [of y clk addr b] by auto
next
  case (PitRead now addr)
  then show ?case using pit_read_wf by simp
next
  case (PitGate i val now)
  then show ?case using set_gate_wf [of y i val now] by auto
next
  case PitExpire
  then show ?case using timer_update_wf [of y 0 "next_transition_time (chan y 0)"] by (auto simp: pit_irq_timer_def)
next
  case (PitReset clk)
  have "pit_wf y" by fact
  then have "\<exists>y'. pit_reset y clk = Inr y' \<and> pit_wf y'"
    using pit_wf_chan [of y] by (intro reset_wf) (auto simp: pit_wf_def chan_wf_update)
  then show ?case by auto
next
  case PitHpetOn
  then show ?case using hpet_wf(1) by fastforce
next
  case (PitHpetOff now)
  then show ?case using hpet_wf(2) [of y now] by auto
qed

lemma pit_init_wf: "\<exists>y. pit_reset (pit_init drift) clk = Inr y \<and> pit_wf y"
  by (intro reset_wf) (auto simp: pit_init_def chan_def zero_channel_def chan_wf_def count_ok_def less_Suc_eq numeral_3_eq_3)

lemma pit_reachable_wf: "pit_reachable y \<Longrightarrow> pit_wf y"
proof (induction rule: pit_reachable.induct)
  case (reset drift clk y)
  then show ?case using pit_init_wf [of drift clk] by simp
next
  case (step y op r y')
  then show ?case using pit_exec_wf [of y op] by simp
qed

text \<open>
  C12. The timer never faults: after the reset of a new machine, whatever bytes the guest writes to the
  four ports in whatever order, and however reads, gate changes, expiries, legacy-mode switches and
  resets are interleaved, the next operation returns, never dividing by a zero count, a
  read yields a byte, and the count of every channel stays between 1 and 65536.
\<close>

theorem pit_safe:
  assumes "pit_reachable y" and "pit_op_ok op"
  shows "\<exists>r y'. pit_exec y op = Inr (r, y') \<and> r < 256 \<and>
    (\<forall>i < 3. 1 \<le> pit_get_initial_count y' i \<and> pit_get_initial_count y' i \<le> 65536)"
  using pit_exec_wf [OF pit_reachable_wf [OF assms(1)] assms(2)]
  by (auto simp: pit_get_initial_count_def pit_wf_def chan_wf_def count_ok_def)

definition ex_pit :: pit_sys where
  "ex_pit = projr (pit_reset (pit_init False) (\<lambda>_. 5))"

lemma ex_pit_reachable: "pit_reachable ex_pit"
  using pit_init_wf [of False "\<lambda>_. 5"] by (auto simp: ex_pit_def intro: pit_reachable.reset)

theorem pit_safe_witness:
  "\<exists>r y'. pit_exec ex_pit (PitWrite (\<lambda>_. 9) 0x43 0x34) = Inr (r, y') \<and> r < 256 \<and> 1 \<le> pit_get_initial_count y' 0"
proof -
  obtain r y' where "pit_exec ex_pit (PitWrite (\<lambda>_. 9) 0x43 0x34) = Inr (r, y')" "r < 256"
    "\<forall>i < 3. 1 \<le> pit_get_initial_count y' i \<and> pit_get_initial_count y' i \<le> 65536"
    using pit_safe [OF ex_pit_reachable, of "PitWrite (\<lambda>_. 9) 0x43 0x34"] unfolding pit_op_ok.simps by blast
  moreover from this(3) have "1 \<le> pit_get_initial_count y' 0" by simp
  ultimately show ?thesis by blast
qed

section \<open>Programming a channel and reading it back\<close>

text \<open>The registers of a channel without its time-out, which loading a count also sets.\<close>

definition regs :: "PITChannelState \<Rightarrow> PITChannelState" where
  "regs s = s\<lparr>irq := [], next_transition_time := 0, irq_timer := None\<rparr>"

lemma regs_eqD:
  assumes "regs s = regs s'"
  shows "count s = count s'" "count_load_time s = count_load_time s'" "mode s = mode s'" "rw_mode s = rw_mode s'"
    "count_latched s = count_latched s'" "status_latched s = status_latched s'"
  using assms by (cases s; cases s'; simp add: regs_def)+

lemma load_count_regs:
  assumes "pit_wf y" "i < 3" "0 \<le> val" "val \<le> 0x10000"
  shows "\<exists>y'. pit_load_count y val i now = Inr y' \<and> pit_wf y' \<and>
    regs (chan y' i) = regs ((chan y i)\<lparr>count_load_time := now, count := if val = 0 then 0x10000 else val\<rparr>)"
proof -
  obtain y' where y': "pit_load_count y val i now = Inr y'" "pit_wf y'" using load_count_wf [OF assms] by blast
  moreover have "length (channels (pit y)) = 3" using assms(1) by (simp add: pit_wf_def)
  ultimately show ?thesis using assms(2)
    by (auto simp: pit_load_count_def pit_irq_timer_update_def Let_def regs_def bindR_Inr_iff split: if_splits option.splits)
qed

lemma get_count_at_load:
  assumes "count_ok s" "count_load_time s = now"
  shows "\<exists>n. pit_get_count s now = Inr n \<and> (word_of_int n :: u16) = word_of_int (count s)"
proof -
  have "pit_ticks s now = 0" using assms(2) by (simp add: pit_ticks_def muldiv64_def)
  moreover have n: "1 \<le> count s" "count s \<le> 0x10000" using assms(1) by (simp_all add: count_ok_def)
  have "sint (ucast (word_of_int (count s) :: u64) :: u32) = count s"
    using n by (subst sint_u32) (simp_all add: unsigned_ucast_eq unsigned_of_int take_bit_int_eq_self)
  moreover have "(word_of_int (count s) :: u64) AND 0xffff = word_of_int (take_bit 16 (count s))"
  proof -
    have "(0xffff :: u64) = mask 16" by (simp add: mask_eq_exp_minus_1)
    then have "w AND 0xffff = take_bit 16 w" for w :: u64 by (simp add: take_bit_eq_mask)
    then show ?thesis by (simp add: of_int_take_bit)
  qed
  moreover have "sint (ucast (word_of_int (take_bit 16 (count s)) :: u64) :: u32) = take_bit 16 (count s)"
    using take_bit_int_less_exp [of 16 "count s"] take_bit_nonnegative [of 16 "count s"]
    by (subst sint_u32) (simp_all add: unsigned_ucast_eq unsigned_of_int take_bit_int_eq_self)
  moreover have "(word_of_int (take_bit 16 (count s)) :: u16) = word_of_int (count s)" by (rule bit_eqI) (simp add: bit_simps)
  ultimately show ?thesis using count_not_0 [OF assms(1)] by (simp add: pit_get_count_def Let_def)
qed

lemma port_word: "i < 3 \<Longrightarrow> unat (of_nat i AND 3 :: u32) = i \<and> of_nat i AND 3 \<noteq> (3 :: u32)"
  by (auto simp: less_Suc_eq numeral_3_eq_3)

lemma latch_command:
  "i < 3 \<Longrightarrow> unat (drop_bit 6 (ucast (push_bit 6 (of_nat i) :: byte) :: u32)) = i \<and>
     drop_bit 4 (ucast (push_bit 6 (of_nat i) :: byte) :: u32) AND 3 = 0"
  by (auto simp: less_Suc_eq numeral_3_eq_3)


lemma byte_back: "(ucast (ucast (b :: byte) :: u32) :: byte) = b"
  by (rule bit_eqI) (simp add: bit_simps)

lemma set_chan_twice [simp]: "set_chan (set_chan y i s) i s' = set_chan y i s'"
  by (simp add: set_chan_def)

lemma read_latched:
  assumes "status_latched s = 0"
  shows "count_latched s = 3 \<Longrightarrow> pit_read_channel s now = Inr (uint (latched_count s AND 0xff), s\<lparr>count_latched := 2\<rparr>)"
    "count_latched s = 2 \<Longrightarrow> pit_read_channel s now = Inr (uint (drop_bit 8 (latched_count s)), s\<lparr>count_latched := 0\<rparr>)"
  using assms by (simp_all add: pit_read_channel_def rw_state_defs)

lemma word_halves:
  fixes lo hi :: byte
  defines "v \<equiv> uint hi * 256 + uint lo"
  shows "(word_of_int (uint (word_of_int (if v = 0 then 0x10000 else v) AND 0xff :: u16)) :: u32) = ucast lo"
    "(word_of_int (uint (drop_bit 8 (word_of_int (if v = 0 then 0x10000 else v) :: u16))) :: u32) = ucast hi"
proof -
  have b: "uint hi < 256" "uint lo < 256" using unsigned_less [of hi, where ?'a = int] unsigned_less [of lo, where ?'a = int] by simp_all
  have "(word_of_int (if v = 0 then 0x10000 else v) :: u16) = word_of_int v" by simp
  moreover have "0 \<le> v" "v < 65536" and vs: "v mod 256 = uint lo" "v div 256 = uint hi" using b by (simp_all add: v_def)
  then have v: "uint (word_of_int v :: u16) = v" by (simp add: unsigned_of_int take_bit_int_eq_self)
  moreover have "uint (word_of_int v AND 0xff :: u16) = uint lo"
  proof -
    have "(0xff :: u16) = mask 8" by (simp add: mask_eq_exp_minus_1)
    then have "(word_of_int v AND 0xff :: u16) = take_bit 8 (word_of_int v)" by (simp add: take_bit_eq_mask)
    then show ?thesis using v vs by (simp add: take_bit_eq_mod uint_mod)
  qed
  moreover have "uint (drop_bit 8 (word_of_int v) :: u16) = uint hi"
    using v vs by (simp add: drop_bit_eq_div uint_div)
  moreover have "(word_of_int (uint b) :: u32) = ucast b" for b :: byte by simp
  ultimately show "(word_of_int (uint (word_of_int (if v = 0 then 0x10000 else v) AND 0xff :: u16)) :: u32) = ucast lo"
    "(word_of_int (uint (drop_bit 8 (word_of_int (if v = 0 then 0x10000 else v) :: u16))) :: u32) = ucast hi" by metis+
qed

lemma program_channel:
  fixes cmd lo hi :: byte
  defines "n \<equiv> uint hi * 256 + uint lo"
  assumes wf: "pit_wf y" and "i < 3" "count_latched (chan y i) = 0" "status_latched (chan y i) = 0"
    and cmd: "unat (drop_bit 6 (ucast cmd :: u32)) = i" "drop_bit 4 (ucast cmd :: u32) AND 3 = 3"
  shows "\<exists>y1 y2 y3. pit_ioport_write y clk1 3 (ucast cmd) = Inr y1 \<and> pit_ioport_write y1 clk2 (of_nat i) (ucast lo) = Inr y2 \<and>
    pit_ioport_write y2 clk3 (of_nat i) (ucast hi) = Inr y3 \<and> i < length (channels (pit y3)) \<and>
    count (chan y3 i) = (if n = 0 then 0x10000 else n) \<and> count_load_time (chan y3 i) = clk3 0 \<and> rw_mode (chan y3 i) = 3 \<and>
    count_latched (chan y3 i) = 0 \<and> status_latched (chan y3 i) = 0 \<and> count_ok (chan y3 i)"
proof -
  let ?c = "if n = 0 then 0x10000 else n"
  have len: "length (channels (pit y)) = 3" using wf by (simp add: pit_wf_def)
  define s1 where "s1 = (chan y i)\<lparr>rw_mode := 3, read_state := 3, write_state := 3,
    mode := ucast (drop_bit 1 (ucast cmd :: u32) AND 7), bcd := ucast (ucast cmd AND 1 :: u32)\<rparr>"
  define y2 where "y2 = set_chan y i (s1\<lparr>write_latch := lo, write_state := 4\<rparr>)"
  have "chan_wf s1" using pit_wf_chan [OF wf assms(3)] by (simp add: s1_def chan_wf_update command_fields del: One_nat_def)
  have 1: "pit_ioport_write y clk1 3 (ucast cmd) = Inr (set_chan y i s1)"
    using cmd assms(3) by (simp add: pit_ioport_write_def Let_def s1_def)
  have 2: "pit_ioport_write (set_chan y i s1) clk2 (of_nat i) (ucast lo) = Inr y2"
    using port_word [OF assms(3)] assms(3) len
    by (simp add: pit_ioport_write_def Let_def rw_state_defs y2_def s1_def byte_back)
  have "pit_wf y2" using wf assms(3) \<open>chan_wf s1\<close> by (simp add: y2_def pit_wf_set chan_wf_update)
  from load_count_regs [OF this assms(3), of n "clk3 0"] obtain y3 where
    y3: "pit_load_count y2 n i (clk3 0) = Inr y3" "pit_wf y3" "regs (chan y3 i) = regs ((chan y2 i)\<lparr>count_load_time := clk3 0, count := ?c\<rparr>)"
    using byte_counts(3-5) [where b = hi and l = lo] n_def by auto
  define s3 where "s3 = (chan y3 i)\<lparr>write_state := 3\<rparr>"
  have len3: "i < length (channels (pit y3))" using y3(2) assms(3) by (simp add: pit_wf_def)
  have 3: "pit_ioport_write y2 clk3 (of_nat i) (ucast hi) = Inr (set_chan y3 i s3)"
    using port_word [OF assms(3)] assms(3) len y3(1) n_def byte_counts(5) [where b = hi and l = lo]
    by (simp add: pit_ioport_write_def Let_def rw_state_defs y2_def s3_def)
  have s3: "count s3 = ?c" "count_load_time s3 = clk3 0" "rw_mode s3 = 3" "count_latched s3 = 0" "status_latched s3 = 0" "count_ok s3"
    using regs_eqD [OF y3(3)] assms(3-5) len pit_wf_chan [OF y3(2) assms(3)] by (simp_all add: s3_def y2_def s1_def count_ok_def)
  from 1 2 3 s3 len3 show ?thesis by (intro exI [of _ "set_chan y i s1"] exI [of _ y2] exI [of _ "set_chan y3 i s3"]) simp
qed

text \<open>
  Programming and reading back: in every reachable state with no pending latch, on every channel and
  in every mode, a count written as two bytes after the control word and latched at once is read back
  as the same two bytes, whenever the reads happen.
\<close>

theorem pit_count_roundtrip:
  assumes "pit_reachable y" "i < 3" "count_latched (chan y i) = 0" "status_latched (chan y i) = 0"
    and cmd: "unat (drop_bit 6 (ucast cmd :: u32)) = i" "drop_bit 4 (ucast cmd :: u32) AND 3 = 3" and "clk4 0 = clk3 0"
  shows "\<exists>y1 y2 y3 y4 y5 y6.
    pit_ioport_write y clk1 3 (ucast (cmd :: byte)) = Inr y1 \<and>
    pit_ioport_write y1 clk2 (of_nat i) (ucast (lo :: byte)) = Inr y2 \<and>
    pit_ioport_write y2 clk3 (of_nat i) (ucast (hi :: byte)) = Inr y3 \<and>
    pit_ioport_write y3 clk4 3 (ucast (push_bit 6 (of_nat i) :: byte)) = Inr y4 \<and>
    pit_ioport_read y4 t5 (of_nat i) = Inr (ucast lo, y5) \<and>
    pit_ioport_read y5 t6 (of_nat i) = Inr (ucast hi, y6)"
proof -
  let ?n = "uint hi * 256 + uint lo"
  let ?c = "if ?n = 0 then 0x10000 else ?n"
  obtain y1 y2 y3 where w: "pit_ioport_write y clk1 3 (ucast cmd) = Inr y1" "pit_ioport_write y1 clk2 (of_nat i) (ucast lo) = Inr y2"
    "pit_ioport_write y2 clk3 (of_nat i) (ucast hi) = Inr y3" and len: "i < length (channels (pit y3))"
    and s3: "count (chan y3 i) = ?c" "count_load_time (chan y3 i) = clk3 0" "rw_mode (chan y3 i) = 3"
      "count_latched (chan y3 i) = 0" "status_latched (chan y3 i) = 0" "count_ok (chan y3 i)"
    using program_channel [OF pit_reachable_wf [OF assms(1)] assms(2-6), of clk1 clk2 lo clk3 hi] by auto
  obtain n where n: "pit_get_count (chan y3 i) (clk4 0) = Inr n" "(word_of_int n :: u16) = word_of_int ?c"
    using get_count_at_load [OF s3(6), of "clk4 0"] s3(1,2) assms(7) by auto
  define s4 where "s4 = (chan y3 i)\<lparr>latched_count := word_of_int n, count_latched := 3\<rparr>"
  have 4: "pit_ioport_write y3 clk4 3 (ucast (push_bit 6 (of_nat i) :: byte)) = Inr (set_chan y3 i s4)"
    using latch_command [OF assms(2)] assms(2) len n(1) s3 by (simp add: pit_ioport_write_def Let_def pit_latch_count_def s4_def)
  have 5: "pit_ioport_read (set_chan y3 i s4) t5 (of_nat i) = Inr (ucast lo, set_chan y3 i (s4\<lparr>count_latched := 2\<rparr>))"
    using read_latched [of s4 t5] port_word [OF assms(2)] assms(2) len s3 n(2) word_halves(1) [of hi lo]
    by (simp add: pit_ioport_read_def Let_def s4_def)
  have 6: "pit_ioport_read (set_chan y3 i (s4\<lparr>count_latched := 2\<rparr>)) t6 (of_nat i) = Inr (ucast hi, set_chan y3 i (s4\<lparr>count_latched := 0\<rparr>))"
    using read_latched [of "s4\<lparr>count_latched := 2\<rparr>" t6] port_word [OF assms(2)] assms(2) len s3 n(2) word_halves(2) [of hi lo]
    by (simp add: pit_ioport_read_def Let_def s4_def)
  from w 4 5 6 show ?thesis by blast
qed

text \<open>Channel 0 in mode 2 with the count \<open>0x1234\<close>, as firmware programs it.\<close>

theorem pit_count_roundtrip_witness:
  "\<exists>y1 y2 y3 y4 y5 y6.
    pit_ioport_write ex_pit (\<lambda>_. 7) 3 (ucast (0x34 :: byte)) = Inr y1 \<and>
    pit_ioport_write y1 (\<lambda>_. 8) (of_nat 0) (ucast (0x34 :: byte)) = Inr y2 \<and>
    pit_ioport_write y2 (\<lambda>_. 9) (of_nat 0) (ucast (0x12 :: byte)) = Inr y3 \<and>
    pit_ioport_write y3 (\<lambda>_. 9) 3 (ucast (push_bit 6 (of_nat 0) :: byte)) = Inr y4 \<and>
    pit_ioport_read y4 1000000 (of_nat 0) = Inr (ucast (0x34 :: byte), y5) \<and>
    pit_ioport_read y5 2000000 (of_nat 0) = Inr (ucast (0x12 :: byte), y6)"
  by (rule pit_count_roundtrip) (simp_all add: ex_pit_reachable, code_simp+)

section \<open>Saving and loading\<close>

definition pit_channel_codecs :: "PITChannelState codec list" where
  "pit_channel_codecs =
     [cp_field be32_bytes (\<lambda>s. word_of_int (count s)) (\<lambda>v s. s\<lparr>count := sint v\<rparr>),
      cp_field (\<lambda>v. be16_bytes (ucast v)) latched_count (\<lambda>v s. s\<lparr>latched_count := v\<rparr>),
      cp_field (\<lambda>v. [v]) count_latched (\<lambda>v s. s\<lparr>count_latched := v\<rparr>),
      cp_field (\<lambda>v. [v]) status_latched (\<lambda>v s. s\<lparr>status_latched := v\<rparr>),
      cp_field (\<lambda>v. [v]) status (\<lambda>v s. s\<lparr>status := v\<rparr>),
      cp_field (\<lambda>v. [v]) read_state (\<lambda>v s. s\<lparr>read_state := v\<rparr>),
      cp_field (\<lambda>v. [v]) write_state (\<lambda>v s. s\<lparr>write_state := v\<rparr>),
      cp_field (\<lambda>v. [v]) write_latch (\<lambda>v s. s\<lparr>write_latch := v\<rparr>),
      cp_field (\<lambda>v. [v]) rw_mode (\<lambda>v s. s\<lparr>rw_mode := v\<rparr>),
      cp_field (\<lambda>v. [v]) mode (\<lambda>v s. s\<lparr>mode := v\<rparr>),
      cp_field (\<lambda>v. [v]) bcd (\<lambda>v s. s\<lparr>bcd := v\<rparr>),
      cp_field (\<lambda>v. [v]) gate (\<lambda>v s. s\<lparr>gate := v\<rparr>),
      cp_field be64_bytes count_load_time (\<lambda>v s. s\<lparr>count_load_time := v\<rparr>),
      cp_field be64_bytes next_transition_time (\<lambda>v s. s\<lparr>next_transition_time := v\<rparr>)]"

lemma pit_channel_fields: "fields_codec (\<lambda>_ _. True) 2 (vmsd_fields vmstate_pit_channel) pit_channel_codecs"
  unfolding fields_codec_def vmstate_pit_channel_def pit_channel_codecs_def by (simp add: any_field_codecs)

lemma pit_channel_codec:
  "value_codec (struct_get vmstate_pit_channel) (struct_put vmstate_pit_channel) (enc_all pit_channel_codecs)
     (cp_all pit_channel_codecs) (\<lambda>_ _. True)"
proof (rule struct_codec)
  show "fields_codec (\<lambda>_ _. True) (vmsd_version vmstate_pit_channel) (vmsd_fields vmstate_pit_channel) pit_channel_codecs"
    using pit_channel_fields by (simp add: vmstate_pit_channel_def)
qed (simp add: plain_vmsd_def vmstate_pit_channel_def)

lemma pit_channel_copy:
  assumes "count_ok s"
  shows "cp_all pit_channel_codecs s t = s\<lparr>irq := irq t, irq_timer := irq_timer t\<rparr>"
proof -
  have "sint (word_of_int (count s) :: u32) = count s"
    using assms by (simp add: count_ok_def signed_of_int signed_take_bit_int_eq_self)
  then show ?thesis unfolding cp_all_def pit_channel_codecs_def by (cases s, cases t) simp
qed

definition pit_pair :: "PITState \<Rightarrow> PITState \<Rightarrow> bool" where
  "pit_pair p q \<longleftrightarrow> length (channels p) = 3 \<and> length (channels q) = 3 \<and>
     timer0 p \<noteq> Some (- 1) \<and> (\<forall>s \<in> set (channels p). count_ok s)"

definition pit_codecs :: "PITState codec list" where
  "pit_codecs =
     [cp_field be32_bytes flags (\<lambda>v p. p\<lparr>flags := v\<rparr>),
      (\<lambda>p. concat (map (enc_all pit_channel_codecs) (channels p)),
       \<lambda>p q. q\<lparr>channels := map2 (cp_all pit_channel_codecs) (channels p) (channels q)\<rparr>),
      cp_field (\<lambda>tm. be64_bytes (case tm of Some t \<Rightarrow> t | None \<Rightarrow> - 1)) timer0 set_timer0]"

lemma pit_fields: "fields_codec pit_pair 2 (vmsd_fields vmstate_pit) pit_codecs"
proof -
  have "field_codec pit_pair (VMSTATE_STRUCT_ARRAY ''channels'' 2 3 vmstate_pit_channel channels (\<lambda>v p. p\<lparr>channels := v\<rparr>))
      (\<lambda>p. concat (map (enc_all pit_channel_codecs) (channels p)))
      (\<lambda>p q. q\<lparr>channels := map2 (cp_all pit_channel_codecs) (channels p) (channels q)\<rparr>)"
    unfolding VMSTATE_STRUCT_ARRAY_def
    by (rule value_codec.array_codec [OF pit_channel_codec]) (simp_all add: pit_pair_def list_all2_conv_all_nth)
  moreover have "field_codec pit_pair (VMSTATE_UINT32 ''flags'' flags (\<lambda>v p. p\<lparr>flags := v\<rparr>)) (fst (cp_field be32_bytes flags (\<lambda>v p. p\<lparr>flags := v\<rparr>)))
      (snd (cp_field be32_bytes flags (\<lambda>v p. p\<lparr>flags := v\<rparr>)))"
    unfolding cp_field_def fst_conv snd_conv by (rule vm_codecs) (simp add: pit_pair_def)
  moreover have "field_codec pit_pair (VMSTATE_TIMER ''channels[0].irq_timer'' timer0 set_timer0)
      (\<lambda>s. be64_bytes (case timer0 s of Some t \<Rightarrow> t | None \<Rightarrow> - 1)) (\<lambda>s t. set_timer0 (timer0 s) t)"
    by (rule vm_codecs) (simp_all add: pit_pair_def set_timer0_def)
  ultimately show ?thesis
    unfolding fields_codec_def vmstate_pit_def pit_codecs_def by (simp add: cp_field_def)
qed

lemma vmstate_pit_simps [simp]:
  "vmsd_version vmstate_pit = 2" "minimum_version_id vmstate_pit = 2" "minimum_version_id_old vmstate_pit = 1"
  "pre_load vmstate_pit = None" "post_load vmstate_pit = None" "pre_save vmstate_pit = None" "post_save vmstate_pit = None"
  "load_state_old vmstate_pit = Some pit_load_old"
  by (simp_all add: vmstate_pit_def)

text \<open>
  A snapshot restores the timer: saving a device of a reachable machine and loading it into another device gives each channel its
  registers and times, channel 0 its pending time-out, and leaves the wiring of the receiving
  device (interrupt lines, timers) as it was.
\<close>

theorem pit_snapshot:
  assumes "pit_reachable y" and "timer0 (pit y) \<noteq> Some (- 1)" and "length (channels q) = 3"
  shows "\<exists>f q' f'. vmstate_save_state vmstate_pit (pit y) fopen_new = Inr (pit y, f) \<and>
    vmstate_load_state vmstate_pit q 2 (fopen_old (snd (qemu_fclose f))) = Inr (0, q', f') \<and>
    flags q' = flags (pit y) \<and> timer0 q' = timer0 (pit y) \<and>
    (\<forall>i < 3. channels q' ! i = (channels (pit y) ! i)
       \<lparr>irq := irq (channels q ! i), irq_timer := if i = 0 then Some (timer0 (pit y)) else irq_timer (channels q ! i)\<rparr>)"
proof -
  let ?p = "pit y"
  let ?v = "vmstate_pit :: (PITState, FILE) VMStateDescription"
  let ?q = "set_timer0 (timer0 ?p) (q\<lparr>flags := flags ?p, channels := map2 (cp_all pit_channel_codecs) (channels ?p) (channels q)\<rparr>)"
  have wf: "length (channels ?p) = 3" "\<forall>i < 3. count_ok (channels ?p ! i)"
    using pit_reachable_wf [OF assms(1)] by (simp_all add: pit_wf_def chan_wf_def chan_def)
  then have "pit_pair ?p q" using assms by (auto simp: pit_pair_def in_set_conv_nth)
  moreover have "after_save ?v ?p = ?p" "after_load ?v (cp_all pit_codecs ?p q) = (0, ?q)"
    by (simp_all add: after_save_def after_load_def cp_all_def pit_codecs_def)
  ultimately have "\<exists>f f'. vmstate_save_state ?v ?p fopen_new = Inr (?p, f) \<and>
    vmstate_load_state ?v q 2 (fopen_old (snd (qemu_fclose f))) = Inr (0, ?q, f')"
    using vmsd_roundtrip [where vmsd = ?v and s = ?p and t = q and cs = pit_codecs and R = pit_pair and r = 0 and t' = ?q]
      pit_fields by simp
  moreover have "\<forall>i < 3. channels ?q ! i = (channels ?p ! i)
       \<lparr>irq := irq (channels q ! i), irq_timer := if i = 0 then Some (timer0 ?p) else irq_timer (channels q ! i)\<rparr>"
    using wf assms(3) by (auto simp: set_timer0_def nth_list_update pit_channel_copy)
  moreover have "flags ?q = flags ?p" "timer0 ?q = timer0 ?p"
    using wf assms(3) by (simp_all add: set_timer0_def timer0_def)
  ultimately show ?thesis by metis
qed

theorem pit_snapshot_witness:
  "\<exists>f q' f'. vmstate_save_state vmstate_pit (pit ex_pit) fopen_new = Inr (pit ex_pit, f) \<and>
    vmstate_load_state vmstate_pit (pit (pit_init False)) 2 (fopen_old (snd (qemu_fclose f))) = Inr (0, q', f') \<and>
    count (channels q' ! 1) = 0x10000 \<and> timer0 q' = timer0 (pit ex_pit)"
proof -
  have "timer0 (pit ex_pit) \<noteq> Some (- 1)" "count (channels (pit ex_pit) ! 1) = 0x10000" by code_simp+
  moreover have "length (channels (pit (pit_init False))) = 3" by (simp add: pit_init_def)
  ultimately obtain f q' f' where "vmstate_save_state vmstate_pit (pit ex_pit) fopen_new = Inr (pit ex_pit, f)"
    "vmstate_load_state vmstate_pit (pit (pit_init False)) 2 (fopen_old (snd (qemu_fclose f))) = Inr (0, q', f')"
    "timer0 q' = timer0 (pit ex_pit)"
    and ch: "\<forall>i < 3. channels q' ! i = (channels (pit ex_pit) ! i)\<lparr>irq := irq (channels (pit (pit_init False)) ! i),
      irq_timer := if i = 0 then Some (timer0 (pit ex_pit)) else irq_timer (channels (pit (pit_init False)) ! i)\<rparr>"
    using pit_snapshot [OF ex_pit_reachable, of "pit (pit_init False)"] by blast
  moreover from ch have "count (channels q' ! 1) = count (channels (pit ex_pit) ! 1)" by simp
  ultimately show ?thesis using \<open>count (channels (pit ex_pit) ! 1) = 0x10000\<close> by metis
qed

text \<open>
  The loader of the old format can never succeed: it is called for files of version 1 only, and
  rejects every version other than 2, so a version 1 snapshot, which the description declares to
  be supported, is refused with the device unchanged and nothing read.
\<close>

theorem pit_old_snapshot_refused:
  "vmstate_load_state vmstate_pit p 1 f = Inr (- EINVAL, p, f)"
  by (simp add: vmstate_load_state_def pit_load_old_def PIT_SAVEVM_VERSION_def)

end
