(* ===== verification/PS2.thy ===== *)
theory PS2
  imports SaveVM
begin

text \<open>
  The PS/2 keyboard and mouse, \<^verbatim>\<open>hw/ps2.c\<close>. Both devices start with the common part
  (\<open>PS2State\<close>), which the source reaches by a pointer cast and the model by record extension. The
  calls of the controller's interrupt handler are recorded in order in \<open>irq_calls\<close>; the handler
  touches nothing that the devices read. Positions in the ring are never outside its 256 bytes
  (\<open>queue_wf\<close> below).
\<close>

unbundle bit_operations_syntax

section \<open>Commands and replies\<close>

text \<open>The codes of the commands are abbreviations of their numbers, as the macros of the source are.\<close>

abbreviation KBD_CMD_SET_LEDS :: int where "KBD_CMD_SET_LEDS \<equiv> 0xED"
abbreviation KBD_CMD_ECHO :: int where "KBD_CMD_ECHO \<equiv> 0xEE"
abbreviation KBD_CMD_SCANCODE :: int where "KBD_CMD_SCANCODE \<equiv> 0xF0"
abbreviation KBD_CMD_GET_ID :: int where "KBD_CMD_GET_ID \<equiv> 0xF2"
abbreviation KBD_CMD_SET_RATE :: int where "KBD_CMD_SET_RATE \<equiv> 0xF3"
abbreviation KBD_CMD_ENABLE :: int where "KBD_CMD_ENABLE \<equiv> 0xF4"
abbreviation KBD_CMD_RESET_DISABLE :: int where "KBD_CMD_RESET_DISABLE \<equiv> 0xF5"
abbreviation KBD_CMD_RESET_ENABLE :: int where "KBD_CMD_RESET_ENABLE \<equiv> 0xF6"
abbreviation KBD_CMD_RESET :: int where "KBD_CMD_RESET \<equiv> 0xFF"
abbreviation KBD_REPLY_POR :: int where "KBD_REPLY_POR \<equiv> 0xAA"
abbreviation KBD_REPLY_ID :: int where "KBD_REPLY_ID \<equiv> 0xAB"
abbreviation KBD_REPLY_ACK :: int where "KBD_REPLY_ACK \<equiv> 0xFA"
abbreviation KBD_REPLY_RESEND :: int where "KBD_REPLY_RESEND \<equiv> 0xFE"
abbreviation AUX_SET_SCALE11 :: int where "AUX_SET_SCALE11 \<equiv> 0xE6"
abbreviation AUX_SET_SCALE21 :: int where "AUX_SET_SCALE21 \<equiv> 0xE7"
abbreviation AUX_SET_RES :: int where "AUX_SET_RES \<equiv> 0xE8"
abbreviation AUX_GET_SCALE :: int where "AUX_GET_SCALE \<equiv> 0xE9"
abbreviation AUX_SET_STREAM :: int where "AUX_SET_STREAM \<equiv> 0xEA"
abbreviation AUX_POLL :: int where "AUX_POLL \<equiv> 0xEB"
abbreviation AUX_RESET_WRAP :: int where "AUX_RESET_WRAP \<equiv> 0xEC"
abbreviation AUX_SET_WRAP :: int where "AUX_SET_WRAP \<equiv> 0xEE"
abbreviation AUX_SET_REMOTE :: int where "AUX_SET_REMOTE \<equiv> 0xF0"
abbreviation AUX_GET_TYPE :: int where "AUX_GET_TYPE \<equiv> 0xF2"
abbreviation AUX_SET_SAMPLE :: int where "AUX_SET_SAMPLE \<equiv> 0xF3"
abbreviation AUX_ENABLE_DEV :: int where "AUX_ENABLE_DEV \<equiv> 0xF4"
abbreviation AUX_DISABLE_DEV :: int where "AUX_DISABLE_DEV \<equiv> 0xF5"
abbreviation AUX_SET_DEFAULT :: int where "AUX_SET_DEFAULT \<equiv> 0xF6"
abbreviation AUX_RESET :: int where "AUX_RESET \<equiv> 0xFF"
abbreviation AUX_ACK :: int where "AUX_ACK \<equiv> 0xFA"
definition MOUSE_STATUS_REMOTE :: byte where "MOUSE_STATUS_REMOTE = 0x40"
definition MOUSE_STATUS_ENABLED :: byte where "MOUSE_STATUS_ENABLED = 0x20"
definition MOUSE_STATUS_SCALE21 :: byte where "MOUSE_STATUS_SCALE21 = 0x10"


section \<open>State\<close>

definition PS2_QUEUE_SIZE :: nat where "PS2_QUEUE_SIZE = 256"

record PS2Queue =
  q_data :: "byte list"
  rptr :: nat
  wptr :: nat
  q_count :: nat

record PS2State =
  queue :: PS2Queue
  write_cmd :: int
  irq_calls :: "int list"

record PS2KbdState = PS2State +
  scan_enabled :: int
  translate :: int
  scancode_set :: int

record PS2MouseState = PS2State +
  mouse_status :: byte
  mouse_resolution :: byte
  mouse_sample_rate :: byte
  mouse_wrap :: byte
  mouse_type :: byte
  mouse_detect_state :: byte
  mouse_dx :: int
  mouse_dy :: int
  mouse_dz :: int
  mouse_buttons :: byte

definition ps2_raw_keycode :: "byte list" where
  "ps2_raw_keycode =
     [0, 118, 22, 30, 38, 37, 46, 54, 61, 62, 70, 69, 78, 85, 102, 13,
      21, 29, 36, 45, 44, 53, 60, 67, 68, 77, 84, 91, 90, 20, 28, 27,
      35, 43, 52, 51, 59, 66, 75, 76, 82, 14, 18, 93, 26, 34, 33, 42,
      50, 49, 58, 65, 73, 74, 89, 124, 17, 41, 88, 5, 6, 4, 12, 3,
      11, 2, 10, 1, 9, 119, 126, 108, 117, 125, 123, 107, 115, 116, 121, 105,
      114, 122, 112, 113, 127, 96, 97, 120, 7, 15, 23, 31, 39, 47, 55, 63,
      71, 79, 86, 94, 8, 16, 24, 32, 40, 48, 56, 64, 72, 80, 87, 111,
      19, 25, 57, 81, 83, 92, 95, 98, 99, 100, 101, 103, 104, 106, 109, 110]"

section \<open>The queue\<close>

definition update_irq :: "'a PS2State_scheme \<Rightarrow> int \<Rightarrow> 'a PS2State_scheme" where
  "update_irq s level = s\<lparr>irq_calls := irq_calls s @ [level]\<rparr>"

definition next_index :: "nat \<Rightarrow> nat" where
  "next_index i = (if i + 1 = PS2_QUEUE_SIZE then 0 else i + 1)"

definition ps2_queue :: "'a PS2State_scheme \<Rightarrow> int \<Rightarrow> 'a PS2State_scheme" where
  "ps2_queue s b =
     (let q = queue s
      in if PS2_QUEUE_SIZE \<le> q_count q then s
         else update_irq (s\<lparr>queue := q\<lparr>q_data := (q_data q)[wptr q := word_of_int b], wptr := next_index (wptr q),
                                     q_count := q_count q + 1\<rparr>\<rparr>) 1)"

definition ps2_read_data :: "'a PS2State_scheme \<Rightarrow> u32 \<times> 'a PS2State_scheme" where
  "ps2_read_data s =
     (let q = queue s
      in if q_count q = 0
         then (ucast (q_data q ! (if rptr q = 0 then PS2_QUEUE_SIZE - 1 else rptr q - 1)), s)
         else let q' = q\<lparr>rptr := next_index (rptr q), q_count := q_count q - 1\<rparr>
              in (ucast (q_data q ! rptr q),
                  update_irq (update_irq (s\<lparr>queue := q'\<rparr>) 0) (of_bool (q_count q' \<noteq> 0))))"

section \<open>Keyboard\<close>

definition ps2_put_keycode :: "PS2KbdState \<Rightarrow> int \<Rightarrow> PS2KbdState" where
  "ps2_put_keycode s keycode =
     (if translate s = 0 \<and> keycode < 0xe0 \<and> scancode_set s = 2
      then ps2_queue (if keycode AND 0x80 \<noteq> 0 then ps2_queue s 0xf0 else s)
             (uint (ps2_raw_keycode ! nat (keycode AND 0x7f)))
      else ps2_queue s keycode)"

definition ps2_reset_keyboard :: "PS2KbdState \<Rightarrow> PS2KbdState" where
  "ps2_reset_keyboard s = s\<lparr>scan_enabled := 1, scancode_set := 2\<rparr>"

text \<open>A command byte.\<close>

definition keyboard_command :: "PS2KbdState \<Rightarrow> int \<Rightarrow> PS2KbdState" where
  "keyboard_command s val =
     (if val = 0 then ps2_queue s KBD_REPLY_ACK
      else if val = 5 then ps2_queue s KBD_REPLY_RESEND
      else if val = KBD_CMD_GET_ID
      then ps2_queue (ps2_queue (ps2_queue s KBD_REPLY_ACK) KBD_REPLY_ID) (if translate s \<noteq> 0 then 0x41 else 0x83)
      else if val = KBD_CMD_ECHO then ps2_queue s KBD_CMD_ECHO
      else if val = KBD_CMD_ENABLE then ps2_queue (s\<lparr>scan_enabled := 1\<rparr>) KBD_REPLY_ACK
      else if val = KBD_CMD_SCANCODE \<or> val = KBD_CMD_SET_LEDS \<or> val = KBD_CMD_SET_RATE
      then ps2_queue (s\<lparr>write_cmd := val\<rparr>) KBD_REPLY_ACK
      else if val = KBD_CMD_RESET_DISABLE then ps2_queue ((ps2_reset_keyboard s)\<lparr>scan_enabled := 0\<rparr>) KBD_REPLY_ACK
      else if val = KBD_CMD_RESET_ENABLE then ps2_queue ((ps2_reset_keyboard s)\<lparr>scan_enabled := 1\<rparr>) KBD_REPLY_ACK
      else if val = KBD_CMD_RESET then ps2_queue (ps2_queue (ps2_reset_keyboard s) KBD_REPLY_ACK) KBD_REPLY_POR
      else ps2_queue s KBD_REPLY_ACK)"

definition ps2_write_keyboard :: "PS2KbdState \<Rightarrow> int \<Rightarrow> PS2KbdState" where
  "ps2_write_keyboard s val =
     (if write_cmd s = KBD_CMD_SCANCODE then
        (if val = 0 then
           if scancode_set s = 1 then ps2_put_keycode s 0x43
           else if scancode_set s = 2 then ps2_put_keycode s 0x41
           else if scancode_set s = 3 then ps2_put_keycode s 0x3f
           else s
         else ps2_queue (if 1 \<le> val \<and> val \<le> 3 then s\<lparr>scancode_set := val\<rparr> else s) KBD_REPLY_ACK)\<lparr>write_cmd := - 1\<rparr>
      else if write_cmd s = KBD_CMD_SET_LEDS then (ps2_queue s KBD_REPLY_ACK)\<lparr>write_cmd := - 1\<rparr>
      else if write_cmd s = KBD_CMD_SET_RATE then (ps2_queue s KBD_REPLY_ACK)\<lparr>write_cmd := - 1\<rparr>
      else keyboard_command s val)"

definition ps2_keyboard_set_translation :: "PS2KbdState \<Rightarrow> int \<Rightarrow> PS2KbdState" where
  "ps2_keyboard_set_translation s md = s\<lparr>translate := md\<rparr>"

section \<open>Mouse\<close>

definition clamp :: "int \<Rightarrow> int \<Rightarrow> int" where
  "clamp m d = (if d > m then m else if d < - m then - m else d)"

definition ps2_mouse_send_packet :: "PS2MouseState \<Rightarrow> PS2MouseState" where
  "ps2_mouse_send_packet s =
     (let dx1 = clamp 127 (mouse_dx s);
          dy1 = clamp 127 (mouse_dy s);
          b = 0x08 OR push_bit 4 (of_bool (dx1 < 0)) OR push_bit 5 (of_bool (dy1 < 0)) OR (uint (mouse_buttons s) AND 0x07);
          s1 = ps2_queue (ps2_queue (ps2_queue s b) (dx1 AND 0xff)) (dy1 AND 0xff);
          (dz1, s2) =
            (if mouse_type s = 3 then let dz1 = clamp 127 (mouse_dz s) in (dz1, ps2_queue s1 (dz1 AND 0xff))
             else if mouse_type s = 4
             then let dz1 = clamp 7 (mouse_dz s) in (dz1, ps2_queue s1 ((dz1 AND 0x0f) OR push_bit 1 (uint (mouse_buttons s) AND 0x18)))
             else (mouse_dz s, s1))
      in s2\<lparr>mouse_dx := mouse_dx s - dx1, mouse_dy := mouse_dy s - dy1, mouse_dz := mouse_dz s - dz1\<rparr>)"

lemma queue_keeps_deltas [simp]:
  "mouse_dx (ps2_queue m b) = mouse_dx m" "mouse_dy (ps2_queue m b) = mouse_dy m" "mouse_dz (ps2_queue m b) = mouse_dz m"
  "mouse_type (ps2_queue m b) = mouse_type m" "mouse_buttons (ps2_queue m b) = mouse_buttons m"
  "mouse_status (ps2_queue m b) = mouse_status m"
  by (simp_all add: ps2_queue_def update_irq_def Let_def)

definition wheel_step :: "PS2MouseState \<Rightarrow> int" where
  "wheel_step s = (if mouse_type s = 3 then clamp 127 (mouse_dz s) else if mouse_type s = 4 then clamp 7 (mouse_dz s) else mouse_dz s)"

lemma send_packet_deltas [simp]:
  "mouse_dx (ps2_mouse_send_packet s) = mouse_dx s - clamp 127 (mouse_dx s)"
  "mouse_dy (ps2_mouse_send_packet s) = mouse_dy s - clamp 127 (mouse_dy s)"
  "mouse_dz (ps2_mouse_send_packet s) = mouse_dz s - wheel_step s"
  "mouse_type (ps2_mouse_send_packet s) = mouse_type s" "mouse_buttons (ps2_mouse_send_packet s) = mouse_buttons s"
  "mouse_status (ps2_mouse_send_packet s) = mouse_status s"
  by (simp_all add: ps2_mouse_send_packet_def wheel_step_def Let_def)

lemma clamp_shrinks:
  assumes "0 < m"
  shows "\<bar>d - clamp m d\<bar> \<le> \<bar>d\<bar>" "d \<noteq> 0 \<Longrightarrow> \<bar>d - clamp m d\<bar> < \<bar>d\<bar>"
  using assms by (auto simp: clamp_def)

lemma wheel_shrinks: "\<bar>mouse_dz s - wheel_step s\<bar> \<le> \<bar>mouse_dz s\<bar>" "mouse_dz s \<noteq> 0 \<Longrightarrow> \<bar>mouse_dz s - wheel_step s\<bar> < \<bar>mouse_dz s\<bar>"
  by (auto simp: wheel_step_def clamp_def)

text \<open>Packets are sent until no movement is left.\<close>

function ps2_mouse_loop :: "PS2MouseState \<Rightarrow> PS2MouseState" where
  "ps2_mouse_loop s =
     (let s' = ps2_mouse_send_packet s
      in if mouse_dx s' = 0 \<and> mouse_dy s' = 0 \<and> mouse_dz s' = 0 then s' else ps2_mouse_loop s')"
  by pat_completeness auto
termination
proof (relation "measure (\<lambda>s. nat (\<bar>mouse_dx s\<bar> + \<bar>mouse_dy s\<bar> + \<bar>mouse_dz s\<bar>))")
  fix s s' assume s': "s' = ps2_mouse_send_packet s" "\<not> (mouse_dx s' = 0 \<and> mouse_dy s' = 0 \<and> mouse_dz s' = 0)"
  then have "mouse_dx s \<noteq> 0 \<or> mouse_dy s \<noteq> 0 \<or> mouse_dz s \<noteq> 0" by (auto simp: clamp_def wheel_step_def split: if_splits)
  then have "\<bar>mouse_dx s'\<bar> + \<bar>mouse_dy s'\<bar> + \<bar>mouse_dz s'\<bar> < \<bar>mouse_dx s\<bar> + \<bar>mouse_dy s\<bar> + \<bar>mouse_dz s\<bar>"
    using clamp_shrinks [of 127 "mouse_dx s"] clamp_shrinks [of 127 "mouse_dy s"] wheel_shrinks [of s] s'(1) by auto
  then show "(s', s) \<in> measure (\<lambda>s. nat (\<bar>mouse_dx s\<bar> + \<bar>mouse_dy s\<bar> + \<bar>mouse_dz s\<bar>))" by simp
qed simp

declare ps2_mouse_loop.simps [simp del]

definition ps2_mouse_event :: "PS2MouseState \<Rightarrow> int \<Rightarrow> int \<Rightarrow> int \<Rightarrow> int \<Rightarrow> PS2MouseState" where
  "ps2_mouse_event s dx dy dz buttons_state =
     (if mouse_status s AND MOUSE_STATUS_ENABLED = 0 then s
      else let s = s\<lparr>mouse_dx := mouse_dx s + dx, mouse_dy := mouse_dy s - dy, mouse_dz := mouse_dz s + dz\<rparr>
           in if mouse_dx s = 0 \<and> mouse_dy s = 0 \<and> mouse_dz s = 0 \<and> uint (mouse_buttons s) = buttons_state then s
              else let s = s\<lparr>mouse_buttons := word_of_int buttons_state\<rparr>
                   in if mouse_status s AND MOUSE_STATUS_REMOTE = 0 \<and> q_count (queue s) < PS2_QUEUE_SIZE - 16
                      then ps2_mouse_loop s else s)"

definition ps2_mouse_fake_event :: "PS2MouseState \<Rightarrow> PS2MouseState" where
  "ps2_mouse_fake_event s = ps2_mouse_event s 1 0 0 0"

text \<open>A command byte, outside wrap mode.\<close>

definition mouse_command :: "PS2MouseState \<Rightarrow> int \<Rightarrow> PS2MouseState" where
  "mouse_command s val =
     (if val = AUX_SET_SCALE11 then ps2_queue (s\<lparr>mouse_status := mouse_status s AND NOT MOUSE_STATUS_SCALE21\<rparr>) AUX_ACK
      else if val = AUX_SET_SCALE21 then ps2_queue (s\<lparr>mouse_status := mouse_status s OR MOUSE_STATUS_SCALE21\<rparr>) AUX_ACK
      else if val = AUX_SET_STREAM then ps2_queue (s\<lparr>mouse_status := mouse_status s AND NOT MOUSE_STATUS_REMOTE\<rparr>) AUX_ACK
      else if val = AUX_SET_WRAP then ps2_queue (s\<lparr>mouse_wrap := 1\<rparr>) AUX_ACK
      else if val = AUX_SET_REMOTE then ps2_queue (s\<lparr>mouse_status := mouse_status s OR MOUSE_STATUS_REMOTE\<rparr>) AUX_ACK
      else if val = AUX_GET_TYPE then ps2_queue (ps2_queue s AUX_ACK) (uint (mouse_type s))
      else if val = AUX_SET_RES \<or> val = AUX_SET_SAMPLE then ps2_queue (s\<lparr>write_cmd := val\<rparr>) AUX_ACK
      else if val = AUX_GET_SCALE
      then ps2_queue (ps2_queue (ps2_queue (ps2_queue s AUX_ACK) (uint (mouse_status s))) (uint (mouse_resolution s)))
             (uint (mouse_sample_rate s))
      else if val = AUX_POLL then ps2_mouse_send_packet (ps2_queue s AUX_ACK)
      else if val = AUX_ENABLE_DEV then ps2_queue (s\<lparr>mouse_status := mouse_status s OR MOUSE_STATUS_ENABLED\<rparr>) AUX_ACK
      else if val = AUX_DISABLE_DEV then ps2_queue (s\<lparr>mouse_status := mouse_status s AND NOT MOUSE_STATUS_ENABLED\<rparr>) AUX_ACK
      else if val = AUX_SET_DEFAULT
      then ps2_queue (s\<lparr>mouse_sample_rate := 100, mouse_resolution := 2, mouse_status := 0\<rparr>) AUX_ACK
      else if val = AUX_RESET
      then ps2_queue (ps2_queue (ps2_queue
             (s\<lparr>mouse_sample_rate := 100, mouse_resolution := 2, mouse_status := 0, mouse_type := 0\<rparr>) AUX_ACK) 0xaa) 0
      else s)"

text \<open>The sample rate: the sequences 200, 100, 80 and 200, 200, 80 switch on the extended protocols.\<close>

definition mouse_set_sample :: "PS2MouseState \<Rightarrow> int \<Rightarrow> PS2MouseState" where
  "mouse_set_sample s val =
     (let s = s\<lparr>mouse_sample_rate := word_of_int val\<rparr>
      in if mouse_detect_state s = 1
         then s\<lparr>mouse_detect_state := if val = 100 then 2 else if val = 200 then 3 else 0\<rparr>
         else if mouse_detect_state s = 2
         then (if val = 80 then s\<lparr>mouse_type := 3\<rparr> else s)\<lparr>mouse_detect_state := 0\<rparr>
         else if mouse_detect_state s = 3
         then (if val = 80 then s\<lparr>mouse_type := 4\<rparr> else s)\<lparr>mouse_detect_state := 0\<rparr>
         else if val = 200 then s\<lparr>mouse_detect_state := 1\<rparr> else s)"

definition ps2_write_mouse :: "PS2MouseState \<Rightarrow> int \<Rightarrow> PS2MouseState" where
  "ps2_write_mouse s val =
     (if write_cmd s = AUX_SET_SAMPLE then (ps2_queue (mouse_set_sample s val) AUX_ACK)\<lparr>write_cmd := - 1\<rparr>
      else if write_cmd s = AUX_SET_RES
      then (ps2_queue (s\<lparr>mouse_resolution := word_of_int val\<rparr>) AUX_ACK)\<lparr>write_cmd := - 1\<rparr>
      else if mouse_wrap s \<noteq> 0 \<and> val = AUX_RESET_WRAP then ps2_queue (s\<lparr>mouse_wrap := 0\<rparr>) AUX_ACK
      else if mouse_wrap s \<noteq> 0 \<and> val \<noteq> AUX_RESET then ps2_queue s val
      else mouse_command s val)"

section \<open>Reset and creation\<close>

definition ps2_common_reset :: "'a PS2State_scheme \<Rightarrow> 'a PS2State_scheme" where
  "ps2_common_reset s = update_irq (s\<lparr>write_cmd := - 1, queue := (queue s)\<lparr>rptr := 0, wptr := 0, q_count := 0\<rparr>\<rparr>) 0"

definition ps2_kbd_reset :: "PS2KbdState \<Rightarrow> PS2KbdState" where
  "ps2_kbd_reset s = (ps2_common_reset s)\<lparr>scan_enabled := 0, translate := 0, scancode_set := 0\<rparr>"

definition ps2_mouse_reset :: "PS2MouseState \<Rightarrow> PS2MouseState" where
  "ps2_mouse_reset s = (ps2_common_reset s)
     \<lparr>mouse_status := 0, mouse_resolution := 0, mouse_sample_rate := 0, mouse_wrap := 0, mouse_type := 0,
      mouse_detect_state := 0, mouse_dx := 0, mouse_dy := 0, mouse_dz := 0, mouse_buttons := 0\<rparr>"

definition ps2_kbd_init :: PS2KbdState where
  "ps2_kbd_init =
     \<lparr>queue = \<lparr>q_data = replicate 256 0, rptr = 0, wptr = 0, q_count = 0\<rparr>, write_cmd = 0, irq_calls = [],
      scan_enabled = 0, translate = 0, scancode_set = 2\<rparr>"

definition ps2_mouse_init :: PS2MouseState where
  "ps2_mouse_init =
     \<lparr>queue = \<lparr>q_data = replicate 256 0, rptr = 0, wptr = 0, q_count = 0\<rparr>, write_cmd = 0, irq_calls = [],
      mouse_status = 0, mouse_resolution = 0, mouse_sample_rate = 0, mouse_wrap = 0, mouse_type = 0,
      mouse_detect_state = 0, mouse_dx = 0, mouse_dy = 0, mouse_dz = 0, mouse_buttons = 0\<rparr>"

section \<open>Saved state\<close>

text \<open>
  The common part as a structure of its own. Positions in the ring are saved as \<open>int\<close>; a negative position,
  which no device ever saves, is not represented.
\<close>

definition common :: "'a PS2State_scheme \<Rightarrow> PS2State" where
  "common s = \<lparr>queue = queue s, write_cmd = write_cmd s, irq_calls = irq_calls s\<rparr>"

definition set_common :: "PS2State \<Rightarrow> 'a PS2State_scheme \<Rightarrow> 'a PS2State_scheme" where
  "set_common c s = s\<lparr>queue := queue c, write_cmd := write_cmd c, irq_calls := irq_calls c\<rparr>"

definition vmstate_ps2_common :: "(PS2State, 'o) VMStateDescription" where
  "vmstate_ps2_common = \<lparr>vmsd_name = ''PS2 Common State'', vmsd_version = 3, minimum_version_id = 2, minimum_version_id_old = 2,
     load_state_old = None, pre_load = None, post_load = None, pre_save = None, post_save = None, vmsd_fields =
      [VMSTATE_INT32 ''write_cmd'' (\<lambda>s. word_of_int (write_cmd s)) (\<lambda>v s. s\<lparr>write_cmd := sint v\<rparr>),
       VMSTATE_INT32 ''queue.rptr'' (\<lambda>s. of_nat (rptr (queue s))) (\<lambda>v s. s\<lparr>queue := (queue s)\<lparr>rptr := nat (sint v)\<rparr>\<rparr>),
       VMSTATE_INT32 ''queue.wptr'' (\<lambda>s. of_nat (wptr (queue s))) (\<lambda>v s. s\<lparr>queue := (queue s)\<lparr>wptr := nat (sint v)\<rparr>\<rparr>),
       VMSTATE_INT32 ''queue.count'' (\<lambda>s. of_nat (q_count (queue s))) (\<lambda>v s. s\<lparr>queue := (queue s)\<lparr>q_count := nat (sint v)\<rparr>\<rparr>),
       VMSTATE_BUFFER ''queue.data'' 256 (\<lambda>s. q_data (queue s)) (\<lambda>v s. s\<lparr>queue := (queue s)\<lparr>q_data := v\<rparr>\<rparr>)]\<rparr>"

definition ps2_kbd_post_load :: "PS2KbdState \<Rightarrow> int \<Rightarrow> int \<times> PS2KbdState" where
  "ps2_kbd_post_load s version_id = (0, if version_id = 2 then s\<lparr>scancode_set := 2\<rparr> else s)"

definition vmstate_ps2_keyboard :: "(PS2KbdState, 'o) VMStateDescription" where
  "vmstate_ps2_keyboard = \<lparr>vmsd_name = ''ps2kbd'', vmsd_version = 3, minimum_version_id = 2, minimum_version_id_old = 2,
     load_state_old = None, pre_load = None, post_load = Some ps2_kbd_post_load, pre_save = None, post_save = None, vmsd_fields =
      [VMSTATE_STRUCT ''common'' 0 vmstate_ps2_common common set_common,
       VMSTATE_INT32 ''scan_enabled'' (\<lambda>s. word_of_int (scan_enabled s)) (\<lambda>v s. s\<lparr>scan_enabled := sint v\<rparr>),
       VMSTATE_INT32 ''translate'' (\<lambda>s. word_of_int (translate s)) (\<lambda>v s. s\<lparr>translate := sint v\<rparr>),
       VMSTATE_INT32_V ''scancode_set'' (\<lambda>s. word_of_int (scancode_set s)) (\<lambda>v s. s\<lparr>scancode_set := sint v\<rparr>) 3]\<rparr>"

definition vmstate_ps2_mouse :: "(PS2MouseState, 'o) VMStateDescription" where
  "vmstate_ps2_mouse = \<lparr>vmsd_name = ''ps2mouse'', vmsd_version = 2, minimum_version_id = 2, minimum_version_id_old = 2,
     load_state_old = None, pre_load = None, post_load = None, pre_save = None, post_save = None, vmsd_fields =
      [VMSTATE_STRUCT ''common'' 0 vmstate_ps2_common common set_common,
       VMSTATE_UINT8 ''mouse_status'' mouse_status (\<lambda>v s. s\<lparr>mouse_status := v\<rparr>),
       VMSTATE_UINT8 ''mouse_resolution'' mouse_resolution (\<lambda>v s. s\<lparr>mouse_resolution := v\<rparr>),
       VMSTATE_UINT8 ''mouse_sample_rate'' mouse_sample_rate (\<lambda>v s. s\<lparr>mouse_sample_rate := v\<rparr>),
       VMSTATE_UINT8 ''mouse_wrap'' mouse_wrap (\<lambda>v s. s\<lparr>mouse_wrap := v\<rparr>),
       VMSTATE_UINT8 ''mouse_type'' mouse_type (\<lambda>v s. s\<lparr>mouse_type := v\<rparr>),
       VMSTATE_UINT8 ''mouse_detect_state'' mouse_detect_state (\<lambda>v s. s\<lparr>mouse_detect_state := v\<rparr>),
       VMSTATE_INT32 ''mouse_dx'' (\<lambda>s. word_of_int (mouse_dx s)) (\<lambda>v s. s\<lparr>mouse_dx := sint v\<rparr>),
       VMSTATE_INT32 ''mouse_dy'' (\<lambda>s. word_of_int (mouse_dy s)) (\<lambda>v s. s\<lparr>mouse_dy := sint v\<rparr>),
       VMSTATE_INT32 ''mouse_dz'' (\<lambda>s. word_of_int (mouse_dz s)) (\<lambda>v s. s\<lparr>mouse_dz := sint v\<rparr>),
       VMSTATE_UINT8 ''mouse_buttons'' mouse_buttons (\<lambda>v s. s\<lparr>mouse_buttons := v\<rparr>)]\<rparr>"

section \<open>The ring is a bounded queue\<close>

text \<open>What the devices rely on: a first-in first-out queue of bytes with a capacity, which drops what does not fit.\<close>

locale byte_fifo =
  fixes enq :: "'q \<Rightarrow> int \<Rightarrow> 'q" and deq :: "'q \<Rightarrow> u32 \<times> 'q" and contents :: "'q \<Rightarrow> byte list"
    and ok :: "'q \<Rightarrow> bool" and cap :: nat
  assumes enq_ok: "ok q \<Longrightarrow> ok (enq q b)" and deq_ok: "ok q \<Longrightarrow> ok (snd (deq q))"
    and enq_contents: "ok q \<Longrightarrow> contents (enq q b) = (if length (contents q) < cap then contents q @ [word_of_int b] else contents q)"
    and deq_value: "ok q \<Longrightarrow> contents q \<noteq> [] \<Longrightarrow> fst (deq q) = ucast (hd (contents q))"
    and deq_contents: "ok q \<Longrightarrow> contents (snd (deq q)) = tl (contents q)"
    and bounded: "ok q \<Longrightarrow> length (contents q) \<le> cap"
begin

definition enqs :: "'q \<Rightarrow> int list \<Rightarrow> 'q" where
  "enqs q bs = fold (\<lambda>b q. enq q b) bs q"

fun deqs :: "nat \<Rightarrow> 'q \<Rightarrow> u32 list \<times> 'q" where
  "deqs 0 q = ([], q)"
| "deqs (Suc n) q = (let (v, q) = deq q; (vs, q) = deqs n q in (v # vs, q))"

lemma enqs_simps [simp]: "enqs q [] = q" "enqs q (b # bs) = enqs (enq q b) bs"
  by (simp_all add: enqs_def)

lemma enqs_ok: "ok q \<Longrightarrow> ok (enqs q bs)"
  by (induction bs arbitrary: q) (simp_all add: enq_ok)

lemma enqs_contents: "ok q \<Longrightarrow> contents (enqs q bs) = take cap (contents q @ map word_of_int bs)"
proof (induction bs arbitrary: q)
  case (Cons b bs)
  then show ?case using Cons.IH [OF enq_ok [OF Cons.prems], of b] bounded [OF Cons.prems]
    by (auto simp: enq_contents take_Cons')
qed (simp add: bounded)

lemma deqs_contents:
  "ok q \<Longrightarrow> n \<le> length (contents q) \<Longrightarrow>
     fst (deqs n q) = map ucast (take n (contents q)) \<and> contents (snd (deqs n q)) = drop n (contents q) \<and> ok (snd (deqs n q))"
proof (induction n arbitrary: q)
  case (Suc n)
  obtain v q' where d: "deq q = (v, q')" by (cases "deq q")
  from Suc.prems have ne: "contents q \<noteq> []" by auto
  have "ok q'" "contents q' = tl (contents q)" "v = ucast (hd (contents q))"
    using d deq_ok [OF Suc.prems(1)] deq_contents [OF Suc.prems(1)] deq_value [OF Suc.prems(1) ne] by simp_all
  moreover have "take (Suc n) (contents q) = hd (contents q) # take n (tl (contents q))"
    using ne by (cases "contents q") simp_all
  ultimately show ?case using Suc.IH [of q'] Suc.prems(2) d ne by (auto simp: drop_Suc split: prod.split)
qed simp

lemma delivered:
  assumes "ok q" and "length (contents q) + length bs \<le> cap"
  shows "fst (deqs (length (contents q) + length bs) (enqs q bs)) = map ucast (contents q @ map word_of_int bs)"
  using deqs_contents [OF enqs_ok [OF assms(1)], of "length (contents q) + length bs" bs] assms
  by (simp add: enqs_contents)

end

definition queue_wf :: "PS2Queue \<Rightarrow> bool" where
  "queue_wf q \<longleftrightarrow> length (q_data q) = 256 \<and> rptr q < 256 \<and> wptr q = (rptr q + q_count q) mod 256 \<and> q_count q \<le> 256"

definition ring :: "'a PS2State_scheme \<Rightarrow> byte list" where
  "ring s = (let q = queue s in map (\<lambda>k. q_data q ! ((rptr q + k) mod 256)) [0 ..< q_count q])"

lemma next_index_mod: "i < 256 \<Longrightarrow> next_index i = (i + 1) mod 256"
  by (auto simp: next_index_def PS2_QUEUE_SIZE_def)

lemma length_ring [simp]: "length (ring s) = q_count (queue s)"
  by (simp add: ring_def Let_def)

lemma update_irq_simps [simp]:
  "queue (update_irq s l) = queue s" "irq_calls (update_irq s l) = irq_calls s @ [l]" "ring (update_irq s l) = ring s"
  "write_cmd (update_irq s l) = write_cmd s"
  by (simp_all add: update_irq_def ring_def)

lemma ring_slots: "a < 256 \<Longrightarrow> k < n \<Longrightarrow> n < 256 \<Longrightarrow> (a + k) mod 256 \<noteq> (a + n) mod (256 :: nat)"
proof
  assume "a < 256" "k < n" "n < 256" "(a + k) mod 256 = (a + n) mod 256"
  then have "256 dvd (a + n) - (a + k)" by (metis mod_eq_dvd_iff_nat add_le_cancel_left less_imp_le)
  then show False using \<open>k < n\<close> \<open>n < 256\<close> by (auto dest: dvd_imp_le)
qed

lemma queue_contents:
  assumes "queue_wf (queue s)"
  shows "queue_wf (queue (ps2_queue s b))"
    "ring (ps2_queue s b) = (if length (ring s) < 256 then ring s @ [word_of_int b] else ring s)"
proof -
  let ?q = "queue s"
  have "wptr ?q < 256" using assms by (simp add: queue_wf_def)
  then have n: "next_index (wptr ?q) = (rptr ?q + (q_count ?q + 1)) mod 256"
    using assms by (simp add: next_index_mod queue_wf_def mod_Suc_eq)
  show "queue_wf (queue (ps2_queue s b))"
    using assms n by (auto simp: ps2_queue_def queue_wf_def Let_def PS2_QUEUE_SIZE_def)
  show "ring (ps2_queue s b) = (if length (ring s) < 256 then ring s @ [word_of_int b] else ring s)"
  proof (cases "q_count ?q < 256")
    case True
    have "map (\<lambda>k. (q_data ?q)[wptr ?q := v] ! ((rptr ?q + k) mod 256)) [0 ..< q_count ?q] =
        map (\<lambda>k. q_data ?q ! ((rptr ?q + k) mod 256)) [0 ..< q_count ?q]" for v
    proof (rule map_cong [OF refl])
      fix k assume "k \<in> set [0 ..< q_count ?q]"
      then have "(rptr ?q + k) mod 256 \<noteq> wptr ?q" using ring_slots [of "rptr ?q" k "q_count ?q"] assms True by (simp add: queue_wf_def)
      then show "(q_data ?q)[wptr ?q := v] ! ((rptr ?q + k) mod 256) = q_data ?q ! ((rptr ?q + k) mod 256)" by simp
    qed
    moreover have "(q_data ?q)[wptr ?q := v] ! ((rptr ?q + q_count ?q) mod 256) = v" for v
      using assms by (simp add: queue_wf_def)
    ultimately show ?thesis using True by (simp add: ps2_queue_def Let_def PS2_QUEUE_SIZE_def ring_def update_irq_def)
  qed (simp add: ps2_queue_def PS2_QUEUE_SIZE_def)
qed


lemma read_contents:
  assumes "queue_wf (queue s)"
  shows "queue_wf (queue (snd (ps2_read_data s)))" "ring s \<noteq> [] \<Longrightarrow> fst (ps2_read_data s) = ucast (hd (ring s))"
    "ring (snd (ps2_read_data s)) = tl (ring s)"
proof -
  let ?q = "queue s"
  have n: "next_index (rptr ?q) = (rptr ?q + 1) mod 256" using assms by (simp add: queue_wf_def next_index_mod)
  have "(rptr ?q + q_count ?q) mod 256 = ((rptr ?q + 1) mod 256 + (q_count ?q - 1)) mod 256" if "q_count ?q \<noteq> 0"
    using that mod_add_left_eq [of "rptr ?q + 1" 256 "q_count ?q - 1"] by (simp del: mod_add_left_eq)
  then show "queue_wf (queue (snd (ps2_read_data s)))"
    using assms n by (auto simp: ps2_read_data_def Let_def queue_wf_def)
  show "ring s \<noteq> [] \<Longrightarrow> fst (ps2_read_data s) = ucast (hd (ring s))"
    using assms by (auto simp: ps2_read_data_def Let_def ring_def hd_map queue_wf_def)
  have "tl (map g [0 ..< m]) = map (\<lambda>k. g (Suc k)) [0 ..< m - 1]" for g :: "nat \<Rightarrow> byte" and m
    by (cases m) (simp_all add: map_upt_Suc del: upt_Suc)
  moreover have "((rptr ?q + 1) mod 256 + k) mod 256 = (rptr ?q + Suc k) mod 256" for k
    by (simp add: mod_simps)
  ultimately show "ring (snd (ps2_read_data s)) = tl (ring s)"
    using n by (auto simp: ps2_read_data_def Let_def ring_def update_irq_def)
qed

interpretation ps2: byte_fifo ps2_queue ps2_read_data ring "\<lambda>s. queue_wf (queue s)" 256
  by unfold_locales (auto simp: queue_contents read_contents, simp add: queue_wf_def)

section \<open>The device buffer refines a queue with a last byte\<close>

datatype buf_op = Queue int | Read

fun ring_step :: "'a PS2State_scheme \<Rightarrow> buf_op \<Rightarrow> u32 list \<times> 'a PS2State_scheme" where
  "ring_step s (Queue b) = ([], ps2_queue s b)"
| "ring_step s Read = (let (v, s) = ps2_read_data s in ([v], s))"

fun ring_run :: "'a PS2State_scheme \<Rightarrow> buf_op list \<Rightarrow> u32 list \<times> 'a PS2State_scheme" where
  "ring_run s [] = ([], s)"
| "ring_run s (op # ops) = (let (vs, s) = ring_step s op; (vs', s) = ring_run s ops in (vs @ vs', s))"

text \<open>The specification: the bytes waiting, the byte read last, and the levels of the interrupt line.\<close>

record fifo =
  waiting :: "byte list"
  last_read :: byte
  levels :: "int list"

fun fifo_step :: "fifo \<Rightarrow> buf_op \<Rightarrow> u32 list \<times> fifo" where
  "fifo_step a (Queue b) =
     ([], if length (waiting a) < 256 then a\<lparr>waiting := waiting a @ [word_of_int b], levels := levels a @ [1]\<rparr> else a)"
| "fifo_step a Read = (case waiting a of
     [] \<Rightarrow> ([ucast (last_read a)], a)
   | b # bs \<Rightarrow> ([ucast b], a\<lparr>waiting := bs, last_read := b, levels := levels a @ [0, of_bool (bs \<noteq> [])]\<rparr>))"

fun fifo_run :: "fifo \<Rightarrow> buf_op list \<Rightarrow> u32 list \<times> fifo" where
  "fifo_run a [] = ([], a)"
| "fifo_run a (op # ops) = (let (vs, a) = fifo_step a op; (vs', a) = fifo_run a ops in (vs @ vs', a))"

definition prev_slot :: "PS2Queue \<Rightarrow> nat" where
  "prev_slot q = (if rptr q = 0 then 255 else rptr q - 1)"

definition fifo_rel :: "'a PS2State_scheme \<Rightarrow> fifo \<Rightarrow> bool" where
  "fifo_rel s a \<longleftrightarrow> queue_wf (queue s) \<and> ring s = waiting a \<and> irq_calls s = levels a \<and>
     (length (waiting a) < 256 \<longrightarrow> q_data (queue s) ! prev_slot (queue s) = last_read a)"

lemma prev_slot_free:
  assumes "queue_wf q" "q_count q < 255"
  shows "wptr q \<noteq> prev_slot q"
proof -
  have "prev_slot q = (rptr q + 255) mod 256" using assms by (auto simp: prev_slot_def queue_wf_def mod_if)
  then show ?thesis using assms ring_slots [of "rptr q" "q_count q" 255] by (simp add: queue_wf_def)
qed

lemma queue_refines:
  assumes "fifo_rel s a"
  shows "fifo_rel (ps2_queue s b) (snd (fifo_step a (Queue b)))"
proof (cases "length (waiting a) < 256")
  case True
  have wf: "queue_wf (queue s)" "ring s = waiting a" "irq_calls s = levels a" "q_count (queue s) = length (waiting a)"
    using assms length_ring [of s] by (simp_all add: fifo_rel_def)
  have "q_data (queue (ps2_queue s b)) ! prev_slot (queue (ps2_queue s b)) = last_read a" if "Suc (length (waiting a)) < 256"
    using prev_slot_free [OF wf(1)] assms that wf(4) True
    by (auto simp: ps2_queue_def Let_def PS2_QUEUE_SIZE_def fifo_rel_def prev_slot_def split: if_splits)
  moreover have "irq_calls (ps2_queue s b) = levels a @ [1]"
    using wf True by (simp add: ps2_queue_def Let_def PS2_QUEUE_SIZE_def)
  ultimately show ?thesis using True wf by (simp add: fifo_rel_def queue_contents)
next
  case False
  then show ?thesis using assms length_ring [of s] by (auto simp: fifo_rel_def ps2_queue_def PS2_QUEUE_SIZE_def)
qed

lemma hd_ring: "queue_wf (queue s) \<Longrightarrow> ring s \<noteq> [] \<Longrightarrow> hd (ring s) = q_data (queue s) ! rptr (queue s)"
  by (auto simp: ring_def Let_def hd_map queue_wf_def)

lemma read_refines:
  assumes "fifo_rel s a"
  shows "[fst (ps2_read_data s)] = fst (fifo_step a Read)" "fifo_rel (snd (ps2_read_data s)) (snd (fifo_step a Read))"
proof -
  have wf: "queue_wf (queue s)" "ring s = waiting a" "irq_calls s = levels a" "q_count (queue s) = length (waiting a)"
    using assms length_ring [of s] by (simp_all add: fifo_rel_def)
  have "[fst (ps2_read_data s)] = fst (fifo_step a Read) \<and> fifo_rel (snd (ps2_read_data s)) (snd (fifo_step a Read))"
  proof (cases "waiting a")
    case Nil
    then show ?thesis using assms wf(4)
      by (auto simp: ps2_read_data_def Let_def fifo_rel_def prev_slot_def PS2_QUEUE_SIZE_def split: if_splits)
  next
    case (Cons b bs)
    let ?s = "snd (ps2_read_data s)"
    have "irq_calls ?s = levels a @ [0, of_bool (bs \<noteq> [])]"
      using Cons wf by (auto simp: ps2_read_data_def Let_def)
    moreover have "q_data (queue ?s) ! prev_slot (queue ?s) = q_data (queue s) ! rptr (queue s)"
      using Cons wf by (auto simp: ps2_read_data_def Let_def prev_slot_def next_index_def PS2_QUEUE_SIZE_def queue_wf_def)
    moreover have "q_data (queue s) ! rptr (queue s) = hd (ring s)"
      using Cons wf(2) hd_ring [OF wf(1)] by simp
    ultimately show ?thesis using Cons wf read_contents [OF wf(1)] by (simp add: fifo_rel_def)
  qed
  then show "[fst (ps2_read_data s)] = fst (fifo_step a Read)" "fifo_rel (snd (ps2_read_data s)) (snd (fifo_step a Read))" by simp_all
qed

text \<open>
  C22. The ring buffer of the PS/2 devices implements its specification: for every sequence of bytes queued
  by a device and reads by the guest, the reads return the bytes in order, a read of the empty
  buffer returns the byte read last, what does not fit in 256 bytes is dropped, and the interrupt
  line is raised by every byte queued, and lowered by every read and raised again while bytes are left.
\<close>

theorem ps2_buffer_refines:
  assumes "fifo_rel s a"
  shows "fst (ring_run s ops) = fst (fifo_run a ops) \<and> fifo_rel (snd (ring_run s ops)) (snd (fifo_run a ops))"
  using assms
proof (induction ops arbitrary: s a)
  case (Cons op ops)
  have "fst (ring_step s op) = fst (fifo_step a op) \<and> fifo_rel (snd (ring_step s op)) (snd (fifo_step a op))"
    using queue_refines [OF Cons.prems] read_refines [OF Cons.prems] by (cases op) (auto split: prod.split)
  with Cons.IH [of "snd (ring_step s op)" "snd (fifo_step a op)"] show ?case by (simp add: case_prod_beta Let_def)
qed simp

theorem ps2_buffer_refines_witness:
  "fst (ring_run ps2_kbd_init [Queue 0x1e, Read, Read]) = [0x1e, 0x1e] \<and>
   fifo_rel (snd (ring_run ps2_kbd_init [Queue 0x1e, Read, Read])) \<lparr>waiting = [], last_read = 0x1e, levels = [1, 0, 0]\<rparr>"
proof -
  have "fifo_rel ps2_kbd_init \<lparr>waiting = [], last_read = 0, levels = []\<rparr>"
    by (simp add: fifo_rel_def ps2_kbd_init_def queue_wf_def ring_def prev_slot_def)
  from ps2_buffer_refines [OF this, of "[Queue 0x1e, Read, Read]"] show ?thesis by simp
qed

section \<open>Mouse packets\<close>

definition packet :: "PS2MouseState \<Rightarrow> int list" where
  "packet s =
     (let dx1 = clamp 127 (mouse_dx s); dy1 = clamp 127 (mouse_dy s)
      in [0x08 OR push_bit 4 (of_bool (dx1 < 0)) OR push_bit 5 (of_bool (dy1 < 0)) OR (uint (mouse_buttons s) AND 0x07),
          dx1 AND 0xff, dy1 AND 0xff] @
         (if mouse_type s = 3 then [wheel_step s AND 0xff]
          else if mouse_type s = 4 then [(wheel_step s AND 0x0f) OR push_bit 1 (uint (mouse_buttons s) AND 0x18)] else []))"

text \<open>How a driver reads the stream: packets of three bytes, or four with a wheel.\<close>

definition packet_size :: "byte \<Rightarrow> nat" where
  "packet_size m = (if m = 3 \<or> m = 4 then 4 else 3)"

definition decode_packet :: "byte \<Rightarrow> byte list \<Rightarrow> int \<times> int \<times> int" where
  "decode_packet m p =
     (uint (p ! 1) - (if bit (p ! 0) 4 then 256 else 0),
      uint (p ! 2) - (if bit (p ! 0) 5 then 256 else 0),
      if m = 3 then sint (p ! 3)
      else if m = 4 then uint (p ! 3 AND 0x0f) - (if bit (p ! 3) 3 then 16 else 0) else 0)"

function packets :: "byte \<Rightarrow> byte list \<Rightarrow> (int \<times> int \<times> int) list" where
  "packets m bs = (if length bs < packet_size m then []
     else decode_packet m (take (packet_size m) bs) # packets m (drop (packet_size m) bs))"
  by pat_completeness auto
termination by (relation "measure (\<lambda>(m, bs). length bs)") (auto simp: packet_size_def split: if_splits)

declare packets.simps [simp del]

definition moved :: "byte \<Rightarrow> byte list \<Rightarrow> int \<times> int \<times> int" where
  "moved m bs = (sum_list (map fst (packets m bs)), sum_list (map (fst \<circ> snd) (packets m bs)), sum_list (map (snd \<circ> snd) (packets m bs)))"

lemma packets_append: "length p = packet_size m \<Longrightarrow> packets m (p @ bs) = decode_packet m p # packets m bs"
  by (subst packets.simps) simp

lemma packets_Nil: "packets m [] = []"
  by (subst packets.simps) (simp add: packet_size_def)

lemma enqs_keeps [simp]:
  "mouse_dx (ps2.enqs s bs) = mouse_dx s" "mouse_dy (ps2.enqs s bs) = mouse_dy s" "mouse_dz (ps2.enqs s bs) = mouse_dz s"
  "mouse_type (ps2.enqs s bs) = mouse_type s"
  by (induction bs arbitrary: s) simp_all

lemma send_packet_queue: "queue (ps2_mouse_send_packet s) = queue (ps2.enqs s (packet s))"
  by (simp add: ps2_mouse_send_packet_def packet_def wheel_step_def Let_def)

lemma length_packet: "length (packet s) = packet_size (mouse_type s)"
  by (simp add: packet_def packet_size_def Let_def)

lemma ring_queue: "queue s = queue s' \<Longrightarrow> ring s = ring s'"
  by (simp add: ring_def)

lemma send_packet_ring:
  assumes "queue_wf (queue s)"
  shows "ring (ps2_mouse_send_packet s) = take 256 (ring s @ map word_of_int (packet s))" "queue_wf (queue (ps2_mouse_send_packet s))"
proof -
  show "ring (ps2_mouse_send_packet s) = take 256 (ring s @ map word_of_int (packet s))"
    using ps2.enqs_contents [OF assms, of "packet s"] ring_queue [OF send_packet_queue] by metis
  show "queue_wf (queue (ps2_mouse_send_packet s))" unfolding send_packet_queue by (rule ps2.enqs_ok [OF assms])
qed

lemma low_byte: "\<bar>d\<bar> \<le> 127 \<Longrightarrow> uint (word_of_int (d AND 0xff) :: byte) - (if d < 0 then 256 else 0) = d"
  "\<bar>d\<bar> \<le> 127 \<Longrightarrow> sint (word_of_int (d AND 0xff) :: byte) = d"
proof -
  assume d: "\<bar>d\<bar> \<le> 127"
  have "d AND 0xff = take_bit 8 d" by (simp add: take_bit_eq_mask mask_eq_exp_minus_1)
  then have w: "(word_of_int (d AND 0xff) :: byte) = word_of_int d" by (simp add: word_of_int_eq_iff)
  show "sint (word_of_int (d AND 0xff) :: byte) = d"
    unfolding w using d by (simp add: signed_of_int signed_take_bit_int_eq_self)
  show "uint (word_of_int (d AND 0xff) :: byte) - (if d < 0 then 256 else 0) = d"
  proof -
    have "d < 0 \<Longrightarrow> d mod 256 = d + 256" "\<not> d < 0 \<Longrightarrow> d mod 256 = d"
      using d mod_pos_pos_trivial [of "d + 256" 256] mod_pos_pos_trivial [of d 256] by simp_all
    then have "d mod 256 - (if d < 0 then 256 else 0) = d" by simp
    then show ?thesis unfolding w by (simp add: unsigned_of_int take_bit_eq_mod)
  qed
qed

lemma low_nibble:
  assumes "\<bar>d\<bar> \<le> 7"
  shows "uint (word_of_int ((d AND 0x0f) OR push_bit 1 (uint (b :: byte) AND 0x18)) AND 0x0f :: byte) -
    (if bit (word_of_int ((d AND 0x0f) OR push_bit 1 (uint b AND 0x18)) :: byte) 3 then 16 else 0) = d"
proof -
  have "(word_of_int ((d AND 0x0f) OR push_bit 1 (uint b AND 0x18)) AND 0x0f :: byte) = word_of_int (d AND 0x0f)"
  proof (rule bit_eqI)
    fix n assume "possible_bit TYPE(byte) n"
    then have "n < 8" by simp
    then consider "n = 0" | "n = 1" | "n = 2" | "n = 3" | "n = 4" | "n = 5" | "n = 6" | "n = 7" by fastforce
    then show "bit (word_of_int ((d AND 0x0f) OR push_bit 1 (uint b AND 0x18)) AND 0x0f :: byte) n = bit (word_of_int (d AND 0x0f) :: byte) n"
      by cases (simp_all add: bit_simps)
  qed
  moreover have "bit (word_of_int ((d AND 0x0f) OR push_bit 1 (uint b AND 0x18)) :: byte) 3 \<longleftrightarrow> bit d 3"
    by (simp add: bit_simps)
  moreover have "d \<in> {-7, -6, -5, -4, -3, -2, -1, 0, 1, 2, 3, 4, 5, 6, 7}" using assms by simp arith
  then have "uint (word_of_int (d AND 0x0f) :: byte) - (if bit d 3 then 16 else 0) = d" by auto
  ultimately show ?thesis by simp
qed

lemma header_bits:
  "bit (word_of_int (0x08 OR push_bit 4 (of_bool p) OR push_bit 5 (of_bool q) OR (uint (b :: byte) AND 0x07)) :: byte) 4 = p"
  "bit (word_of_int (0x08 OR push_bit 4 (of_bool p) OR push_bit 5 (of_bool q) OR (uint (b :: byte) AND 0x07)) :: byte) 5 = q"
  by (auto simp: bit_simps)

lemma decode_packet_packet:
  "decode_packet (mouse_type s) (map word_of_int (packet s)) =
     (clamp 127 (mouse_dx s), clamp 127 (mouse_dy s), if mouse_type s = 3 \<or> mouse_type s = 4 then wheel_step s else 0)"
proof -
  have c: "\<bar>clamp 127 d\<bar> \<le> 127" "\<bar>clamp 7 d\<bar> \<le> 7" for d by (auto simp: clamp_def)
  have w: "mouse_type s = 3 \<Longrightarrow> \<bar>wheel_step s\<bar> \<le> 127" "mouse_type s = 4 \<Longrightarrow> \<bar>wheel_step s\<bar> \<le> 7"
    using c by (simp_all add: wheel_step_def)
  show ?thesis
    using low_byte(1) [OF c(1) [of "mouse_dx s"]] low_byte(1) [OF c(1) [of "mouse_dy s"]] low_byte(2) [OF w(1)] low_nibble [OF w(2)]
    unfolding decode_packet_def packet_def Let_def by (simp add: header_bits)
qed


text \<open>All packets of a loop: the bytes and what they say.\<close>

lemma loop_packets:
  assumes "queue_wf (queue s)"
  shows "\<exists>bs. ring (ps2_mouse_loop s) = take 256 (ring s @ bs) \<and> queue_wf (queue (ps2_mouse_loop s)) \<and>
    moved (mouse_type s) bs = (mouse_dx s, mouse_dy s, if mouse_type s = 3 \<or> mouse_type s = 4 then mouse_dz s else 0) \<and>
    packet_size (mouse_type s) dvd length bs \<and>
    mouse_dx (ps2_mouse_loop s) = 0 \<and> mouse_dy (ps2_mouse_loop s) = 0 \<and> mouse_dz (ps2_mouse_loop s) = 0"
  using assms
proof (induction s rule: ps2_mouse_loop.induct)
  case (1 s)
  let ?s = "ps2_mouse_send_packet s" and ?p = "map word_of_int (packet s) :: byte list"
  have len: "length ?p = packet_size (mouse_type s)" by (simp add: length_packet)
  note ring = send_packet_ring [OF 1(2)]
  show ?case
  proof (cases "mouse_dx ?s = 0 \<and> mouse_dy ?s = 0 \<and> mouse_dz ?s = 0")
    case True
    then have "ps2_mouse_loop s = ?s" by (subst ps2_mouse_loop.simps) (simp add: Let_def)
    moreover have "moved (mouse_type s) ?p = (mouse_dx s, mouse_dy s, if mouse_type s = 3 \<or> mouse_type s = 4 then mouse_dz s else 0)"
      using True packets_append [OF len, of "[]"] by (simp add: moved_def packets_Nil decode_packet_packet)
    ultimately show ?thesis using ring len True by (intro exI [of _ ?p]) simp
  next
    case False
    then have loop: "ps2_mouse_loop s = ps2_mouse_loop ?s" by (subst ps2_mouse_loop.simps) (simp only: Let_def if_False)
    from 1(1) [OF refl False ring(2)] obtain bs where bs: "ring (ps2_mouse_loop ?s) = take 256 (ring ?s @ bs)"
      "queue_wf (queue (ps2_mouse_loop ?s))"
      "moved (mouse_type s) bs = (mouse_dx ?s, mouse_dy ?s, if mouse_type s = 3 \<or> mouse_type s = 4 then mouse_dz ?s else 0)"
      "packet_size (mouse_type s) dvd length bs"
      "mouse_dx (ps2_mouse_loop ?s) = 0 \<and> mouse_dy (ps2_mouse_loop ?s) = 0 \<and> mouse_dz (ps2_mouse_loop ?s) = 0" by auto
    have "ring (ps2_mouse_loop ?s) = take 256 (ring s @ ?p @ bs)" using bs(1) ring(1) by (simp add: min_def)
    moreover have "moved (mouse_type s) (?p @ bs) = (mouse_dx s, mouse_dy s, if mouse_type s = 3 \<or> mouse_type s = 4 then mouse_dz s else 0)"
      using bs(3) packets_append [OF len, of bs] by (auto simp: moved_def decode_packet_packet)
    ultimately show ?thesis using bs len loop by (intro exI [of _ "?p @ bs"]) simp
  qed
qed



definition ex_mouse :: PS2MouseState where
  "ex_mouse = ps2_mouse_init\<lparr>mouse_status := 0x20, mouse_type := 3\<rparr>"


section \<open>The states the devices can be in\<close>

definition kbd_ok :: "PS2KbdState \<Rightarrow> bool" where
  "kbd_ok s \<longleftrightarrow> queue_wf (queue s) \<and> write_cmd s \<in> {-1, 0, KBD_CMD_SCANCODE, KBD_CMD_SET_LEDS, KBD_CMD_SET_RATE} \<and>
     scan_enabled s \<in> {0, 1} \<and> translate s \<in> {0, 1} \<and> scancode_set s \<in> {0, 1, 2, 3}"

definition mouse_ok :: "PS2MouseState \<Rightarrow> bool" where
  "mouse_ok s \<longleftrightarrow> queue_wf (queue s) \<and> write_cmd s \<in> {-1, 0, AUX_SET_RES, AUX_SET_SAMPLE} \<and>
     mouse_type s \<in> {0, 3, 4} \<and> mouse_detect_state s \<in> {0, 1, 2, 3} \<and> mouse_wrap s \<in> {0, 1} \<and>
     mouse_status s AND NOT 0x70 = 0"

datatype ps2_op =
  KeyEvent int | KbdWrite byte | KbdRead | KbdTranslate bool | KbdReset
| MouseEvent int int int int | MouseFake | MouseWrite byte | MouseRead | MouseReset

fun ps2_exec :: "PS2KbdState \<times> PS2MouseState \<Rightarrow> ps2_op \<Rightarrow> PS2KbdState \<times> PS2MouseState" where
  "ps2_exec (k, m) (KeyEvent c) = (ps2_put_keycode k c, m)"
| "ps2_exec (k, m) (KbdWrite b) = (ps2_write_keyboard k (uint b), m)"
| "ps2_exec (k, m) KbdRead = (snd (ps2_read_data k), m)"
| "ps2_exec (k, m) (KbdTranslate t) = (ps2_keyboard_set_translation k (of_bool t), m)"
| "ps2_exec (k, m) KbdReset = (ps2_kbd_reset k, m)"
| "ps2_exec (k, m) (MouseEvent dx dy dz bs) = (k, ps2_mouse_event m dx dy dz bs)"
| "ps2_exec (k, m) MouseFake = (k, ps2_mouse_fake_event m)"
| "ps2_exec (k, m) (MouseWrite b) = (k, ps2_write_mouse m (uint b))"
| "ps2_exec (k, m) MouseRead = (k, snd (ps2_read_data m))"
| "ps2_exec (k, m) MouseReset = (k, ps2_mouse_reset m)"

lemma queue_keeps [simp]:
  "write_cmd (ps2_queue c b) = write_cmd c"
  "scan_enabled (ps2_queue k b) = scan_enabled k" "translate (ps2_queue k b) = translate k" "scancode_set (ps2_queue k b) = scancode_set k"
  "mouse_detect_state (ps2_queue m b) = mouse_detect_state m" "mouse_wrap (ps2_queue m b) = mouse_wrap m"
  by (simp_all add: ps2_queue_def update_irq_def Let_def)

lemma read_keeps [simp]:
  "write_cmd (snd (ps2_read_data c)) = write_cmd c"
  "scan_enabled (snd (ps2_read_data k)) = scan_enabled k" "translate (snd (ps2_read_data k)) = translate k"
  "scancode_set (snd (ps2_read_data k)) = scancode_set k"
  "mouse_detect_state (snd (ps2_read_data m)) = mouse_detect_state m" "mouse_wrap (snd (ps2_read_data m)) = mouse_wrap m"
  "mouse_type (snd (ps2_read_data m)) = mouse_type m" "mouse_status (snd (ps2_read_data m)) = mouse_status m"
  by (simp_all add: ps2_read_data_def update_irq_def Let_def)

lemma kbd_ok_queue: "kbd_ok s \<Longrightarrow> kbd_ok (ps2_queue s b)"
  by (simp add: kbd_ok_def queue_contents)

lemma kbd_ok_keycode: "kbd_ok s \<Longrightarrow> kbd_ok (ps2_put_keycode s c)"
  by (simp add: ps2_put_keycode_def kbd_ok_queue)

lemma if_cases: "(c \<Longrightarrow> P a) \<Longrightarrow> (\<not> c \<Longrightarrow> P b) \<Longrightarrow> P (if c then a else b)"
  by simp

lemma kbd_ok_set:
  "kbd_ok s \<Longrightarrow> kbd_ok (s\<lparr>scan_enabled := 0\<rparr>)" "kbd_ok s \<Longrightarrow> kbd_ok (s\<lparr>scan_enabled := 1\<rparr>)"
  "kbd_ok s \<Longrightarrow> kbd_ok (ps2_reset_keyboard s)"
  "kbd_ok s \<Longrightarrow> c = KBD_CMD_SCANCODE \<or> c = KBD_CMD_SET_LEDS \<or> c = KBD_CMD_SET_RATE \<Longrightarrow> kbd_ok (s\<lparr>write_cmd := c\<rparr>)"
  by (auto simp add: kbd_ok_def ps2_reset_keyboard_def)

lemma kbd_ok_command: "kbd_ok s \<Longrightarrow> kbd_ok (keyboard_command s val)"
  unfolding keyboard_command_def by (intro if_cases [where P = kbd_ok] kbd_ok_queue kbd_ok_set)

lemma kbd_ok_idle: "kbd_ok s \<Longrightarrow> kbd_ok (s\<lparr>write_cmd := - 1\<rparr>)"
  by (simp add: kbd_ok_def)

lemma kbd_ok_write: "kbd_ok s \<Longrightarrow> kbd_ok (ps2_write_keyboard s val)"
  unfolding ps2_write_keyboard_def
  by (auto intro!: kbd_ok_idle kbd_ok_queue kbd_ok_keycode kbd_ok_command) (auto simp: kbd_ok_def)

lemma mouse_ok_queue: "mouse_ok s \<Longrightarrow> mouse_ok (ps2_queue s b)"
  by (simp add: mouse_ok_def queue_contents)

lemma mouse_ok_deltas: "mouse_ok s \<Longrightarrow> mouse_ok (s\<lparr>mouse_dx := x, mouse_dy := y, mouse_dz := z\<rparr>)"
  by (simp add: mouse_ok_def)

lemma mouse_ok_packet: "mouse_ok s \<Longrightarrow> mouse_ok (ps2_mouse_send_packet s)"
  unfolding ps2_mouse_send_packet_def Let_def by (auto intro!: mouse_ok_deltas mouse_ok_queue split: prod.split if_splits)

lemma mouse_ok_loop: "mouse_ok s \<Longrightarrow> mouse_ok (ps2_mouse_loop s)"
proof (induction s rule: ps2_mouse_loop.induct)
  case (1 s)
  then show ?case using mouse_ok_packet [of s] by (subst ps2_mouse_loop.simps) (simp add: Let_def)
qed

lemma mouse_ok_event: "mouse_ok s \<Longrightarrow> mouse_ok (ps2_mouse_event s dx dy dz b)"
  unfolding ps2_mouse_event_def Let_def by (auto intro!: mouse_ok_loop) (simp_all add: mouse_ok_def)

lemma status_bits:
  assumes "st AND NOT 0x70 = (0 :: byte)"
  shows "(st AND m) AND NOT 0x70 = 0" "(st OR 0x10) AND NOT 0x70 = 0" "(st OR 0x20) AND NOT 0x70 = 0" "(st OR 0x40) AND NOT 0x70 = 0"
proof -
  show "(st AND m) AND NOT 0x70 = 0" by (metis assms and.assoc and.commute and_zero_eq)
qed (use assms in \<open>simp_all add: bit.conj_disj_distrib2\<close>)

lemma mouse_ok_set:
  "mouse_ok s \<Longrightarrow> st AND NOT 0x70 = 0 \<Longrightarrow> mouse_ok (s\<lparr>mouse_status := st\<rparr>)"
  "mouse_ok s \<Longrightarrow> mouse_ok (s\<lparr>mouse_resolution := r\<rparr>)" "mouse_ok s \<Longrightarrow> mouse_ok (s\<lparr>mouse_sample_rate := r\<rparr>)"
  "mouse_ok s \<Longrightarrow> mouse_ok (s\<lparr>mouse_type := 0\<rparr>)" "mouse_ok s \<Longrightarrow> mouse_ok (s\<lparr>mouse_wrap := 1\<rparr>)"
  "mouse_ok s \<Longrightarrow> mouse_ok (s\<lparr>mouse_wrap := 0\<rparr>)"
  "mouse_ok s \<Longrightarrow> c = AUX_SET_RES \<or> c = AUX_SET_SAMPLE \<Longrightarrow> mouse_ok (s\<lparr>write_cmd := c\<rparr>)"
  by (auto simp: mouse_ok_def)

lemma mouse_ok_command: "mouse_ok s \<Longrightarrow> mouse_ok (mouse_command s val)"
proof -
  assume ok: "mouse_ok s"
  then have "mouse_status s AND NOT 0x70 = 0" by (simp add: mouse_ok_def)
  note st = status_bits [OF this]
  show ?thesis unfolding mouse_command_def MOUSE_STATUS_SCALE21_def MOUSE_STATUS_REMOTE_def MOUSE_STATUS_ENABLED_def
    using ok st by (intro if_cases [where P = mouse_ok] mouse_ok_queue mouse_ok_packet mouse_ok_set) simp_all
qed

lemma mouse_ok_write: "mouse_ok s \<Longrightarrow> mouse_ok (ps2_write_mouse s val)"
proof -
  assume ok: "mouse_ok s"
  have idle: "mouse_ok s' \<Longrightarrow> mouse_ok (s'\<lparr>write_cmd := - 1\<rparr>)" for s' by (simp add: mouse_ok_def)
  have "mouse_ok (mouse_set_sample s val)" using ok by (auto simp: mouse_set_sample_def mouse_ok_def Let_def)
  then show ?thesis unfolding ps2_write_mouse_def using ok
    by (auto intro!: idle mouse_ok_queue mouse_ok_command) (simp_all add: mouse_ok_def)
qed

lemma queue_wf_reset: "queue_wf (queue s) \<Longrightarrow> queue_wf ((queue s)\<lparr>rptr := 0, wptr := 0, q_count := 0\<rparr>)"
  by (simp add: queue_wf_def)

lemma ps2_exec_ok: "kbd_ok k \<Longrightarrow> mouse_ok m \<Longrightarrow> kbd_ok (fst (ps2_exec (k, m) op)) \<and> mouse_ok (snd (ps2_exec (k, m) op))"
proof (induction op)
  case KbdReset
  then show ?case by (simp add: ps2_kbd_reset_def ps2_common_reset_def kbd_ok_def queue_wf_reset update_irq_def)
next
  case MouseReset
  then show ?case by (simp add: ps2_mouse_reset_def ps2_common_reset_def mouse_ok_def queue_wf_reset update_irq_def)
next
  case (KbdTranslate t)
  then show ?case by (simp add: ps2_keyboard_set_translation_def kbd_ok_def)
next
  case KbdRead
  then show ?case by (simp add: kbd_ok_def read_contents)
next
  case MouseRead
  then show ?case by (simp add: mouse_ok_def read_contents)
qed (simp_all add: kbd_ok_keycode kbd_ok_write mouse_ok_event ps2_mouse_fake_event_def mouse_ok_write)

text \<open>
  The registers of the keyboard and of the mouse keep to their types: starting from the devices as they
  are created, after any sequence of key and mouse events, of bytes written and read by the guest, of
  translation changes and resets, the positions of both rings are inside their arrays, a pending
  command is one that takes a parameter, the scancode set is 1, 2, 3 or the 0 that a reset leaves,
  the mouse protocol is one of the three supported ones, and only the defined status bits are set.
\<close>

theorem ps2_types:
  assumes "(k, m) = fold (\<lambda>op d. ps2_exec d op) ops (ps2_kbd_init, ps2_mouse_init)"
  shows "kbd_ok k \<and> mouse_ok m"
proof -
  have "kbd_ok ps2_kbd_init \<and> mouse_ok ps2_mouse_init"
    by (simp add: kbd_ok_def mouse_ok_def ps2_kbd_init_def ps2_mouse_init_def queue_wf_def)
  moreover have "kbd_ok (fst d) \<and> mouse_ok (snd d) \<Longrightarrow>
      kbd_ok (fst (fold (\<lambda>op d. ps2_exec d op) ops d)) \<and> mouse_ok (snd (fold (\<lambda>op d. ps2_exec d op) ops d))" for d
    using ps2_exec_ok by (induction ops arbitrary: d) (auto, (metis prod.collapse)+)
  ultimately show ?thesis using assms by (metis fst_conv snd_conv)
qed

theorem ps2_types_witness:
  "kbd_ok (ps2_write_keyboard ps2_kbd_init 0xf0) \<and> mouse_ok (ps2_write_mouse ps2_mouse_init 0xf3)"
  using ps2_types [of "ps2_write_keyboard ps2_kbd_init 0xf0" "ps2_write_mouse ps2_mouse_init 0xf3" "[KbdWrite 0xf0, MouseWrite 0xf3]"]
  by simp

section \<open>Saving and loading\<close>

lemma sint_int32: "- (2 ^ 31) \<le> v \<Longrightarrow> v < 2 ^ 31 \<Longrightarrow> sint (word_of_int v :: u32) = v"
  by (simp add: signed_of_int signed_take_bit_int_eq_self)

lemma sint_of_nat32: "n < 2 ^ 31 \<Longrightarrow> nat (sint (of_nat n :: u32)) = n"
  using sint_int32 [of "int n"] by simp

definition common_codecs :: "PS2State codec list" where
  "common_codecs =
     [cp_field be32_bytes (\<lambda>s. word_of_int (write_cmd s)) (\<lambda>v s. s\<lparr>write_cmd := sint v\<rparr>),
      cp_field be32_bytes (\<lambda>s. of_nat (rptr (queue s))) (\<lambda>v s. s\<lparr>queue := (queue s)\<lparr>rptr := nat (sint v)\<rparr>\<rparr>),
      cp_field be32_bytes (\<lambda>s. of_nat (wptr (queue s))) (\<lambda>v s. s\<lparr>queue := (queue s)\<lparr>wptr := nat (sint v)\<rparr>\<rparr>),
      cp_field be32_bytes (\<lambda>s. of_nat (q_count (queue s))) (\<lambda>v s. s\<lparr>queue := (queue s)\<lparr>q_count := nat (sint v)\<rparr>\<rparr>),
      cp_field (\<lambda>v. v) (\<lambda>s. q_data (queue s)) (\<lambda>v s. s\<lparr>queue := (queue s)\<lparr>q_data := v\<rparr>\<rparr>)]"

definition ring_sizes :: "'a PS2State_scheme \<Rightarrow> 'b PS2State_scheme \<Rightarrow> bool" where
  "ring_sizes s t \<longleftrightarrow> length (q_data (queue s)) = 256 \<and> length (q_data (queue t)) = 256"

lemma common_fields: "fields_codec ring_sizes 3 (vmsd_fields vmstate_ps2_common) common_codecs"
  unfolding vmstate_ps2_common_def common_codecs_def cp_field_def VMStateDescription.simps fields_codec_simps
  by (intro conjI vm_codecs TrueI) (simp_all add: ring_sizes_def)

lemma common_codec:
  "value_codec (struct_get vmstate_ps2_common) (struct_put vmstate_ps2_common) (enc_all common_codecs) (cp_all common_codecs) ring_sizes"
proof (rule struct_codec)
  show "fields_codec ring_sizes (vmsd_version vmstate_ps2_common) (vmsd_fields vmstate_ps2_common) common_codecs"
    using common_fields by (simp add: vmstate_ps2_common_def)
qed (simp add: plain_vmsd_def vmstate_ps2_common_def)

lemma common_copy:
  assumes "queue_wf (queue s)" "- (2 ^ 31) \<le> write_cmd s" "write_cmd s < 2 ^ 31"
  shows "cp_all common_codecs s t = s\<lparr>irq_calls := irq_calls t\<rparr>"
proof -
  have "nat (sint (of_nat (rptr (queue s)) :: u32)) = rptr (queue s)" "nat (sint (of_nat (wptr (queue s)) :: u32)) = wptr (queue s)"
    "nat (sint (of_nat (q_count (queue s)) :: u32)) = q_count (queue s)" "sint (word_of_int (write_cmd s) :: u32) = write_cmd s"
    using assms sint_int32 [of "write_cmd s"] by (auto intro!: sint_of_nat32 simp: queue_wf_def)
  then show ?thesis unfolding cp_all_def common_codecs_def
    by (cases s, cases t, cases "queue s", cases "queue t") simp
qed

definition cp_common :: "'a PS2State_scheme codec" where
  "cp_common = (\<lambda>s. enc_all common_codecs (common s), \<lambda>s t. set_common (cp_all common_codecs (common s) (common t)) t)"

lemma set_common_simps [simp]:
  "queue (set_common c s) = queue c" "write_cmd (set_common c s) = write_cmd c" "irq_calls (set_common c s) = irq_calls c"
  "queue (common s) = queue s" "write_cmd (common s) = write_cmd s" "irq_calls (common s) = irq_calls s"
  by (simp_all add: set_common_def common_def)

lemma cp_all_sizes: "ring_sizes s t \<Longrightarrow> ring_sizes s (cp_all common_codecs s t)"
  by (simp add: cp_all_def common_codecs_def ring_sizes_def)

lemma common_field:
  "field_codec ring_sizes (VMSTATE_STRUCT nm 0 vmstate_ps2_common common set_common) (fst cp_common) (snd cp_common)"
proof -
  have "ring_sizes (common s) (common t)" if "ring_sizes s t" for s t :: "'a PS2State_scheme" using that by (simp add: ring_sizes_def)
  moreover from this have "ring_sizes s (set_common (cp_all common_codecs (common s) (common t)) t)" if "ring_sizes s t" for s t :: "'a PS2State_scheme"
    using cp_all_sizes [of "common s" "common t"] that by (simp add: ring_sizes_def)
  ultimately show ?thesis unfolding cp_common_def VMSTATE_STRUCT_def fst_conv snd_conv
    by (intro value_codec.single_codec [OF common_codec]) auto
qed

definition kbd_codecs :: "PS2KbdState codec list" where
  "kbd_codecs =
     [cp_common,
      cp_field be32_bytes (\<lambda>s. word_of_int (scan_enabled s)) (\<lambda>v s. s\<lparr>scan_enabled := sint v\<rparr>),
      cp_field be32_bytes (\<lambda>s. word_of_int (translate s)) (\<lambda>v s. s\<lparr>translate := sint v\<rparr>),
      cp_field be32_bytes (\<lambda>s. word_of_int (scancode_set s)) (\<lambda>v s. s\<lparr>scancode_set := sint v\<rparr>)]"

lemma kbd_fields: "fields_codec ring_sizes 3 (vmsd_fields vmstate_ps2_keyboard) kbd_codecs"
  unfolding vmstate_ps2_keyboard_def kbd_codecs_def fields_codec_def
  by (simp add: common_field) (intro conjI field_codecs; simp add: ring_sizes_def)

definition mouse_codecs :: "PS2MouseState codec list" where
  "mouse_codecs =
     [cp_common,
      cp_field (\<lambda>v. [v]) mouse_status (\<lambda>v s. s\<lparr>mouse_status := v\<rparr>),
      cp_field (\<lambda>v. [v]) mouse_resolution (\<lambda>v s. s\<lparr>mouse_resolution := v\<rparr>),
      cp_field (\<lambda>v. [v]) mouse_sample_rate (\<lambda>v s. s\<lparr>mouse_sample_rate := v\<rparr>),
      cp_field (\<lambda>v. [v]) mouse_wrap (\<lambda>v s. s\<lparr>mouse_wrap := v\<rparr>),
      cp_field (\<lambda>v. [v]) mouse_type (\<lambda>v s. s\<lparr>mouse_type := v\<rparr>),
      cp_field (\<lambda>v. [v]) mouse_detect_state (\<lambda>v s. s\<lparr>mouse_detect_state := v\<rparr>),
      cp_field be32_bytes (\<lambda>s. word_of_int (mouse_dx s)) (\<lambda>v s. s\<lparr>mouse_dx := sint v\<rparr>),
      cp_field be32_bytes (\<lambda>s. word_of_int (mouse_dy s)) (\<lambda>v s. s\<lparr>mouse_dy := sint v\<rparr>),
      cp_field be32_bytes (\<lambda>s. word_of_int (mouse_dz s)) (\<lambda>v s. s\<lparr>mouse_dz := sint v\<rparr>),
      cp_field (\<lambda>v. [v]) mouse_buttons (\<lambda>v s. s\<lparr>mouse_buttons := v\<rparr>)]"

lemma mouse_fields: "fields_codec ring_sizes 2 (vmsd_fields vmstate_ps2_mouse) mouse_codecs"
  unfolding vmstate_ps2_mouse_def mouse_codecs_def fields_codec_def
  by (simp add: common_field) (intro conjI field_codecs; simp add: ring_sizes_def)

text \<open>Loading restores all registers; the record of interrupt calls, which is not part of the device, stays.\<close>

lemma kbd_copy:
  assumes "kbd_ok s"
  shows "cp_all kbd_codecs s t = s\<lparr>irq_calls := irq_calls t\<rparr>"
proof -
  have "sint (word_of_int (scan_enabled s) :: u32) = scan_enabled s" "sint (word_of_int (translate s) :: u32) = translate s"
    "sint (word_of_int (scancode_set s) :: u32) = scancode_set s"
    using assms by (auto intro!: sint_int32 simp: kbd_ok_def)
  moreover have "cp_all common_codecs (common s) (common t) = (common s)\<lparr>irq_calls := irq_calls t\<rparr>"
    using assms by (subst common_copy) (auto simp: kbd_ok_def)
  ultimately show ?thesis unfolding cp_all_def kbd_codecs_def cp_common_def
    by (cases s, cases t) (simp add: cp_all_def [symmetric] set_common_def common_def)
qed

definition deltas_fit :: "PS2MouseState \<Rightarrow> bool" where
  "deltas_fit s \<longleftrightarrow> (\<forall>d \<in> {mouse_dx s, mouse_dy s, mouse_dz s}. - (2 ^ 31) \<le> d \<and> d < 2 ^ 31)"

lemma mouse_copy:
  assumes "mouse_ok s" "deltas_fit s"
  shows "cp_all mouse_codecs s t = s\<lparr>irq_calls := irq_calls t\<rparr>"
proof -
  have "sint (word_of_int (mouse_dx s) :: u32) = mouse_dx s" "sint (word_of_int (mouse_dy s) :: u32) = mouse_dy s"
    "sint (word_of_int (mouse_dz s) :: u32) = mouse_dz s"
    using assms(2) by (auto intro!: sint_int32 simp: deltas_fit_def)
  moreover have "cp_all common_codecs (common s) (common t) = (common s)\<lparr>irq_calls := irq_calls t\<rparr>"
    using assms(1) by (subst common_copy) (auto simp: mouse_ok_def)
  ultimately show ?thesis unfolding cp_all_def mouse_codecs_def cp_common_def
    by (cases s, cases t) (simp add: cp_all_def [symmetric] set_common_def common_def)
qed

end
