(* ===== verification/Pckbd.thy ===== *)
theory Pckbd
  imports PS2
begin

text \<open>
  The keyboard controller of the PC, \<^verbatim>\<open>hw/pckbd.c\<close>, with the keyboard and the mouse of \<open>PS2\<close> behind it.
  Its two interrupt lines are the lists of the levels set on them; the A20 gate and the requests for a system reset
  belong to the machine. The devices call the controller's interrupt handlers while they run; since
  these touch nothing the devices read, the calls are made in order when the device has returned.
\<close>

unbundle bit_operations_syntax

section \<open>Commands and bits\<close>

text \<open>The codes of the commands are abbreviations of their numbers, as the macros of the source are.\<close>

abbreviation KBD_CCMD_READ_MODE :: u32 where "KBD_CCMD_READ_MODE \<equiv> 0x20"
abbreviation KBD_CCMD_WRITE_MODE :: u32 where "KBD_CCMD_WRITE_MODE \<equiv> 0x60"
abbreviation KBD_CCMD_MOUSE_DISABLE :: u32 where "KBD_CCMD_MOUSE_DISABLE \<equiv> 0xA7"
abbreviation KBD_CCMD_MOUSE_ENABLE :: u32 where "KBD_CCMD_MOUSE_ENABLE \<equiv> 0xA8"
abbreviation KBD_CCMD_TEST_MOUSE :: u32 where "KBD_CCMD_TEST_MOUSE \<equiv> 0xA9"
abbreviation KBD_CCMD_SELF_TEST :: u32 where "KBD_CCMD_SELF_TEST \<equiv> 0xAA"
abbreviation KBD_CCMD_KBD_TEST :: u32 where "KBD_CCMD_KBD_TEST \<equiv> 0xAB"
abbreviation KBD_CCMD_KBD_DISABLE :: u32 where "KBD_CCMD_KBD_DISABLE \<equiv> 0xAD"
abbreviation KBD_CCMD_KBD_ENABLE :: u32 where "KBD_CCMD_KBD_ENABLE \<equiv> 0xAE"
abbreviation KBD_CCMD_READ_INPORT :: u32 where "KBD_CCMD_READ_INPORT \<equiv> 0xC0"
abbreviation KBD_CCMD_READ_OUTPORT :: u32 where "KBD_CCMD_READ_OUTPORT \<equiv> 0xD0"
abbreviation KBD_CCMD_WRITE_OUTPORT :: u32 where "KBD_CCMD_WRITE_OUTPORT \<equiv> 0xD1"
abbreviation KBD_CCMD_WRITE_OBUF :: u32 where "KBD_CCMD_WRITE_OBUF \<equiv> 0xD2"
abbreviation KBD_CCMD_WRITE_AUX_OBUF :: u32 where "KBD_CCMD_WRITE_AUX_OBUF \<equiv> 0xD3"
abbreviation KBD_CCMD_WRITE_MOUSE :: u32 where "KBD_CCMD_WRITE_MOUSE \<equiv> 0xD4"
abbreviation KBD_CCMD_DISABLE_A20 :: u32 where "KBD_CCMD_DISABLE_A20 \<equiv> 0xDD"
abbreviation KBD_CCMD_ENABLE_A20 :: u32 where "KBD_CCMD_ENABLE_A20 \<equiv> 0xDF"
abbreviation KBD_CCMD_RESET :: u32 where "KBD_CCMD_RESET \<equiv> 0xFE"
definition KBD_STAT_OBF :: byte where "KBD_STAT_OBF = 0x1"
definition KBD_STAT_SELFTEST :: byte where "KBD_STAT_SELFTEST = 0x4"
definition KBD_STAT_CMD :: byte where "KBD_STAT_CMD = 0x8"
definition KBD_STAT_UNLOCKED :: byte where "KBD_STAT_UNLOCKED = 0x10"
definition KBD_STAT_MOUSE_OBF :: byte where "KBD_STAT_MOUSE_OBF = 0x20"
definition KBD_MODE_KBD_INT :: byte where "KBD_MODE_KBD_INT = 0x1"
definition KBD_MODE_MOUSE_INT :: byte where "KBD_MODE_MOUSE_INT = 0x2"
definition KBD_MODE_DISABLE_KBD :: byte where "KBD_MODE_DISABLE_KBD = 0x10"
definition KBD_MODE_DISABLE_MOUSE :: byte where "KBD_MODE_DISABLE_MOUSE = 0x20"
definition KBD_MODE_KCC :: byte where "KBD_MODE_KCC = 0x40"
definition KBD_PENDING_KBD :: byte where "KBD_PENDING_KBD = 0x1"
definition KBD_PENDING_AUX :: byte where "KBD_PENDING_AUX = 0x2"

lemmas kbd_bits = KBD_STAT_OBF_def KBD_STAT_SELFTEST_def KBD_STAT_CMD_def KBD_STAT_UNLOCKED_def KBD_STAT_MOUSE_OBF_def KBD_MODE_KBD_INT_def KBD_MODE_MOUSE_INT_def KBD_MODE_DISABLE_KBD_def KBD_MODE_DISABLE_MOUSE_def KBD_MODE_KCC_def KBD_PENDING_KBD_def KBD_PENDING_AUX_def

section \<open>State\<close>

record KBDState =
  kb_write_cmd :: byte
  kb_status :: byte
  kb_mode :: byte
  kb_pending :: byte
  kbd :: PS2KbdState
  mouse :: PS2MouseState
  irq_kbd :: "int list"
  irq_mouse :: "int list"
  mm_mask :: u64
  a20 :: bool
  reset_requests :: nat

section \<open>Interrupts\<close>

definition kbd_update_irq :: "KBDState \<Rightarrow> KBDState" where
  "kbd_update_irq s =
     (let st = kb_status s AND NOT (KBD_STAT_OBF OR KBD_STAT_MOUSE_OBF);
          aux = kb_pending s = KBD_PENDING_AUX;
          st = (if kb_pending s \<noteq> 0 then (if aux then st OR KBD_STAT_OBF OR KBD_STAT_MOUSE_OBF else st OR KBD_STAT_OBF) else st);
          irq_kbd_level = of_bool (kb_pending s \<noteq> 0 \<and> \<not> aux \<and> kb_mode s AND KBD_MODE_KBD_INT \<noteq> 0 \<and>
                                   kb_mode s AND KBD_MODE_DISABLE_KBD = 0);
          irq_mouse_level = of_bool (kb_pending s \<noteq> 0 \<and> aux \<and> kb_mode s AND KBD_MODE_MOUSE_INT \<noteq> 0)
      in s\<lparr>kb_status := st, irq_kbd := irq_kbd s @ [irq_kbd_level], irq_mouse := irq_mouse s @ [irq_mouse_level]\<rparr>)"

definition kbd_update_kbd_irq :: "KBDState \<Rightarrow> int \<Rightarrow> KBDState" where
  "kbd_update_kbd_irq s level =
     kbd_update_irq (s\<lparr>kb_pending := (if level \<noteq> 0 then kb_pending s OR KBD_PENDING_KBD else kb_pending s AND NOT KBD_PENDING_KBD)\<rparr>)"

definition kbd_update_aux_irq :: "KBDState \<Rightarrow> int \<Rightarrow> KBDState" where
  "kbd_update_aux_irq s level =
     kbd_update_irq (s\<lparr>kb_pending := (if level \<noteq> 0 then kb_pending s OR KBD_PENDING_AUX else kb_pending s AND NOT KBD_PENDING_AUX)\<rparr>)"

text \<open>A device after an operation: the recorded calls reach the handler they were made to.\<close>

definition put_kbd :: "KBDState \<Rightarrow> PS2KbdState \<Rightarrow> KBDState" where
  "put_kbd s k = fold (\<lambda>l s. kbd_update_kbd_irq s l) (irq_calls k) (s\<lparr>kbd := k\<lparr>irq_calls := []\<rparr>\<rparr>)"

definition put_mouse :: "KBDState \<Rightarrow> PS2MouseState \<Rightarrow> KBDState" where
  "put_mouse s m = fold (\<lambda>l s. kbd_update_aux_irq s l) (irq_calls m) (s\<lparr>mouse := m\<lparr>irq_calls := []\<rparr>\<rparr>)"

section \<open>Ports\<close>

definition kbd_read_status :: "KBDState \<Rightarrow> u32" where
  "kbd_read_status s = ucast (kb_status s)"

definition kbd_queue :: "KBDState \<Rightarrow> int \<Rightarrow> bool \<Rightarrow> KBDState" where
  "kbd_queue s b aux = (if aux then put_mouse s (ps2_queue (mouse s) b) else put_kbd s (ps2_queue (kbd s) b))"

definition read_outport :: "KBDState \<Rightarrow> u32" where
  "read_outport s =
     (let val = 0x01 OR push_bit 1 (of_bool (a20 s));
          val = (if kb_status s AND KBD_STAT_OBF \<noteq> 0 then val OR 0x10 else val)
      in if kb_status s AND KBD_STAT_MOUSE_OBF \<noteq> 0 then val OR 0x20 else val)"

definition kbd_write_command :: "KBDState \<Rightarrow> u32 \<Rightarrow> KBDState" where
  "kbd_write_command s val =
     (if val = KBD_CCMD_READ_MODE then kbd_queue s (uint (kb_mode s)) False
      else if val = KBD_CCMD_WRITE_MODE \<or> val = KBD_CCMD_WRITE_OBUF \<or> val = KBD_CCMD_WRITE_AUX_OBUF \<or>
              val = KBD_CCMD_WRITE_MOUSE \<or> val = KBD_CCMD_WRITE_OUTPORT
      then s\<lparr>kb_write_cmd := ucast val\<rparr>
      else if val = KBD_CCMD_MOUSE_DISABLE then s\<lparr>kb_mode := kb_mode s OR KBD_MODE_DISABLE_MOUSE\<rparr>
      else if val = KBD_CCMD_MOUSE_ENABLE then s\<lparr>kb_mode := kb_mode s AND NOT KBD_MODE_DISABLE_MOUSE\<rparr>
      else if val = KBD_CCMD_TEST_MOUSE then kbd_queue s 0 False
      else if val = KBD_CCMD_SELF_TEST then kbd_queue (s\<lparr>kb_status := kb_status s OR KBD_STAT_SELFTEST\<rparr>) 0x55 False
      else if val = KBD_CCMD_KBD_TEST then kbd_queue s 0 False
      else if val = KBD_CCMD_KBD_DISABLE then kbd_update_irq (s\<lparr>kb_mode := kb_mode s OR KBD_MODE_DISABLE_KBD\<rparr>)
      else if val = KBD_CCMD_KBD_ENABLE then kbd_update_irq (s\<lparr>kb_mode := kb_mode s AND NOT KBD_MODE_DISABLE_KBD\<rparr>)
      else if val = KBD_CCMD_READ_INPORT then kbd_queue s 0 False
      else if val = KBD_CCMD_READ_OUTPORT then kbd_queue s (uint (read_outport s)) False
      else if val = KBD_CCMD_ENABLE_A20 then s\<lparr>a20 := True\<rparr>
      else if val = KBD_CCMD_DISABLE_A20 then s\<lparr>a20 := False\<rparr>
      else if val = KBD_CCMD_RESET then s\<lparr>reset_requests := reset_requests s + 1\<rparr>
      else s)"

definition kbd_read_data :: "KBDState \<Rightarrow> u32 \<times> KBDState" where
  "kbd_read_data s =
     (if kb_pending s = KBD_PENDING_AUX
      then let (val, m) = ps2_read_data (mouse s) in (val, put_mouse s m)
      else let (val, k) = ps2_read_data (kbd s) in (val, put_kbd s k))"

definition kbd_write_data :: "KBDState \<Rightarrow> u32 \<Rightarrow> KBDState" where
  "kbd_write_data s val =
     (let cmd = ucast (kb_write_cmd s);
          s = (if cmd = 0 then put_kbd s (ps2_write_keyboard (kbd s) (sint val))
               else if cmd = KBD_CCMD_WRITE_MODE
               then let s = s\<lparr>kb_mode := ucast val\<rparr>
                    in kbd_update_irq (s\<lparr>kbd := ps2_keyboard_set_translation (kbd s) (of_bool (kb_mode s AND KBD_MODE_KCC \<noteq> 0))\<rparr>)
               else if cmd = KBD_CCMD_WRITE_OBUF then kbd_queue s (sint val) False
               else if cmd = KBD_CCMD_WRITE_AUX_OBUF then kbd_queue s (sint val) True
               else if cmd = KBD_CCMD_WRITE_OUTPORT
               then let s = s\<lparr>a20 := (drop_bit 1 val AND 1 \<noteq> 0)\<rparr>
                    in if val AND 1 = 0 then s\<lparr>reset_requests := reset_requests s + 1\<rparr> else s
               else if cmd = KBD_CCMD_WRITE_MOUSE then put_mouse s (ps2_write_mouse (mouse s) (sint val))
               else s)
      in s\<lparr>kb_write_cmd := 0\<rparr>)"

definition kbd_reset :: "KBDState \<Rightarrow> KBDState" where
  "kbd_reset s = s\<lparr>kb_mode := KBD_MODE_KBD_INT OR KBD_MODE_MOUSE_INT, kb_status := KBD_STAT_CMD OR KBD_STAT_UNLOCKED\<rparr>"

text \<open>The memory mapped interface.\<close>

definition kbd_mm_readb :: "KBDState \<Rightarrow> u64 \<Rightarrow> u32 \<times> KBDState" where
  "kbd_mm_readb s addr =
     (if addr AND mm_mask s \<noteq> 0 then (kbd_read_status s AND 0xff, s)
      else let (val, s) = kbd_read_data s in (val AND 0xff, s))"

definition kbd_mm_writeb :: "KBDState \<Rightarrow> u64 \<Rightarrow> u32 \<Rightarrow> KBDState" where
  "kbd_mm_writeb s addr val =
     (if addr AND mm_mask s \<noteq> 0 then kbd_write_command s (val AND 0xff) else kbd_write_data s (val AND 0xff))"

section \<open>Events, creation, saved state\<close>

definition kbd_event :: "KBDState \<Rightarrow> int \<Rightarrow> KBDState" where
  "kbd_event s keycode = put_kbd s (ps2_put_keycode (kbd s) keycode)"

definition mouse_event :: "KBDState \<Rightarrow> int \<Rightarrow> int \<Rightarrow> int \<Rightarrow> int \<Rightarrow> KBDState" where
  "mouse_event s dx dy dz buttons = put_mouse s (ps2_mouse_event (mouse s) dx dy dz buttons)"

text \<open>The three reset handlers, in the order of their registration.\<close>

definition i8042_reset :: "KBDState \<Rightarrow> KBDState" where
  "i8042_reset s = (let s = put_kbd s (ps2_kbd_reset (kbd s)); s = put_mouse s (ps2_mouse_reset (mouse s)) in kbd_reset s)"

definition i8042_initfn :: KBDState where
  "i8042_initfn =
     \<lparr>kb_write_cmd = 0, kb_status = 0, kb_mode = 0, kb_pending = 0, kbd = ps2_kbd_init, mouse = ps2_mouse_init,
      irq_kbd = [], irq_mouse = [], mm_mask = 0, a20 = False, reset_requests = 0\<rparr>"

definition vmstate_kbd :: "(KBDState, 'o) VMStateDescription" where
  "vmstate_kbd = \<lparr>vmsd_name = ''pckbd'', vmsd_version = 3, minimum_version_id = 3, minimum_version_id_old = 3,
     load_state_old = None, pre_load = None, post_load = None, pre_save = None, post_save = None, vmsd_fields =
      [VMSTATE_UINT8 ''write_cmd'' kb_write_cmd (\<lambda>v s. s\<lparr>kb_write_cmd := v\<rparr>),
       VMSTATE_UINT8 ''status'' kb_status (\<lambda>v s. s\<lparr>kb_status := v\<rparr>),
       VMSTATE_UINT8 ''mode'' kb_mode (\<lambda>v s. s\<lparr>kb_mode := v\<rparr>),
       VMSTATE_UINT8 ''pending'' kb_pending (\<lambda>v s. s\<lparr>kb_pending := v\<rparr>)]\<rparr>"

definition vmstate_kbd_isa :: "(KBDState, 'o) VMStateDescription" where
  "vmstate_kbd_isa = \<lparr>vmsd_name = ''pckbd'', vmsd_version = 3, minimum_version_id = 3, minimum_version_id_old = 3,
     load_state_old = None, pre_load = None, post_load = None, pre_save = None, post_save = None, vmsd_fields =
      [VMSTATE_STRUCT ''kbd'' 0 vmstate_kbd (\<lambda>s. s) (\<lambda>v s. v)]\<rparr>"

section \<open>The interrupt calls of the devices\<close>

text \<open>The level after the recorded calls, \<open>b\<close> before them, says whether bytes are waiting.\<close>

definition line_level :: "bool \<Rightarrow> int list \<Rightarrow> bool" where
  "line_level b cs = (if cs = [] then b else last cs \<noteq> 0)"

definition calls_sound :: "bool \<Rightarrow> 'a PS2State_scheme \<Rightarrow> bool" where
  "calls_sound b s \<longleftrightarrow> queue_wf (queue s) \<and> line_level b (irq_calls s) = (q_count (queue s) \<noteq> 0)"

lemma level_simps [simp]: "line_level b [] = b" "line_level b (cs @ [c]) = (c \<noteq> 0)" "line_level b (cs @ [d, c]) = (c \<noteq> 0)"
  by (simp_all add: line_level_def)

lemma ring_Nil_iff: "ring s = [] \<longleftrightarrow> q_count (queue s) = 0"
  by (simp add: ring_def Let_def)

lemma sound_same:
  "calls_sound b s \<Longrightarrow> queue s' = queue s \<Longrightarrow> irq_calls s' = irq_calls s \<Longrightarrow> calls_sound b s'"
  by (simp add: calls_sound_def)

lemma sound_queue: "calls_sound b s \<Longrightarrow> calls_sound b (ps2_queue s v)"
  using queue_contents [of s v] by (auto simp: calls_sound_def ps2_queue_def Let_def)

lemma sound_read: "calls_sound b s \<Longrightarrow> calls_sound b (snd (ps2_read_data s))"
  using read_contents [of s] by (auto simp: calls_sound_def ps2_read_data_def Let_def)

lemma sound_reset: "calls_sound b s \<Longrightarrow> calls_sound b' (ps2_common_reset s)"
  by (simp add: calls_sound_def ps2_common_reset_def queue_wf_def)

lemma sound_kbd_fields:
  "calls_sound b k \<Longrightarrow> calls_sound b (k\<lparr>scan_enabled := x\<rparr>)" "calls_sound b k \<Longrightarrow> calls_sound b (k\<lparr>translate := x\<rparr>)"
  "calls_sound b k \<Longrightarrow> calls_sound b (k\<lparr>scancode_set := x\<rparr>)" "calls_sound b k \<Longrightarrow> calls_sound b (k\<lparr>write_cmd := x\<rparr>)"
  "calls_sound b k \<Longrightarrow> calls_sound b (ps2_reset_keyboard k)"
  by (erule sound_same; simp add: ps2_reset_keyboard_def)+

lemma sound_keycode: "calls_sound b k \<Longrightarrow> calls_sound b (ps2_put_keycode k c)"
  unfolding ps2_put_keycode_def by (intro if_cases [where P = "calls_sound b"] sound_queue)

lemma sound_write_keyboard: "calls_sound b k \<Longrightarrow> calls_sound b (ps2_write_keyboard k v)"
  unfolding ps2_write_keyboard_def keyboard_command_def
  by (intro if_cases [where P = "calls_sound b"] sound_queue sound_kbd_fields sound_keycode)

lemma sound_mouse_fields:
  "calls_sound b m \<Longrightarrow> calls_sound b (m\<lparr>mouse_status := x\<rparr>)" "calls_sound b m \<Longrightarrow> calls_sound b (m\<lparr>mouse_resolution := x\<rparr>)"
  "calls_sound b m \<Longrightarrow> calls_sound b (m\<lparr>mouse_sample_rate := x\<rparr>)" "calls_sound b m \<Longrightarrow> calls_sound b (m\<lparr>mouse_wrap := x\<rparr>)"
  "calls_sound b m \<Longrightarrow> calls_sound b (m\<lparr>mouse_type := x\<rparr>)" "calls_sound b m \<Longrightarrow> calls_sound b (m\<lparr>mouse_detect_state := x\<rparr>)"
  "calls_sound b m \<Longrightarrow> calls_sound b (m\<lparr>mouse_dx := d\<rparr>)" "calls_sound b m \<Longrightarrow> calls_sound b (m\<lparr>mouse_dy := d\<rparr>)"
  "calls_sound b m \<Longrightarrow> calls_sound b (m\<lparr>mouse_dz := d\<rparr>)" "calls_sound b m \<Longrightarrow> calls_sound b (m\<lparr>mouse_buttons := x\<rparr>)"
  "calls_sound b m \<Longrightarrow> calls_sound b (m\<lparr>write_cmd := d\<rparr>)"
  by (erule sound_same; simp)+

lemma sound_packet: "calls_sound b m \<Longrightarrow> calls_sound b (ps2_mouse_send_packet m)"
  unfolding ps2_mouse_send_packet_def Let_def by (auto intro!: sound_mouse_fields sound_queue split: prod.split if_splits)

lemma sound_loop: "calls_sound b m \<Longrightarrow> calls_sound b (ps2_mouse_loop m)"
proof (induction m rule: ps2_mouse_loop.induct)
  case (1 s)
  then show ?case using sound_packet [of b s] by (subst ps2_mouse_loop.simps) (simp add: Let_def)
qed

lemma sound_event: "calls_sound b m \<Longrightarrow> calls_sound b (ps2_mouse_event m dx dy dz bs)"
  unfolding ps2_mouse_event_def Let_def by (intro if_cases [where P = "calls_sound b"] sound_loop sound_mouse_fields)

lemma sound_write_mouse: "calls_sound b m \<Longrightarrow> calls_sound b (ps2_write_mouse m v)"
  unfolding ps2_write_mouse_def mouse_command_def mouse_set_sample_def Let_def
  by (intro if_cases [where P = "calls_sound b"] sound_queue sound_mouse_fields sound_packet)

lemma sound_resets: "calls_sound b k \<Longrightarrow> calls_sound b (ps2_kbd_reset k)" "calls_sound b m \<Longrightarrow> calls_sound b (ps2_mouse_reset m)"
  by (rule sound_same [OF sound_reset]; simp add: ps2_kbd_reset_def ps2_mouse_reset_def)+

section \<open>The status register\<close>

definition pend :: "bool \<Rightarrow> bool \<Rightarrow> byte" where
  "pend a b = (if a then KBD_PENDING_KBD else 0) OR (if b then KBD_PENDING_AUX else 0)"

definition kbd_raised :: "KBDState \<Rightarrow> bool" where
  "kbd_raised s \<longleftrightarrow> kb_pending s \<noteq> 0 \<and> kb_pending s \<noteq> KBD_PENDING_AUX \<and> kb_mode s AND KBD_MODE_KBD_INT \<noteq> 0 \<and>
     kb_mode s AND KBD_MODE_DISABLE_KBD = 0"

definition mouse_raised :: "KBDState \<Rightarrow> bool" where
  "mouse_raised s \<longleftrightarrow> kb_pending s = KBD_PENDING_AUX \<and> kb_mode s AND KBD_MODE_MOUSE_INT \<noteq> 0"

definition outputs_ok :: "KBDState \<Rightarrow> bool" where
  "outputs_ok s \<longleftrightarrow> (kb_status s AND KBD_STAT_OBF \<noteq> 0) = (kb_pending s \<noteq> 0) \<and>
     (kb_status s AND KBD_STAT_MOUSE_OBF \<noteq> 0) = (kb_pending s = KBD_PENDING_AUX) \<and>
     line_level False (irq_kbd s) = kbd_raised s \<and> line_level False (irq_mouse s) = mouse_raised s"

lemmas outputs_defs = outputs_ok_def kbd_raised_def mouse_raised_def

lemma pend_simps [simp]:
  "pend a b = 0 \<longleftrightarrow> \<not> a \<and> \<not> b" "pend a b = KBD_PENDING_AUX \<longleftrightarrow> \<not> a \<and> b"
  "pend a b OR KBD_PENDING_KBD = pend True b" "pend a b AND NOT KBD_PENDING_KBD = pend False b"
  "pend a b OR KBD_PENDING_AUX = pend a True" "pend a b AND NOT KBD_PENDING_AUX = pend a False"
  by (simp_all add: pend_def kbd_bits)

lemma update_irq_keeps [simp]:
  "kb_pending (kbd_update_irq s) = kb_pending s" "kbd (kbd_update_irq s) = kbd s" "mouse (kbd_update_irq s) = mouse s"
  "kb_mode (kbd_update_irq s) = kb_mode s" "kb_write_cmd (kbd_update_irq s) = kb_write_cmd s"
  by (simp_all add: kbd_update_irq_def Let_def)

lemma update_irq_outputs: "outputs_ok (kbd_update_irq s)"
  by (auto simp: outputs_defs kbd_update_irq_def Let_def kbd_bits and.assoc bit.conj_disj_distrib2)


lemma kbd_irq_effect:
  "kb_pending s = pend a b \<Longrightarrow> kb_pending (kbd_update_kbd_irq s l) = pend (l \<noteq> 0) b"
  "kb_pending s = pend a b \<Longrightarrow> kb_pending (kbd_update_aux_irq s l) = pend a (l \<noteq> 0)"
  "outputs_ok (kbd_update_kbd_irq s l)" "outputs_ok (kbd_update_aux_irq s l)"
  "kbd (kbd_update_kbd_irq s l) = kbd s" "mouse (kbd_update_kbd_irq s l) = mouse s"
  "kbd (kbd_update_aux_irq s l) = kbd s" "mouse (kbd_update_aux_irq s l) = mouse s"
  by (simp_all add: kbd_update_kbd_irq_def kbd_update_aux_irq_def update_irq_outputs)

lemma level_Cons: "line_level b (c # cs) = line_level (c \<noteq> 0) cs"
  by (simp add: line_level_def)

lemma calls_devices:
  "kbd (fold (\<lambda>l s. kbd_update_kbd_irq s l) cs s) = kbd s" "mouse (fold (\<lambda>l s. kbd_update_kbd_irq s l) cs s) = mouse s"
  "kbd (fold (\<lambda>l s. kbd_update_aux_irq s l) cs s) = kbd s" "mouse (fold (\<lambda>l s. kbd_update_aux_irq s l) cs s) = mouse s"
  by (induction cs arbitrary: s) (simp_all add: kbd_irq_effect)

lemma put_devices [simp]:
  "kbd (put_kbd s k) = k\<lparr>irq_calls := []\<rparr>" "mouse (put_kbd s k) = mouse s"
  "kbd (put_mouse s m) = kbd s" "mouse (put_mouse s m) = m\<lparr>irq_calls := []\<rparr>"
  by (simp_all add: put_kbd_def put_mouse_def calls_devices)

lemma kbd_calls:
  "kb_pending s = pend a b \<Longrightarrow> outputs_ok s \<Longrightarrow> (let s' = fold (\<lambda>l s. kbd_update_kbd_irq s l) cs s in
     kb_pending s' = pend (line_level a cs) b \<and> outputs_ok s')"
  by (induction cs arbitrary: s a) (simp_all add: Let_def kbd_irq_effect level_Cons)

lemma aux_calls:
  "kb_pending s = pend a b \<Longrightarrow> outputs_ok s \<Longrightarrow> (let s' = fold (\<lambda>l s. kbd_update_aux_irq s l) cs s in
     kb_pending s' = pend a (line_level b cs) \<and> outputs_ok s')"
  by (induction cs arbitrary: s b) (simp_all add: Let_def kbd_irq_effect level_Cons)

section \<open>The invariant of the controller\<close>

text \<open>The pending bits say which device has bytes, the status register what the pending bits say.\<close>

definition i8042_ok :: "KBDState \<Rightarrow> bool" where
  "i8042_ok s \<longleftrightarrow> calls_sound (ring (kbd s) \<noteq> []) (kbd s) \<and> calls_sound (ring (mouse s) \<noteq> []) (mouse s) \<and>
     irq_calls (kbd s) = [] \<and> irq_calls (mouse s) = [] \<and>
     kb_pending s = pend (ring (kbd s) \<noteq> []) (ring (mouse s) \<noteq> []) \<and> outputs_ok s"

lemma put_kbd_ok:
  assumes "i8042_ok s" "calls_sound (ring (kbd s) \<noteq> []) k"
  shows "i8042_ok (put_kbd s k)"
proof -
  let ?s = "s\<lparr>kbd := k\<lparr>irq_calls := []\<rparr>\<rparr>"
  have "kb_pending ?s = pend (ring (kbd s) \<noteq> []) (ring (mouse s) \<noteq> [])" "outputs_ok ?s"
    using assms(1) by (simp_all add: i8042_ok_def outputs_defs)
  from kbd_calls [OF this, of "irq_calls k"] show ?thesis
    using assms by (simp add: i8042_ok_def put_kbd_def Let_def calls_sound_def ring_Nil_iff calls_devices)
qed

lemma put_mouse_ok:
  assumes "i8042_ok s" "calls_sound (ring (mouse s) \<noteq> []) m"
  shows "i8042_ok (put_mouse s m)"
proof -
  let ?s = "s\<lparr>mouse := m\<lparr>irq_calls := []\<rparr>\<rparr>"
  have "kb_pending ?s = pend (ring (kbd s) \<noteq> []) (ring (mouse s) \<noteq> [])" "outputs_ok ?s"
    using assms(1) by (simp_all add: i8042_ok_def outputs_defs)
  from aux_calls [OF this, of "irq_calls m"] show ?thesis
    using assms by (simp add: i8042_ok_def put_mouse_def Let_def calls_sound_def ring_Nil_iff calls_devices)
qed

lemma ok_sound: "i8042_ok s \<Longrightarrow> calls_sound (ring (kbd s) \<noteq> []) (kbd s)" "i8042_ok s \<Longrightarrow> calls_sound (ring (mouse s) \<noteq> []) (mouse s)"
  by (simp_all add: i8042_ok_def)

lemma ok_fields:
  "i8042_ok s \<Longrightarrow> i8042_ok (s\<lparr>kb_write_cmd := c\<rparr>)" "i8042_ok s \<Longrightarrow> i8042_ok (s\<lparr>a20 := g\<rparr>)"
  "i8042_ok s \<Longrightarrow> i8042_ok (s\<lparr>reset_requests := n\<rparr>)"
  "i8042_ok s \<Longrightarrow> i8042_ok (s\<lparr>kb_status := kb_status s OR KBD_STAT_SELFTEST\<rparr>)"
  "i8042_ok s \<Longrightarrow> i8042_ok (s\<lparr>kb_mode := kb_mode s OR KBD_MODE_DISABLE_MOUSE\<rparr>)"
  "i8042_ok s \<Longrightarrow> i8042_ok (s\<lparr>kb_mode := kb_mode s AND NOT KBD_MODE_DISABLE_MOUSE\<rparr>)"
  by (simp_all add: i8042_ok_def outputs_defs kbd_bits bit.conj_disj_distrib2 and.assoc)

lemma ok_mode:
  "i8042_ok s \<Longrightarrow> i8042_ok (kbd_update_irq (s\<lparr>kb_mode := c\<rparr>))"
  "i8042_ok s \<Longrightarrow> i8042_ok (kbd_update_irq (s\<lparr>kb_mode := c, kbd := ps2_keyboard_set_translation (kbd s) t\<rparr>))"
  by (simp_all add: i8042_ok_def update_irq_outputs ps2_keyboard_set_translation_def calls_sound_def ring_Nil_iff)

lemma queue_ok: "i8042_ok s \<Longrightarrow> i8042_ok (kbd_queue s v aux)"
  by (simp add: kbd_queue_def put_kbd_ok put_mouse_ok sound_queue ok_sound)

lemma write_command_ok: "i8042_ok s \<Longrightarrow> i8042_ok (kbd_write_command s v)"
  unfolding kbd_write_command_def by (intro if_cases [where P = i8042_ok] queue_ok ok_fields ok_mode)

lemma write_data_ok: "i8042_ok s \<Longrightarrow> i8042_ok (kbd_write_data s v)"
  unfolding kbd_write_data_def Let_def KBDState.select_convs KBDState.update_convs
  by (intro if_cases [where P = i8042_ok] queue_ok ok_fields(1) ok_fields(2) ok_fields(3) put_kbd_ok put_mouse_ok
      sound_write_keyboard sound_write_mouse ok_sound) (simp_all add: ok_mode)

lemma read_data_ok: "i8042_ok s \<Longrightarrow> i8042_ok (snd (kbd_read_data s))"
  by (simp add: kbd_read_data_def split_beta put_kbd_ok put_mouse_ok sound_read ok_sound)

lemma event_ok: "i8042_ok s \<Longrightarrow> i8042_ok (kbd_event s c)" "i8042_ok s \<Longrightarrow> i8042_ok (mouse_event s dx dy dz bs)"
  by (simp_all add: kbd_event_def mouse_event_def put_kbd_ok put_mouse_ok sound_keycode sound_event ok_sound)

lemma mm_ok: "i8042_ok s \<Longrightarrow> i8042_ok (kbd_mm_writeb s a v)" "i8042_ok s \<Longrightarrow> i8042_ok (snd (kbd_mm_readb s a))"
  by (simp_all add: kbd_mm_writeb_def kbd_mm_readb_def split_beta write_command_ok write_data_ok read_data_ok)

lemma reset_ok: "i8042_ok s \<Longrightarrow> i8042_ok (i8042_reset s)"
proof -
  assume s: "i8042_ok s"
  let ?s = "put_kbd s (ps2_kbd_reset (kbd s))"
  let ?t = "put_mouse ?s (ps2_mouse_reset (mouse ?s))"
  from s have "i8042_ok ?t" by (intro put_kbd_ok put_mouse_ok sound_resets ok_sound)
  moreover have "ring (kbd ?t) = []" "ring (mouse ?t) = []"
    by (simp_all add: ring_Nil_iff ps2_kbd_reset_def ps2_mouse_reset_def ps2_common_reset_def)
  ultimately show ?thesis
    by (simp add: i8042_reset_def Let_def kbd_reset_def i8042_ok_def outputs_defs) (simp add: kbd_bits pend_def)
qed

lemma init_ok: "i8042_ok i8042_initfn"
  by (simp add: i8042_ok_def i8042_initfn_def ps2_kbd_init_def ps2_mouse_init_def pend_def ring_Nil_iff calls_sound_def
      queue_wf_def outputs_defs) (simp add: kbd_bits)


section \<open>Every history of the controller\<close>

inductive i8042_reach :: "KBDState \<Rightarrow> bool" where
  created: "i8042_reach (i8042_initfn\<lparr>mm_mask := k\<rparr>)"
| reset: "i8042_reach s \<Longrightarrow> i8042_reach (i8042_reset s)"
| command: "i8042_reach s \<Longrightarrow> i8042_reach (kbd_write_command s v)"
| data_write: "i8042_reach s \<Longrightarrow> i8042_reach (kbd_write_data s v)"
| data_read: "i8042_reach s \<Longrightarrow> i8042_reach (snd (kbd_read_data s))"
| mm_write: "i8042_reach s \<Longrightarrow> i8042_reach (kbd_mm_writeb s a v)"
| mm_read: "i8042_reach s \<Longrightarrow> i8042_reach (snd (kbd_mm_readb s a))"
| key: "i8042_reach s \<Longrightarrow> i8042_reach (kbd_event s c)"
| move: "i8042_reach s \<Longrightarrow> i8042_reach (mouse_event s dx dy dz bs)"

lemma reach_ok: "i8042_reach s \<Longrightarrow> i8042_ok s"
proof (induction rule: i8042_reach.induct)
  case (created k)
  show ?case using init_ok by (simp add: i8042_ok_def outputs_defs)
qed (simp_all add: reset_ok write_command_ok write_data_ok read_data_ok mm_ok event_ok)

text \<open>Reading the data port again and again.\<close>

primrec kbd_reads :: "nat \<Rightarrow> KBDState \<Rightarrow> u32 list \<times> KBDState" where
  "kbd_reads 0 s = ([], s)"
| "kbd_reads (Suc n) s = (let (v, s) = kbd_read_data s; (vs, s) = kbd_reads n s in (v # vs, s))"

lemma ring_irq_calls [simp]: "ring (s\<lparr>irq_calls := cs\<rparr>) = ring s"
  by (simp add: ring_def)

lemma ok_wf: "i8042_ok s \<Longrightarrow> queue_wf (queue (kbd s))" "i8042_ok s \<Longrightarrow> queue_wf (queue (mouse s))"
  by (simp_all add: i8042_ok_def calls_sound_def)

lemma read_data_next:
  assumes "i8042_ok s" "ring (kbd s) @ ring (mouse s) = b # bs"
  shows "fst (kbd_read_data s) = ucast b" "ring (kbd (snd (kbd_read_data s))) @ ring (mouse (snd (kbd_read_data s))) = bs"
proof -
  note r = read_contents [OF ok_wf(1) [OF assms(1)]] read_contents [OF ok_wf(2) [OF assms(1)]]
  have p: "kb_pending s = pend (ring (kbd s) \<noteq> []) (ring (mouse s) \<noteq> [])" using assms(1) by (simp add: i8042_ok_def)
  show "fst (kbd_read_data s) = ucast b" "ring (kbd (snd (kbd_read_data s))) @ ring (mouse (snd (kbd_read_data s))) = bs"
    using assms(2) r p by (cases "ring (kbd s)"; force simp: kbd_read_data_def split_beta)+
qed

lemma reads_all:
  "i8042_ok s \<Longrightarrow> ring (kbd s) @ ring (mouse s) = bs \<Longrightarrow>
     fst (kbd_reads (length bs) s) = map ucast bs \<and> i8042_ok (snd (kbd_reads (length bs) s)) \<and>
     ring (kbd (snd (kbd_reads (length bs) s))) = [] \<and> ring (mouse (snd (kbd_reads (length bs) s))) = []"
proof (induction bs arbitrary: s)
  case (Cons b bs)
  from read_data_next [OF Cons.prems] Cons.IH [OF read_data_ok [OF Cons.prems(1)]]
  show ?case by (simp add: split_beta)
qed simp

section \<open>Properties\<close>

text \<open>
  C14. The keyboard controller never loses an interrupt. In every state its ports, the reset, key presses and mouse
  movements reach, the status port shows the output buffer full exactly when a device has bytes and shows mouse data
  exactly when only the mouse has some; the keyboard's interrupt line is raised exactly when the keyboard has bytes,
  its interrupt is enabled and the keyboard is not disabled; and the mouse's exactly when only the mouse has bytes and
  its interrupt is enabled.
\<close>

theorem i8042_lines:
  assumes "i8042_reach s"
  shows "(kbd_read_status s AND 0x01 \<noteq> 0) = (ring (kbd s) \<noteq> [] \<or> ring (mouse s) \<noteq> []) \<and>
    (kbd_read_status s AND 0x20 \<noteq> 0) = (ring (kbd s) = [] \<and> ring (mouse s) \<noteq> []) \<and>
    (irq_kbd s \<noteq> [] \<and> last (irq_kbd s) \<noteq> 0) = (ring (kbd s) \<noteq> [] \<and> kb_mode s AND 0x01 \<noteq> 0 \<and> kb_mode s AND 0x10 = 0) \<and>
    (irq_mouse s \<noteq> [] \<and> last (irq_mouse s) \<noteq> 0) = (ring (kbd s) = [] \<and> ring (mouse s) \<noteq> [] \<and> kb_mode s AND 0x02 \<noteq> 0)"
proof -
  have m: "ucast st AND 0x01 = (ucast (st AND KBD_STAT_OBF) :: u32)"
    "ucast st AND 0x20 = (ucast (st AND KBD_STAT_MOUSE_OBF) :: u32)" for st :: byte
    by (simp_all add: unsigned_and_eq kbd_bits)
  have z: "(ucast (b :: byte) :: u32) = 0 \<longleftrightarrow> b = 0" for b
    by transfer simp
  have "outputs_ok s" "kb_pending s = pend (ring (kbd s) \<noteq> []) (ring (mouse s) \<noteq> [])"
    using reach_ok [OF assms] by (simp_all add: i8042_ok_def)
  then show ?thesis
    by (auto simp: outputs_defs kbd_read_status_def m z line_level_def kbd_bits(6-9) pend_def kbd_bits(11,12) split: if_splits)
qed


theorem i8042_lines_witness:
  "kbd_read_status (kbd_event (i8042_reset i8042_initfn) 0x1e) AND 0x01 \<noteq> 0 \<and>
   last (irq_kbd (kbd_event (i8042_reset i8042_initfn) 0x1e)) \<noteq> 0"
proof -
  have r: "i8042_reach (kbd_event (i8042_reset i8042_initfn) 0x1e)"
    using created [of 0] by (intro key reset) (simp add: i8042_initfn_def)
  have "ring (kbd (kbd_event (i8042_reset i8042_initfn) 0x1e)) \<noteq> []" "kb_mode (kbd_event (i8042_reset i8042_initfn) 0x1e) = 3"
    unfolding ring_Nil_iff by code_simp+
  with i8042_lines [OF r] show ?thesis by simp
qed

text \<open>
  C39. Reading the data port as often as bytes are waiting returns them all: the keyboard's bytes in the order they were
  queued, then the mouse's. Then the output buffer is empty and both interrupt lines are low.
\<close>

theorem kbd_drains:
  assumes "i8042_reach s"
  defines "n \<equiv> length (ring (kbd s)) + length (ring (mouse s))"
  shows "fst (kbd_reads n s) = map ucast (ring (kbd s) @ ring (mouse s)) \<and> kbd_read_status (snd (kbd_reads n s)) AND 0x21 = 0 \<and>
    line_level False (irq_kbd (snd (kbd_reads n s))) = False \<and> line_level False (irq_mouse (snd (kbd_reads n s))) = False"
proof -
  let ?t = "snd (kbd_reads n s)"
  have r: "fst (kbd_reads n s) = map ucast (ring (kbd s) @ ring (mouse s))" "i8042_ok ?t" "ring (kbd ?t) = []" "ring (mouse ?t) = []"
    using reads_all [OF reach_ok [OF assms(1)] refl] unfolding n_def by simp_all
  then have p: "kb_pending ?t = 0" "outputs_ok ?t" unfolding i8042_ok_def by (simp_all add: pend_def)
  then have "kb_status ?t AND KBD_STAT_OBF = 0" "kb_status ?t AND KBD_STAT_MOUSE_OBF = 0"
    by (simp_all add: outputs_defs) (simp_all add: kbd_bits)
  then have "kb_status ?t AND (KBD_STAT_OBF OR KBD_STAT_MOUSE_OBF) = 0" by (simp add: bit.conj_disj_distrib)
  then have "kb_status ?t AND 0x21 = 0" by (simp add: kbd_bits)
  moreover have "kbd_read_status ?t AND 0x21 = ucast (kb_status ?t AND 0x21)" by (simp add: kbd_read_status_def unsigned_and_eq)
  ultimately have "kbd_read_status ?t AND 0x21 = 0" by simp
  with r(1) p show ?thesis by (simp add: outputs_defs) (simp add: kbd_bits)
qed

theorem kbd_drains_witness:
  "fst (kbd_reads 2 (kbd_event (kbd_write_command (i8042_reset i8042_initfn) 0xAA) 0x1e)) = [0x55, 0x1e]"
proof -
  let ?s = "kbd_event (kbd_write_command (i8042_reset i8042_initfn) 0xAA) 0x1e"
  have r: "i8042_reach ?s" using created [of 0] by (intro key command reset) (simp add: i8042_initfn_def)
  have c: "ring (kbd ?s) = [0x55, 0x1e]" "ring (mouse ?s) = []" unfolding ring_def by code_simp+
  have "fst (kbd_reads (length [0x55, 0x1e :: byte] + length ([] :: byte list)) ?s) = map ucast ([0x55, 0x1e :: byte] @ [])"
    using conjunct1 [OF kbd_drains [OF r]] unfolding c .
  moreover have "length [0x55, 0x1e :: byte] + length ([] :: byte list) = 2" by simp
  moreover have "map ucast ([0x55, 0x1e :: byte] @ []) = [0x55, 0x1e :: u32]" by simp
  ultimately show ?thesis by (simp only:)
qed

end
