(* ===== verification/IOPort.thy ===== *)
theory IOPort
  imports VA_Prelude
begin

text \<open>
  The table of the I/O ports, \<^verbatim>\<open>ioport.c\<close>: for each port and access size a handler of the device
  that registered it. Handlers are functions over the state of the machine, of a type of their own here; the
  \<open>void *\<close> a device registers is its address, zero for a null pointer. An access outside the
  tables, which the code leaves undefined, \<open>hw_error\<close>, which ends the process, and a handler that crashes are errors.
\<close>

unbundle bit_operations_syntax

section \<open>Tables\<close>

datatype io_error = IO_HwError string | IO_OutOfTable | IO_Crash

type_synonym 'm IOPortReadFunc = "u64 \<Rightarrow> u32 \<Rightarrow> 'm \<Rightarrow> io_error + u32 \<times> 'm"
type_synonym 'm IOPortWriteFunc = "u64 \<Rightarrow> u32 \<Rightarrow> u32 \<Rightarrow> 'm \<Rightarrow> io_error + 'm"

definition MAX_IOPORTS :: nat where "MAX_IOPORTS = 64 * 1024"
definition IOPORTS_MASK :: u32 where "IOPORTS_MASK = 0xffff"

text \<open>An entry is null, a handler, or the default function of its row.\<close>

datatype 'f port_entry = Null | Default | Func 'f

record 'm ioports =
  ioport_opaque :: "nat \<Rightarrow> u64"
  ioport_read_table :: "nat \<Rightarrow> nat \<Rightarrow> 'm IOPortReadFunc port_entry"
  ioport_write_table :: "nat \<Rightarrow> nat \<Rightarrow> 'm IOPortWriteFunc port_entry"

definition no_ports :: "'m ioports" where
  "no_ports = \<lparr>ioport_opaque = (\<lambda>_. 0), ioport_read_table = (\<lambda>_ _. Null), ioport_write_table = (\<lambda>_ _. Null)\<rparr>"

section \<open>Dispatch\<close>

definition read_entry :: "'m ioports \<Rightarrow> nat \<Rightarrow> (u32 \<Rightarrow> 'm \<Rightarrow> io_error + u32 \<times> 'm) \<Rightarrow> u32 \<Rightarrow> 'm \<Rightarrow> io_error + u32 \<times> 'm" where
  "read_entry io index default_func address m =
     (if unat address < MAX_IOPORTS
      then case ioport_read_table io index (unat address) of
        Func func \<Rightarrow> func (ioport_opaque io (unat address)) address m
      | _ \<Rightarrow> default_func address m
      else Inl IO_OutOfTable)"

definition write_entry :: "'m ioports \<Rightarrow> nat \<Rightarrow> (u32 \<Rightarrow> u32 \<Rightarrow> 'm \<Rightarrow> io_error + 'm) \<Rightarrow> u32 \<Rightarrow> u32 \<Rightarrow> 'm \<Rightarrow> io_error + 'm" where
  "write_entry io index default_func address data m =
     (if unat address < MAX_IOPORTS
      then case ioport_write_table io index (unat address) of
        Func func \<Rightarrow> func (ioport_opaque io (unat address)) address data m
      | _ \<Rightarrow> default_func address data m
      else Inl IO_OutOfTable)"

definition default_ioport_readb :: "u32 \<Rightarrow> 'm \<Rightarrow> io_error + u32 \<times> 'm" where
  "default_ioport_readb address m = Inr (0xff, m)"

definition default_ioport_writeb :: "u32 \<Rightarrow> u32 \<Rightarrow> 'm \<Rightarrow> io_error + 'm" where
  "default_ioport_writeb address data m = Inr m"

definition default_ioport_readw :: "'m ioports \<Rightarrow> u32 \<Rightarrow> 'm \<Rightarrow> io_error + u32 \<times> 'm" where
  "default_ioport_readw io address m =
     bindR (read_entry io 0 default_ioport_readb address m) (\<lambda>(data, m).
     bindR (read_entry io 0 default_ioport_readb ((address + 1) AND IOPORTS_MASK) m) (\<lambda>(data', m).
     Inr (data OR push_bit 8 data', m)))"

definition default_ioport_writew :: "'m ioports \<Rightarrow> u32 \<Rightarrow> u32 \<Rightarrow> 'm \<Rightarrow> io_error + 'm" where
  "default_ioport_writew io address data m =
     bindR (write_entry io 0 default_ioport_writeb address (data AND 0xff) m) (\<lambda>m.
     write_entry io 0 default_ioport_writeb ((address + 1) AND IOPORTS_MASK) (drop_bit 8 data AND 0xff) m)"

definition default_ioport_readl :: "u32 \<Rightarrow> 'm \<Rightarrow> io_error + u32 \<times> 'm" where
  "default_ioport_readl address m = Inr (0xffffffff, m)"

definition default_ioport_writel :: "u32 \<Rightarrow> u32 \<Rightarrow> 'm \<Rightarrow> io_error + 'm" where
  "default_ioport_writel address data m = Inr m"

definition ioport_read :: "'m ioports \<Rightarrow> nat \<Rightarrow> u32 \<Rightarrow> 'm \<Rightarrow> io_error + u32 \<times> 'm" where
  "ioport_read io index =
     read_entry io index ([default_ioport_readb, default_ioport_readw io, default_ioport_readl] ! index)"

definition ioport_write :: "'m ioports \<Rightarrow> nat \<Rightarrow> u32 \<Rightarrow> u32 \<Rightarrow> 'm \<Rightarrow> io_error + 'm" where
  "ioport_write io index =
     write_entry io index ([default_ioport_writeb, default_ioport_writew io, default_ioport_writel] ! index)"

section \<open>Registration\<close>

definition ioport_bsize :: "int \<Rightarrow> nat option" where
  "ioport_bsize sz = (if sz = 1 then Some 0 else if sz = 2 then Some 1 else if sz = 4 then Some 2 else None)"

text \<open>The loops over the ports of a registration; they leave the tables before their counter can overflow.\<close>

function port_loop :: "nat \<Rightarrow> nat \<Rightarrow> nat \<Rightarrow> (nat \<Rightarrow> 'm ioports \<Rightarrow> io_error + 'm ioports) \<Rightarrow> 'm ioports \<Rightarrow> io_error + 'm ioports" where
  "port_loop i limit sz step io =
     (if i < limit \<and> 0 < sz
      then if i < MAX_IOPORTS then bindR (step i io) (\<lambda>io. port_loop (i + sz) limit sz step io) else Inl IO_OutOfTable
      else Inr io)"
  by pat_completeness auto
termination by (relation "measure (\<lambda>(i, limit, _). limit - i)") auto

declare port_loop.simps [simp del]

definition set_opaque :: "string \<Rightarrow> u64 \<Rightarrow> nat \<Rightarrow> 'm ioports \<Rightarrow> io_error + 'm ioports" where
  "set_opaque msg opaque i io =
     (if ioport_opaque io i \<noteq> 0 \<and> ioport_opaque io i \<noteq> opaque then Inl (IO_HwError msg)
      else Inr (io\<lparr>ioport_opaque := (ioport_opaque io)(i := opaque)\<rparr>))"

definition read_step :: "nat \<Rightarrow> 'm IOPortReadFunc \<Rightarrow> u64 \<Rightarrow> nat \<Rightarrow> 'm ioports \<Rightarrow> io_error + 'm ioports" where
  "read_step bsize func opaque i io =
     set_opaque ''register_ioport_read: invalid opaque'' opaque i
       (io\<lparr>ioport_read_table := (ioport_read_table io)(bsize := (ioport_read_table io bsize)(i := Func func))\<rparr>)"

definition write_step :: "nat \<Rightarrow> 'm IOPortWriteFunc \<Rightarrow> u64 \<Rightarrow> nat \<Rightarrow> 'm ioports \<Rightarrow> io_error + 'm ioports" where
  "write_step bsize func opaque i io =
     set_opaque ''register_ioport_write: invalid opaque'' opaque i
       (io\<lparr>ioport_write_table := (ioport_write_table io)(bsize := (ioport_write_table io bsize)(i := Func func))\<rparr>)"

definition unassign_step :: "nat \<Rightarrow> 'm ioports \<Rightarrow> io_error + 'm ioports" where
  "unassign_step i io =
     Inr (io\<lparr>ioport_read_table := (\<lambda>b. if b < 3 then (ioport_read_table io b)(i := Default) else ioport_read_table io b),
             ioport_write_table := (\<lambda>b. if b < 3 then (ioport_write_table io b)(i := Default) else ioport_write_table io b),
             ioport_opaque := (ioport_opaque io)(i := 0)\<rparr>)"

definition register_ioport_read :: "u32 \<Rightarrow> int \<Rightarrow> int \<Rightarrow> 'm IOPortReadFunc \<Rightarrow> u64 \<Rightarrow> 'm ioports \<Rightarrow> io_error + 'm ioports" where
  "register_ioport_read start len sz func opaque io = (case ioport_bsize sz of
      None \<Rightarrow> Inl (IO_HwError ''register_ioport_read: invalid size'')
    | Some bsize \<Rightarrow> port_loop (unat start) (unat (start + word_of_int len)) (nat sz) (read_step bsize func opaque) io)"

definition register_ioport_write :: "u32 \<Rightarrow> int \<Rightarrow> int \<Rightarrow> 'm IOPortWriteFunc \<Rightarrow> u64 \<Rightarrow> 'm ioports \<Rightarrow> io_error + 'm ioports" where
  "register_ioport_write start len sz func opaque io = (case ioport_bsize sz of
      None \<Rightarrow> Inl (IO_HwError ''register_ioport_write: invalid size'')
    | Some bsize \<Rightarrow> port_loop (unat start) (unat (start + word_of_int len)) (nat sz) (write_step bsize func opaque) io)"

definition isa_unassign_ioport :: "u32 \<Rightarrow> int \<Rightarrow> 'm ioports \<Rightarrow> io_error + 'm ioports" where
  "isa_unassign_ioport start len io = port_loop (unat start) (unat (start + word_of_int len)) 1 unassign_step io"

section \<open>The accesses of the processor\<close>

definition cpu_outb :: "'m ioports \<Rightarrow> u32 \<Rightarrow> byte \<Rightarrow> 'm \<Rightarrow> io_error + 'm" where
  "cpu_outb io addr val m = ioport_write io 0 addr (ucast val) m"

definition cpu_outw :: "'m ioports \<Rightarrow> u32 \<Rightarrow> u16 \<Rightarrow> 'm \<Rightarrow> io_error + 'm" where
  "cpu_outw io addr val m = ioport_write io 1 addr (ucast val) m"

definition cpu_outl :: "'m ioports \<Rightarrow> u32 \<Rightarrow> u32 \<Rightarrow> 'm \<Rightarrow> io_error + 'm" where
  "cpu_outl io addr val m = ioport_write io 2 addr val m"

definition cpu_inb :: "'m ioports \<Rightarrow> u32 \<Rightarrow> 'm \<Rightarrow> io_error + byte \<times> 'm" where
  "cpu_inb io addr m = bindR (ioport_read io 0 addr m) (\<lambda>(val, m). Inr (ucast val, m))"

definition cpu_inw :: "'m ioports \<Rightarrow> u32 \<Rightarrow> 'm \<Rightarrow> io_error + u16 \<times> 'm" where
  "cpu_inw io addr m = bindR (ioport_read io 1 addr m) (\<lambda>(val, m). Inr (ucast val, m))"

definition cpu_inl :: "'m ioports \<Rightarrow> u32 \<Rightarrow> 'm \<Rightarrow> io_error + u32 \<times> 'm" where
  "cpu_inl io addr m = bindR (ioport_read io 2 addr m) (\<lambda>(val, m). Inr (val, m))"

section \<open>What a loop over the ports does\<close>

text \<open>All that the tables hold for one port.\<close>

definition cell :: "'m ioports \<Rightarrow> nat \<Rightarrow> u64 \<times> (nat \<Rightarrow> 'm IOPortReadFunc port_entry) \<times> (nat \<Rightarrow> 'm IOPortWriteFunc port_entry)" where
  "cell io i = (ioport_opaque io i, \<lambda>b. ioport_read_table io b i, \<lambda>b. ioport_write_table io b i)"

definition hits :: "nat \<Rightarrow> nat \<Rightarrow> nat \<Rightarrow> nat \<Rightarrow> bool" where
  "hits i limit sz j \<longleftrightarrow> i \<le> j \<and> j < limit \<and> (j - i) mod sz = 0"

lemma hits_step: "0 < sz \<Longrightarrow> i < limit \<Longrightarrow> hits i limit sz j \<longleftrightarrow> j = i \<or> hits (i + sz) limit sz j"
proof -
  assume "0 < sz" "i < limit"
  moreover have "i < j \<Longrightarrow> (j - i) mod sz = 0 \<Longrightarrow> i + sz \<le> j \<and> (j - (i + sz)) mod sz = 0"
    by (metis add.commute diff_diff_left dvd_imp_le le_add_diff_inverse less_imp_le_nat mod_0_imp_dvd mod_if mod_mod_trivial
        nat_add_left_cancel_le not_less zero_less_diff)
  moreover have "i + sz \<le> j \<Longrightarrow> (j - (i + sz)) mod sz = 0 \<Longrightarrow> (j - i) mod sz = 0"
    by (metis diff_diff_left le_add_diff_inverse2 mod_add_self2 add_le_imp_le_diff add.commute)
  ultimately show ?thesis unfolding hits_def by (cases "j = i") (auto simp: le_less)
qed

definition step_cells where
  "step_cells step P upd \<longleftrightarrow> (\<forall>i io io'. step i io = Inr io' \<longrightarrow>
     P (cell io i) \<and> cell io' i = upd (cell io i) \<and> (\<forall>j. j \<noteq> i \<longrightarrow> cell io' j = cell io j))"

lemma port_loop_cells:
  assumes "step_cells step P upd"
  shows "port_loop i limit sz step io = Inr io' \<Longrightarrow> 0 < sz \<Longrightarrow>
    if hits i limit sz j then P (cell io j) \<and> cell io' j = upd (cell io j) else cell io' j = cell io j"
proof (induction "limit - i" arbitrary: i io rule: less_induct)
  case less
  show ?case
  proof (cases "i < limit")
    case True
    with less.prems obtain io1 where r: "step i io = Inr io1" "port_loop (i + sz) limit sz step io1 = Inr io'"
      by (subst (asm) port_loop.simps) (auto simp: bindR_Inr_iff split: if_splits)
    have "\<not> hits (i + sz) limit sz i" "limit - (i + sz) < limit - i" using less.prems(2) True by (auto simp: hits_def)
    then show ?thesis
      using hits_step [of sz i limit j] less.hyps [OF _ r(2)] assms r(1) True less.prems(2) by (cases "j = i") (auto simp: step_cells_def)
  next
    case False
    then show ?thesis using less.prems(1) by (subst (asm) port_loop.simps) (auto simp: hits_def)
  qed
qed

lemma step_cells_ports:
  "step_cells (read_step b f x) (\<lambda>c. fst c = 0 \<or> fst c = x) (\<lambda>c. (x, (fst (snd c))(b := Func f), snd (snd c)))"
  "step_cells (write_step b g x) (\<lambda>c. fst c = 0 \<or> fst c = x) (\<lambda>c. (x, fst (snd c), (snd (snd c))(b := Func g)))"
  "step_cells unassign_step (\<lambda>_. True)
     (\<lambda>c. (0, \<lambda>b. if b < 3 then Default else fst (snd c) b, \<lambda>b. if b < 3 then Default else snd (snd c) b))"
  by (auto simp: step_cells_def read_step_def write_step_def unassign_step_def set_opaque_def cell_def fun_eq_iff split: if_splits)

lemmas port_loops = step_cells_ports [THEN port_loop_cells]

section \<open>The latest registration\<close>

datatype 'm port_op =
    RegRead u32 int int "'m IOPortReadFunc" u64
  | RegWrite u32 int int "'m IOPortWriteFunc" u64
  | Unassign u32 int

fun port_exec :: "'m port_op \<Rightarrow> 'm ioports \<Rightarrow> io_error + 'm ioports" where
  "port_exec (RegRead start len sz f x) io = register_ioport_read start len sz f x io"
| "port_exec (RegWrite start len sz f x) io = register_ioport_write start len sz f x io"
| "port_exec (Unassign start len) io = isa_unassign_ioport start len io"

fun port_run :: "'m port_op list \<Rightarrow> 'm ioports \<Rightarrow> io_error + 'm ioports" where
  "port_run [] io = Inr io"
| "port_run (p # ps) io = bindR (port_exec p io) (port_run ps)"

fun op_opaque :: "'m port_op \<Rightarrow> u64 option" where
  "op_opaque (RegRead _ _ _ _ x) = Some x"
| "op_opaque (RegWrite _ _ _ _ x) = Some x"
| "op_opaque (Unassign _ _) = None"

definition covers :: "u32 \<Rightarrow> int \<Rightarrow> int \<Rightarrow> nat \<Rightarrow> bool" where
  "covers start len sz = hits (unat start) (unat (start + word_of_int len)) (nat sz)"

fun touches :: "nat \<Rightarrow> 'm port_op \<Rightarrow> bool" where
  "touches j (RegRead start len sz _ _) = covers start len sz j"
| "touches j (RegWrite start len sz _ _) = covers start len sz j"
| "touches j (Unassign start len) = covers start len 1 j"

text \<open>The registration that answers an access, with the latest first.\<close>

fun reader :: "nat \<Rightarrow> nat \<Rightarrow> 'm port_op list \<Rightarrow> ('m IOPortReadFunc \<times> u64) option" where
  "reader b j [] = None"
| "reader b j (RegRead start len sz f x # ps) = (if ioport_bsize sz = Some b \<and> covers start len sz j then Some (f, x) else reader b j ps)"
| "reader b j (RegWrite _ _ _ _ _ # ps) = reader b j ps"
| "reader b j (Unassign start len # ps) = (if covers start len 1 j then None else reader b j ps)"

fun writer :: "nat \<Rightarrow> nat \<Rightarrow> 'm port_op list \<Rightarrow> ('m IOPortWriteFunc \<times> u64) option" where
  "writer b j [] = None"
| "writer b j (RegRead _ _ _ _ _ # ps) = writer b j ps"
| "writer b j (RegWrite start len sz f x # ps) = (if ioport_bsize sz = Some b \<and> covers start len sz j then Some (f, x) else writer b j ps)"
| "writer b j (Unassign start len # ps) = (if covers start len 1 j then None else writer b j ps)"

definition answers :: "u64 \<Rightarrow> 'f port_entry \<Rightarrow> ('f \<times> u64) option \<Rightarrow> bool" where
  "answers x e who = (case who of None \<Rightarrow> (\<forall>f. e \<noteq> Func f) | Some (f, y) \<Rightarrow> e = Func f \<and> x = y \<and> y \<noteq> 0)"

definition cell_ok :: "u64 \<times> (nat \<Rightarrow> 'm IOPortReadFunc port_entry) \<times> (nat \<Rightarrow> 'm IOPortWriteFunc port_entry) \<Rightarrow> 'm port_op list \<Rightarrow> nat \<Rightarrow> bool" where
  "cell_ok c ps j \<longleftrightarrow> (\<forall>b < 3. answers (fst c) (fst (snd c) b) (reader b j ps) \<and> answers (fst c) (snd (snd c) b) (writer b j ps))"

lemma bsize_pos: "ioport_bsize sz = Some b \<Longrightarrow> 0 < nat sz \<and> b < 3"
  by (auto simp: ioport_bsize_def split: if_splits)

lemma answers_simps [simp]: "answers x (Func f) (Some (f, x)) \<longleftrightarrow> x \<noteq> 0" "answers x Default None" "answers x Null None"
  by (simp_all add: answers_def)

lemma answers_opaque: "answers x e who \<Longrightarrow> x = 0 \<or> x = y \<Longrightarrow> answers y e who"
  by (auto simp: answers_def split: option.splits)

lemma port_exec_ok:
  assumes "port_exec p io = Inr io'" "cell_ok (cell io j) ps j" "touches j p \<longrightarrow> op_opaque p \<noteq> Some 0"
  shows "cell_ok (cell io' j) (p # ps) j"
proof (cases p)
  case (RegRead start len sz f x)
  with assms(1) obtain b where b: "ioport_bsize sz = Some b"
    "port_loop (unat start) (unat (start + word_of_int len)) (nat sz) (read_step b f x) io = Inr io'"
    by (auto simp: register_ioport_read_def split: option.splits)
  from port_loops(1) [OF b(2), of j] bsize_pos [OF b(1)] show ?thesis
    using assms(2,3) b(1) unfolding RegRead cell_ok_def covers_def [symmetric]
    by (auto split: if_splits intro: answers_opaque)
next
  case (RegWrite start len sz f x)
  with assms(1) obtain b where b: "ioport_bsize sz = Some b"
    "port_loop (unat start) (unat (start + word_of_int len)) (nat sz) (write_step b f x) io = Inr io'"
    by (auto simp: register_ioport_write_def split: option.splits)
  from port_loops(2) [OF b(2), of j] bsize_pos [OF b(1)] show ?thesis
    using assms(2,3) b(1) unfolding RegWrite cell_ok_def covers_def [symmetric]
    by (auto split: if_splits intro: answers_opaque)
next
  case (Unassign start len)
  with assms(1) have "port_loop (unat start) (unat (start + word_of_int len)) 1 unassign_step io = Inr io'"
    by (simp add: isa_unassign_ioport_def)
  from port_loops(3) [OF this, of j] show ?thesis
    using assms(2) unfolding Unassign cell_ok_def covers_def
    by (auto simp: covers_def split: if_splits)
qed


lemma port_run_ok:
  "port_run ps io = Inr io' \<Longrightarrow> cell_ok (cell io j) qs j \<Longrightarrow> \<forall>p \<in> set ps. touches j p \<longrightarrow> op_opaque p \<noteq> Some 0 \<Longrightarrow> cell_ok (cell io' j) (rev ps @ qs) j"
proof (induction ps arbitrary: io qs)
  case (Cons p ps)
  then obtain io1 where "port_exec p io = Inr io1" "port_run ps io1 = Inr io'" by (auto simp: bindR_Inr_iff)
  with Cons.IH [of io1 "p # qs"] port_exec_ok [of p io io1 j qs] Cons.prems show ?case by simp
qed simp

lemma no_ports_ok: "cell_ok (cell no_ports j) [] j"
  by (simp add: cell_ok_def cell_def no_ports_def)

lemma run_entries:
  assumes "port_run ps no_ports = Inr io" "\<forall>p \<in> set ps. touches j p \<longrightarrow> op_opaque p \<noteq> Some 0" "b < 3"
  shows "answers (ioport_opaque io j) (ioport_read_table io b j) (reader b j (rev ps))"
    "answers (ioport_opaque io j) (ioport_write_table io b j) (writer b j (rev ps))"
  using port_run_ok [OF assms(1) no_ports_ok assms(2)] assms(3) by (simp_all add: cell_ok_def cell_def)

text \<open>The answer of the latest registration for a port, or else the default.\<close>

definition answer_read :: "'m port_op list \<Rightarrow> nat \<Rightarrow> (u32 \<Rightarrow> 'm \<Rightarrow> io_error + u32 \<times> 'm) \<Rightarrow> u32 \<Rightarrow> 'm \<Rightarrow> io_error + u32 \<times> 'm" where
  "answer_read ps b dflt a m = (case reader b (unat a) (rev ps) of Some (f, x) \<Rightarrow> f x a m | None \<Rightarrow> dflt a m)"

definition answer_write :: "'m port_op list \<Rightarrow> nat \<Rightarrow> (u32 \<Rightarrow> u32 \<Rightarrow> 'm \<Rightarrow> io_error + 'm) \<Rightarrow> u32 \<Rightarrow> u32 \<Rightarrow> 'm \<Rightarrow> io_error + 'm" where
  "answer_write ps b dflt a v m = (case writer b (unat a) (rev ps) of Some (f, x) \<Rightarrow> f x a v m | None \<Rightarrow> dflt a v m)"

lemma entry_answers:
  assumes "port_run ps no_ports = Inr io" "\<forall>p \<in> set ps. touches (unat a) p \<longrightarrow> op_opaque p \<noteq> Some 0" "b < 3" "unat a < 0x10000"
  shows "read_entry io b dr a m = answer_read ps b dr a m" "write_entry io b dw a v m = answer_write ps b dw a v m"
  using run_entries [OF assms(1-3)] assms(4)
  by (auto simp: read_entry_def write_entry_def answer_read_def answer_write_def answers_def MAX_IOPORTS_def
      split: option.splits port_entry.splits)

section \<open>Properties\<close>

text \<open>
  C15. After any accepted sequence of registrations and removals of which those for the port have an object that is not
  null, an access to the port reaches the handler of the latest registration that covers the port with the size of the access, with the
  object it was registered with, unless the port was removed since. Other accesses take the default: a byte reads
  as \<open>0xff\<close>, a long word as \<open>0xffffffff\<close>, a word is two byte accesses in ascending order of which the
  second wraps from the last port to the first, and writes without handler change nothing.
\<close>

theorem ioport_dispatch:
  assumes "port_run ps no_ports = Inr io" "\<forall>p \<in> set ps. touches (unat a) p \<longrightarrow> op_opaque p \<noteq> Some 0" "unat a < 0x10000"
  shows "ioport_read io 0 a m = answer_read ps 0 (\<lambda>_ m. Inr (0xff, m)) a m \<and>
    ioport_read io 1 a m = answer_read ps 1 (\<lambda>a m. bindR (ioport_read io 0 a m) (\<lambda>(lo, m).
       bindR (ioport_read io 0 (if a = 0xffff then 0 else a + 1) m) (\<lambda>(hi, m). Inr (lo OR push_bit 8 hi, m)))) a m \<and>
    ioport_read io 2 a m = answer_read ps 2 (\<lambda>_ m. Inr (0xffffffff, m)) a m \<and>
    ioport_write io 0 a v m = answer_write ps 0 (\<lambda>_ _ m. Inr m) a v m \<and>
    ioport_write io 1 a v m = answer_write ps 1 (\<lambda>a v m. bindR (ioport_write io 0 a (v AND 0xff) m)
       (ioport_write io 0 (if a = 0xffff then 0 else a + 1) (drop_bit 8 v AND 0xff))) a v m \<and>
    ioport_write io 2 a v m = answer_write ps 2 (\<lambda>_ _ m. Inr m) a v m"
proof -
  have w: "(a + 1) AND IOPORTS_MASK = (if a = 0xffff then 0 else a + 1)"
  proof (cases "a = 0xffff")
    case False
    then have "unat a \<noteq> 0xffff" by (simp add: word_unat_eq_iff)
    then have "unat (a + 1) < 2 ^ 16" using assms(3) by (simp add: unat_word_ariths)
    then have "unat (take_bit 16 (a + 1)) = unat (a + 1)" unfolding unsigned_take_bit_eq by (intro take_bit_nat_eq_self)
    then have "take_bit 16 (a + 1) = a + 1" by (simp only: word_unat_eq_iff)
    then show ?thesis using False by (simp add: take_bit_eq_mask mask_numeral IOPORTS_MASK_def)
  qed (simp add: IOPORTS_MASK_def)
  note e = entry_answers [OF assms(1,2) _ assms(3)]
  have "default_ioport_readb = (\<lambda>_ m :: 'a. Inr (0xff, m))" "default_ioport_readl = (\<lambda>_ m :: 'a. Inr (0xffffffff, m))"
    "default_ioport_writeb = (\<lambda>_ _ m :: 'a. Inr m)" "default_ioport_writel = (\<lambda>_ _ m :: 'a. Inr m)"
    by (simp_all add: fun_eq_iff default_ioport_readb_def default_ioport_writeb_def default_ioport_readl_def default_ioport_writel_def)
  note d = this
  show ?thesis unfolding ioport_read_def ioport_write_def
    by (simp add: e d) (simp add: answer_read_def answer_write_def default_ioport_readw_def default_ioport_writew_def
        IOPORTS_MASK_def w [unfolded IOPORTS_MASK_def] d split: option.split)
qed


theorem ioport_dispatch_witness:
  "(case port_run [RegRead 0x60 1 1 (\<lambda>x a m. Inr (m, m)) 7, RegRead 0x61 1 1 (\<lambda>x a m. Inr (0x0f, m)) 9] no_ports of
      Inl _ \<Rightarrow> False | Inr io \<Rightarrow> ioport_read io 1 0x60 (0x1e :: u32) = Inr (0x0f1e, 0x1e))"
proof -
  let ?ps = "[RegRead 0x60 1 1 (\<lambda>x a m. Inr (m, m)) 7, RegRead 0x61 1 1 (\<lambda>x a m. Inr (0x0f, m)) 9] :: u32 port_op list"
  have "\<exists>io. port_run ?ps no_ports = Inr io"
    by (simp add: register_ioport_read_def ioport_bsize_def port_loop.simps MAX_IOPORTS_def read_step_def set_opaque_def no_ports_def)
  then obtain io where io: "port_run ?ps no_ports = Inr io" by blast
  have o: "\<forall>p \<in> set ?ps. touches j p \<longrightarrow> op_opaque p \<noteq> Some 0" for j by simp
  have c: "covers 0x60 1 1 0x60" "\<not> covers 0x61 1 1 0x60" "covers 0x61 1 1 0x61" "\<not> covers 0x60 1 1 0x61"
    by (simp_all add: covers_def hits_def)
  have "ioport_read io 0 0x60 0x1e = Inr (0x1e, 0x1e)" "ioport_read io 0 0x61 0x1e = Inr (0x0f, 0x1e)"
    using ioport_dispatch [OF io o, of "0x60" "0x1e" 0] ioport_dispatch [OF io o, of "0x61" "0x1e" 0]
    by (simp_all add: answer_read_def ioport_bsize_def c)
  then have "ioport_read io 1 0x60 0x1e = Inr (0x0f1e, 0x1e)"
    using ioport_dispatch [OF io o, of "0x60" "0x1e" 0] by (simp add: answer_read_def ioport_bsize_def c)
  then show ?thesis unfolding io by simp
qed

end
