(* ===== verification/PC.thy ===== *)
theory PC
  imports I8259 I8254 Pckbd IOPort
begin

text \<open>
  The wiring of the machine, \<^verbatim>\<open>hw/pc.c\<close>, \<^verbatim>\<open>hw/isa-bus.c\<close> and \<^verbatim>\<open>hw/irq.c\<close>, for the devices of this
  development: the interrupt controllers, the timer and the keyboard controller, with their ports in the table of \<open>IOPort\<close>,
  their interrupt lines on the ISA bus and their sections in a snapshot. The calls of a device on its interrupt lines
  reach the interrupt controller in order when the handler of the device has returned; the controller touches nothing
  the devices read. The machine has the fix for lost timer ticks off, as without the option \<^verbatim>\<open>-tdf\<close>.
\<close>

unbundle bit_operations_syntax

section \<open>Interrupt lines of the ISA bus\<close>

datatype isa_error = Isa_Exit string | Isa_Assert

record ISADevice =
  isairq :: "int list"
  nirqs :: nat

definition isa_reserve_irq :: "u32 \<Rightarrow> int \<Rightarrow> isa_error + u32" where
  "isa_reserve_irq assigned n =
     (if n < 0 \<or> n > 15 then Inl (Isa_Exit ''isa irq invalid'')
      else if assigned AND push_bit (nat n) 1 \<noteq> 0 then Inl (Isa_Exit ''isa irq already assigned'')
      else Inr (assigned OR push_bit (nat n) 1))"

definition isa_init_irq :: "u32 \<Rightarrow> ISADevice \<Rightarrow> nat \<Rightarrow> isa_error + u32 \<times> ISADevice" where
  "isa_init_irq assigned dev n =
     (if \<not> nirqs dev < length (isairq dev) then Inl Isa_Assert
      else if assigned AND push_bit n 1 \<noteq> 0 then Inl (Isa_Exit ''isa irq already assigned'')
      else Inr (assigned OR push_bit n 1, dev\<lparr>isairq := (isairq dev)[nirqs dev := int n], nirqs := nirqs dev + 1\<rparr>))"

definition isa_qdev_init :: ISADevice where
  "isa_qdev_init = \<lparr>isairq = [-1, -1], nirqs = 0\<rparr>"

section \<open>The machine\<close>

text \<open>The I/O interrupt controller is only its list of calls.\<close>

record pc =
  pics :: PicState2
  pc_pit :: pit_sys
  kbdc :: KBDState
  vm_clock :: u64
  ioapic :: "(nat \<times> int) list option"

definition isa_irq_handler :: "pc \<Rightarrow> nat \<Rightarrow> int \<Rightarrow> pc" where
  "isa_irq_handler m n level =
     (let m = (if n < 16 then m\<lparr>pics := i8259_set_irq (pics m) n level\<rparr> else m)
      in case ioapic m of Some calls \<Rightarrow> m\<lparr>ioapic := Some (calls @ [(n, level)])\<rparr> | None \<Rightarrow> m)"

text \<open>A device after an operation: its new calls on the lines 1 and 12, and on line 0.\<close>

definition kbdc_done :: "pc \<Rightarrow> KBDState \<Rightarrow> pc" where
  "kbdc_done m s =
     fold (\<lambda>(k, a) m. isa_irq_handler (isa_irq_handler m 1 k) 12 a)
       (zip (drop (length (irq_kbd (kbdc m))) (irq_kbd s)) (drop (length (irq_mouse (kbdc m))) (irq_mouse s))) (m\<lparr>kbdc := s\<rparr>)"

definition pit_done :: "pc \<Rightarrow> pit_sys \<Rightarrow> pc" where
  "pit_done m y =
     fold (\<lambda>l m. isa_irq_handler m 0 l) (drop (length (irq (chan (pc_pit m) 0))) (irq (chan y 0))) (m\<lparr>pc_pit := y\<rparr>)"

section \<open>Handlers of the ports\<close>

definition pic_in :: "pic_id \<Rightarrow> pc IOPortReadFunc" where
  "pic_in which obj addr m = (let (v, p) = pic_ioport_read which (pics m) addr in Inr (v, m\<lparr>pics := p\<rparr>))"

definition pic_out :: "pic_id \<Rightarrow> pc IOPortWriteFunc" where
  "pic_out which obj addr val m = (case pic_ioport_write which (pics m) addr val of
      Inl (HwError msg) \<Rightarrow> Inl (IO_HwError msg) | Inr p \<Rightarrow> Inr (m\<lparr>pics := p\<rparr>))"

definition elcr_in :: "pic_id \<Rightarrow> pc IOPortReadFunc" where
  "elcr_in which obj addr m = Inr (elcr_ioport_read (the_pic (pics m) which), m)"

definition elcr_out :: "pic_id \<Rightarrow> pc IOPortWriteFunc" where
  "elcr_out which obj addr val m = Inr (m\<lparr>pics := set_pic (pics m) which (elcr_ioport_write (the_pic (pics m) which) val)\<rparr>)"

definition pit_in :: "pc IOPortReadFunc" where
  "pit_in obj addr m = (case pit_ioport_read (pc_pit m) (vm_clock m) addr of
      Inl _ \<Rightarrow> Inl IO_Crash | Inr (v, y) \<Rightarrow> Inr (v, pit_done m y))"

definition pit_out_port :: "pc IOPortWriteFunc" where
  "pit_out_port obj addr val m = (case pit_ioport_write (pc_pit m) (\<lambda>_. vm_clock m) addr val of
      Inl _ \<Rightarrow> Inl IO_Crash | Inr y \<Rightarrow> Inr (pit_done m y))"

definition kbd_data_in :: "pc IOPortReadFunc" where
  "kbd_data_in obj addr m = (let (v, s) = kbd_read_data (kbdc m) in Inr (v, kbdc_done m s))"

definition kbd_data_out :: "pc IOPortWriteFunc" where
  "kbd_data_out obj addr val m = Inr (kbdc_done m (kbd_write_data (kbdc m) val))"

definition kbd_status_in :: "pc IOPortReadFunc" where
  "kbd_status_in obj addr m = Inr (kbd_read_status (kbdc m), m)"

definition kbd_command_out :: "pc IOPortWriteFunc" where
  "kbd_command_out obj addr val m = Inr (kbdc_done m (kbd_write_command (kbdc m) val))"

definition ioport80_write :: "pc IOPortWriteFunc" where
  "ioport80_write obj addr data m = Inr m"

definition ioportF0_write :: "pc IOPortWriteFunc" where
  "ioportF0_write obj addr data m = Inr (isa_irq_handler m 13 0)"

definition ioport92_write :: "pc IOPortWriteFunc" where
  "ioport92_write obj addr val m = Inr (m\<lparr>kbdc := (kbdc m)\<lparr>a20 := (drop_bit 1 val AND 1 \<noteq> 0)\<rparr>\<rparr>)"

definition ioport92_read :: "pc IOPortReadFunc" where
  "ioport92_read obj addr m = Inr (push_bit 1 (of_bool (a20 (kbdc m))), m)"

section \<open>Creation\<close>

text \<open>The addresses of the device objects come from the allocator.\<close>

datatype device = Pic0 | Pic1 | Pit | Kbd

definition pic_init1 :: "u32 \<Rightarrow> u32 \<Rightarrow> pic_id \<Rightarrow> u64 \<Rightarrow> pc port_op list" where
  "pic_init1 io_addr elcr_addr which x =
     [RegWrite io_addr 2 1 (pic_out which) x, RegRead io_addr 2 1 (pic_in which) x,
      RegWrite elcr_addr 1 1 (elcr_out which) x, RegRead elcr_addr 1 1 (elcr_in which) x]"

definition pc_ports :: "(device \<Rightarrow> u64) \<Rightarrow> pc port_op list" where
  "pc_ports at =
     pic_init1 0x20 0x4d0 Master (at Pic0) @ pic_init1 0xa0 0x4d1 Slave (at Pic1) @
     [RegWrite 0x80 1 1 ioport80_write 0, RegWrite 0xf0 1 1 ioportF0_write 0,
      RegRead 0x92 1 1 ioport92_read 0, RegWrite 0x92 1 1 ioport92_write 0,
      RegWrite 0x40 4 1 pit_out_port (at Pit), RegRead 0x40 3 1 pit_in (at Pit),
      RegRead 0x60 1 1 kbd_data_in (at Kbd), RegWrite 0x60 1 1 kbd_data_out (at Kbd),
      RegRead 0x64 1 1 kbd_status_in (at Kbd), RegWrite 0x64 1 1 kbd_command_out (at Kbd)]"

definition pc_init1 :: "bool \<Rightarrow> isa_error + pc" where
  "pc_init1 pci_enabled =
     bindR (isa_reserve_irq 0 13) (\<lambda>assigned.
     bindR (isa_reserve_irq assigned 0) (\<lambda>assigned.
     bindR (isa_init_irq assigned isa_qdev_init 1) (\<lambda>(assigned, dev).
     bindR (isa_init_irq assigned dev 12) (\<lambda>(assigned, dev).
     Inr \<lparr>pics = i8259_init False, pc_pit = pit_init False, kbdc = i8042_initfn, vm_clock = 0,
          ioapic = (if pci_enabled then Some [] else None)\<rparr>))))"

section \<open>Events\<close>

definition pc_key :: "pc \<Rightarrow> int \<Rightarrow> pc" where
  "pc_key m keycode = kbdc_done m (kbd_event (kbdc m) keycode)"

definition pc_mouse :: "pc \<Rightarrow> int \<Rightarrow> int \<Rightarrow> int \<Rightarrow> int \<Rightarrow> pc" where
  "pc_mouse m dx dy dz buttons = kbdc_done m (mouse_event (kbdc m) dx dy dz buttons)"

definition pc_timer :: "pc \<Rightarrow> io_error + pc" where
  "pc_timer m = (case pit_irq_timer (pc_pit m) 0 of Inl _ \<Rightarrow> Inl IO_Crash | Inr y \<Rightarrow> Inr (pit_done m y))"

definition pc_ack :: "pc \<Rightarrow> int \<times> pc" where
  "pc_ack m = (let (v, p) = pic_read_irq (pics m) in (v, m\<lparr>pics := p\<rparr>))"

section \<open>The interrupt lines reach the controllers\<close>

lemma isa_irq_handler_simps [simp]:
  "n < 16 \<Longrightarrow> pics (isa_irq_handler m n l) = i8259_set_irq (pics m) n l" "kbdc (isa_irq_handler m n l) = kbdc m"
  "pc_pit (isa_irq_handler m n l) = pc_pit m" "vm_clock (isa_irq_handler m n l) = vm_clock m"
  by (simp_all add: isa_irq_handler_def Let_def split: option.split)

lemma isa_fold_kbdc [simp]: "kbdc (fold (\<lambda>(k, a) m. isa_irq_handler (isa_irq_handler m i k) j a) ls m) = kbdc m"
  by (induction ls arbitrary: m) auto

lemma kbdc_done_kbdc [simp]: "kbdc (kbdc_done m s) = s"
  by (simp add: kbdc_done_def)

lemma update_irq_lines [simp]:
  "irq_kbd (kbd_update_irq s) = irq_kbd s @ [of_bool (kbd_raised s)]"
  "irq_mouse (kbd_update_irq s) = irq_mouse s @ [of_bool (mouse_raised s)]"
  by (auto simp: kbd_update_irq_def kbd_raised_def mouse_raised_def Let_def KBD_PENDING_AUX_def)

text \<open>A line of the slave is lowered while the slave has no request.\<close>

lemma slave_low:
  assumes "irr (pic1 s) = 0"
  shows "i8259_set_irq s 12 0 =
    (let s = s\<lparr>pic1 := pic_set_irq1 (pic1 s) 4 0\<rparr> in if 0 \<le> pic_get_irq Master (pic0 s) then qemu_set_irq s 1 else s)"
    "irr (pic_set_irq1 (pic1 s) 4 0) = 0"
proof -
  show i: "irr (pic_set_irq1 (pic1 s) 4 0) = 0" using assms by (simp add: pic_set_irq1_def Let_def)
  show "i8259_set_irq s 12 0 =
    (let s = s\<lparr>pic1 := pic_set_irq1 (pic1 s) 4 0\<rparr> in if 0 \<le> pic_get_irq Master (pic0 s) then qemu_set_irq s 1 else s)"
    using get_irq_none [OF i] by (simp add: i8259_set_irq_def pic_update_irq_def Let_def)
qed

lemma falling_edge:
  assumes "irr (pic1 s) = 0" "irr (pic0 s) = 0" "\<not> bit (elcr (pic0 s)) n" "n < 8"
  shows "i8259_set_irq s n 0 = s\<lparr>pic0 := (pic0 s)\<lparr>last_irr := last_irr (pic0 s) AND NOT (irq_bit n)\<rparr>\<rparr>"
proof -
  have "pic_set_irq1 (pic0 s) n 0 = (pic0 s)\<lparr>last_irr := last_irr (pic0 s) AND NOT (irq_bit n)\<rparr>"
    using assms(3,4) by (simp add: pic_set_irq1_def Let_def and_irq_bit)
  then show ?thesis using assms by (simp add: i8259_set_irq_def pic_update_irq_def Let_def get_irq_none)
qed

text \<open>What a key and a read of the data port do to the lines.\<close>

lemma key_lines:
  assumes ok: "i8042_ok s" and e: "ring (kbd s) = []" "ring (mouse s) = []"
    and en: "kb_mode s AND 0x01 \<noteq> 0" "kb_mode s AND 0x10 = 0" "translate (kbd s) = 1"
  shows "irq_kbd (kbd_event s c) = irq_kbd s @ [1]" "irq_mouse (kbd_event s c) = irq_mouse s @ [0]"
    "ring (kbd (kbd_event s c)) = [word_of_int c]" "mouse (kbd_event s c) = mouse s"
proof -
  have n: "q_count (queue (kbd s)) = 0" "irq_calls (kbd s) = []" "kb_pending s = 0"
    using ok e by (simp_all add: ring_Nil_iff [symmetric] i8042_ok_def pend_def)
  have k: "kbd_event s c = put_kbd s (ps2_queue (kbd s) c)" using en(3) by (simp add: kbd_event_def ps2_put_keycode_def)
  have calls: "irq_calls (ps2_queue (kbd s) c) = [1]" using n by (simp add: ps2_queue_def Let_def PS2_QUEUE_SIZE_def)
  show "irq_kbd (kbd_event s c) = irq_kbd s @ [1]" "irq_mouse (kbd_event s c) = irq_mouse s @ [0]"
    using n(3) en by (simp_all add: k put_kbd_def calls kbd_update_kbd_irq_def kbd_raised_def mouse_raised_def kbd_bits)
  show "ring (kbd (kbd_event s c)) = [word_of_int c]" "mouse (kbd_event s c) = mouse s"
    using queue_contents(2) [OF ok_wf(1) [OF ok], of c] e by (simp_all add: k)
qed

lemma read_lines:
  assumes ok: "i8042_ok s" and e: "ring (kbd s) = [b]" "ring (mouse s) = []"
  shows "irq_kbd (snd (kbd_read_data s)) = irq_kbd s @ [0, 0]" "irq_mouse (snd (kbd_read_data s)) = irq_mouse s @ [0, 0]"
    "ring (kbd (snd (kbd_read_data s))) = []"
proof -
  have n: "q_count (queue (kbd s)) = 1" "irq_calls (kbd s) = []" "kb_pending s = KBD_PENDING_KBD"
    using ok e length_ring [of "kbd s"] by (simp_all add: i8042_ok_def pend_def)
  have k: "snd (kbd_read_data s) = put_kbd s (snd (ps2_read_data (kbd s)))"
    using n(3) by (simp add: kbd_read_data_def split_beta kbd_bits)
  have calls: "irq_calls (snd (ps2_read_data (kbd s))) = [0, 0]" using n by (simp add: ps2_read_data_def Let_def)
  show "irq_kbd (snd (kbd_read_data s)) = irq_kbd s @ [0, 0]" "irq_mouse (snd (kbd_read_data s)) = irq_mouse s @ [0, 0]"
    using n(3) by (simp_all add: k put_kbd_def calls kbd_update_kbd_irq_def kbd_raised_def mouse_raised_def kbd_bits)
  show "ring (kbd (snd (kbd_read_data s))) = []" using read_contents(3) [OF ok_wf(1) [OF ok]] e by (simp add: k)
qed


section \<open>The ports\<close>

lemma reader_skip: "\<forall>p \<in> set ps. \<not> touches j p \<Longrightarrow> reader b j (ps @ qs) = reader b j qs"
proof (induction ps)
  case (Cons p ps)
  then show ?case by (cases p) auto
qed simp

lemma covers_port: "covers start len 1 j \<longleftrightarrow> unat start \<le> j \<and> j < unat (start + word_of_int len)"
  by (simp add: covers_def hits_def)

lemma kbd_reader:
  "reader 0 0x60 (rev (pc_ports at)) = Some (kbd_data_in, at Kbd)" "reader 0 0x64 (rev (pc_ports at)) = Some (kbd_status_in, at Kbd)"
  unfolding pc_ports_def pic_init1_def append.simps rev.simps reader.simps covers_port by (simp_all add: ioport_bsize_def)

lemma kbd_opaque:
  assumes "at Kbd \<noteq> 0"
  shows "\<forall>p \<in> set (pc_ports at). touches 0x60 p \<longrightarrow> op_opaque p \<noteq> Some 0" "\<forall>p \<in> set (pc_ports at). touches 0x64 p \<longrightarrow> op_opaque p \<noteq> Some 0"
  unfolding pc_ports_def pic_init1_def append.simps list.set ball_simps touches.simps covers_port op_opaque.simps
  by (simp_all add: assms)

lemma kbd_ports:
  assumes "port_run (pc_ports at @ others) no_ports = Inr io" "at Kbd \<noteq> 0"
    and "\<forall>p \<in> set others. \<not> touches 0x60 p \<and> \<not> touches 0x64 p"
  shows "cpu_inb io 0x60 m = (let (v, s) = kbd_read_data (kbdc m) in Inr (ucast v, kbdc_done m s))"
    "cpu_inb io 0x64 m = Inr (ucast (kbd_read_status (kbdc m)), m)"
proof -
  have o: "\<forall>p \<in> set (pc_ports at @ others). touches 0x60 p \<longrightarrow> op_opaque p \<noteq> Some 0"
    "\<forall>p \<in> set (pc_ports at @ others). touches 0x64 p \<longrightarrow> op_opaque p \<noteq> Some 0"
    using assms(3) kbd_opaque [of at, OF assms(2)] by auto
  have r: "reader 0 0x60 (rev (pc_ports at @ others)) = Some (kbd_data_in, at Kbd)"
    "reader 0 0x64 (rev (pc_ports at @ others)) = Some (kbd_status_in, at Kbd)"
    using assms(3) by (simp_all add: reader_skip kbd_reader)
  have "read_entry io 0 d 0x60 m = kbd_data_in (at Kbd) 0x60 m" "read_entry io 0 d 0x64 m = kbd_status_in (at Kbd) 0x64 m" for d
    using entry_answers(1) [OF assms(1), of "0x60"] entry_answers(1) [OF assms(1), of "0x64"] o
    by (simp_all add: answer_read_def r del: rev_append set_append)
  then show "cpu_inb io 0x60 m = (let (v, s) = kbd_read_data (kbdc m) in Inr (ucast v, kbdc_done m s))"
    "cpu_inb io 0x64 m = Inr (ucast (kbd_read_status (kbdc m)), m)"
    by (simp_all add: cpu_inb_def ioport_read_def kbd_data_in_def kbd_status_in_def Let_def split_beta)
qed


section \<open>From the key to the guest\<close>

text \<open>An interrupt controller that waits for the keyboard.\<close>

definition pic_waits :: "PicState2 \<Rightarrow> bool" where
  "pic_waits s \<longleftrightarrow> \<not> PicState2.time_drift_fix s \<and> irr (pic1 s) = 0 \<and> irr (pic0 s) = 0 \<and> isr (pic0 s) = 0 \<and> auto_eoi (pic0 s) = 0 \<and>
     \<not> bit (imr (pic0 s)) 1 \<and> \<not> bit (elcr (pic0 s)) 1 \<and> \<not> bit (last_irr (pic0 s)) 1"

lemma pic_key:
  assumes "pic_waits s"
  defines "s1 \<equiv> i8259_set_irq (i8259_set_irq s 1 1) 12 0"
  shows "parent_irq s1 = parent_irq s @ [1, 1]" "fst (pic_read_irq s1) = uint (irq_base (pic0 s)) + 1"
    "irr (pic1 (snd (pic_read_irq s1))) = 0" "irr (pic0 (snd (pic_read_irq s1))) = 0" "\<not> bit (elcr (pic0 (snd (pic_read_irq s1)))) 1"
proof -
  let ?p = "(pic0 s)\<lparr>irr := irq_bit 1, last_irr := last_irr (pic0 s) OR irq_bit 1\<rparr>"
  let ?q = "pic_set_irq1 (pic1 s) 4 0"
  have w: "\<not> PicState2.time_drift_fix s" "irr (pic1 s) = 0" "irr (pic0 s) = 0" "isr (pic0 s) = 0" "auto_eoi (pic0 s) = 0"
    "\<not> bit (imr (pic0 s)) 1" "\<not> bit (elcr (pic0 s)) 1" "\<not> bit (last_irr (pic0 s)) 1"
    using assms(1) by (simp_all add: pic_waits_def)
  have "i8259_set_irq s 1 1 = s\<lparr>pic0 := ?p, parent_irq := parent_irq s @ [1]\<rparr>"
    using w by (intro rising_edge) (simp_all add: get_irq_none)
  moreover have "pic_get_irq Master ?p = 1" using get_irq_single [of 1 ?p Master] w by simp
  ultimately have s1: "s1 = s\<lparr>pic0 := ?p, pic1 := ?q, parent_irq := parent_irq s @ [1, 1]\<rparr>" and q: "irr ?q = 0"
    using slave_low [of "i8259_set_irq s 1 1"] slave_low(2) [OF w(2)] w(2)
    by (simp_all add: s1_def Let_def qemu_set_irq_def)
  then show "parent_irq s1 = parent_irq s @ [1, 1]" by simp
  have "pic_read_irq s1 = (uint (irq_base (pic0 s1)) + int 1, s1\<lparr>pic0 := (pic0 s1)\<lparr>isr := irq_bit 1, irr := 0\<rparr>\<rparr>)"
    using w q by (intro acknowledge) (simp_all add: s1 get_irq_none)
  then show "fst (pic_read_irq s1) = uint (irq_base (pic0 s)) + 1" "irr (pic1 (snd (pic_read_irq s1))) = 0"
    "irr (pic0 (snd (pic_read_irq s1))) = 0" "\<not> bit (elcr (pic0 (snd (pic_read_irq s1)))) 1"
    using w q by (simp_all add: s1)
qed

lemma pic_release:
  assumes "irr (pic1 s) = 0" "irr (pic0 s) = 0" "\<not> bit (elcr (pic0 s)) 1"
  defines "s1 \<equiv> i8259_set_irq (i8259_set_irq s 1 0) 12 0"
  shows "irr (pic1 s1) = 0" "irr (pic0 s1) = 0" "\<not> bit (elcr (pic0 s1)) 1" "\<not> bit (last_irr (pic0 s1)) 1" "parent_irq s1 = parent_irq s"
proof -
  have f: "i8259_set_irq s 1 0 = s\<lparr>pic0 := (pic0 s)\<lparr>last_irr := last_irr (pic0 s) AND NOT (irq_bit 1)\<rparr>\<rparr>"
    using assms(1-3) by (intro falling_edge) simp_all
  have s1: "s1 = s\<lparr>pic0 := (pic0 s)\<lparr>last_irr := last_irr (pic0 s) AND NOT (irq_bit 1)\<rparr>, pic1 := pic_set_irq1 (pic1 s) 4 0\<rparr>"
    unfolding s1_def f using assms(1-3) by (subst slave_low) (simp_all add: get_irq_none)
  show "irr (pic1 s1) = 0" "irr (pic0 s1) = 0" "\<not> bit (elcr (pic0 s1)) 1" "\<not> bit (last_irr (pic0 s1)) 1" "parent_irq s1 = parent_irq s"
    using assms(1-3) slave_low(2) [OF assms(1)] by (simp_all add: s1 bit_simps)
qed

lemma ucast_byte: "ucast (ucast (b :: byte) :: u32) = b"
  by transfer simp

lemma and_bit_iff: "(w :: byte) AND 1 \<noteq> 0 \<longleftrightarrow> bit w 0" "(w :: byte) AND 32 \<noteq> 0 \<longleftrightarrow> bit w 5"
  using bit_iff_and_push_bit_not_eq_0 [of w 0] bit_iff_and_push_bit_not_eq_0 [of w 5] by simp_all

text \<open>
  C5. A key press reaches the guest. When the keyboard controller is idle with its interrupt enabled and the interrupt controllers
  wait, a key event raises the line of the CPU; the acknowledge returns the vector of line 1; the status port shows
  keyboard data; a read of port \<open>0x60\<close> returns the code of the key; and after it the controllers are ready for the next
  edge, with no request left. This holds with any further devices on the bus that stay away from the ports of the keyboard.
\<close>

theorem key_press_reaches_guest:
  fixes c :: int
  assumes ports: "port_run (pc_ports at @ others) no_ports = Inr io" "at Kbd \<noteq> 0"
      "\<forall>p \<in> set others. \<not> touches 0x60 p \<and> \<not> touches 0x64 p"
    and kbd: "i8042_reach (kbdc m)" "ring (kbd (kbdc m)) = []" "ring (mouse (kbdc m)) = []"
      "kb_mode (kbdc m) AND 0x01 \<noteq> 0" "kb_mode (kbdc m) AND 0x10 = 0" "translate (kbd (kbdc m)) = 1"
    and pic: "pic_waits (pics m)"
  defines "m1 \<equiv> pc_key m c" defines "m2 \<equiv> snd (pc_ack m1)"
  shows "parent_irq (pics m1) = parent_irq (pics m) @ [1, 1] \<and> fst (pc_ack m1) = uint (irq_base (pic0 (pics m))) + 1 \<and>
    (\<exists>st m3. cpu_inb io 0x64 m2 = Inr (st, m2) \<and> bit st 0 \<and> \<not> bit st 5 \<and>
       cpu_inb io 0x60 m2 = Inr (word_of_int c, m3) \<and> ring (kbd (kbdc m3)) = [] \<and>
       irr (pic0 (pics m3)) = 0 \<and> \<not> bit (last_irr (pic0 (pics m3))) 1 \<and> parent_irq (pics m3) = parent_irq (pics m2))"
proof -
  let ?s = "kbd_event (kbdc m) c"
  have ok: "i8042_ok (kbdc m)" "i8042_ok ?s" using kbd(1) reach_ok event_ok(1) by blast+
  note k = key_lines [OF ok(1) kbd(2-6), of c]
  have m1: "pics m1 = i8259_set_irq (i8259_set_irq (pics m) 1 1) 12 0" "kbdc m1 = ?s"
    by (simp_all add: m1_def pc_key_def kbdc_done_def k)
  note p = pic_key [OF pic, folded m1(1)]
  have m2: "pics m2 = snd (pic_read_irq (pics m1))" "kbdc m2 = ?s" "fst (pc_ack m1) = fst (pic_read_irq (pics m1))"
    by (simp_all add: m2_def pc_ack_def split_beta Let_def m1(2))
  have q: "irr (pic1 (pics m2)) = 0" "irr (pic0 (pics m2)) = 0" "\<not> bit (elcr (pic0 (pics m2))) 1" using p m2 by simp_all
  have e: "ring (kbd ?s) = [word_of_int c]" "ring (mouse ?s) = []" using k kbd(3) by simp_all
  note r = read_lines [OF ok(2) e]
  let ?m3 = "kbdc_done m2 (snd (kbd_read_data ?s))"
  note r1 = pic_release [OF q]
  note r2 = pic_release [OF r1(1-3)]
  have m3: "pics ?m3 = i8259_set_irq (i8259_set_irq (i8259_set_irq (i8259_set_irq (pics m2) 1 0) 12 0) 1 0) 12 0"
    by (simp add: kbdc_done_def m2 r)
  have st: "bit (kb_status ?s) 0" "\<not> bit (kb_status ?s) 5"
    using ok(2) e by (simp_all add: i8042_ok_def outputs_ok_def pend_def kbd_bits and_bit_iff)
  have "fst (kbd_read_data ?s) = ucast (word_of_int c :: byte)" using read_data_next(1) [OF ok(2)] e by simp
  then have "cpu_inb io 0x60 m2 = Inr (word_of_int c, ?m3)" "cpu_inb io 0x64 m2 = Inr (kb_status ?s, m2)"
    using kbd_ports [OF ports, of m2] by (simp_all add: m2 Let_def split_beta kbd_read_status_def ucast_byte)
  then show ?thesis using p m2 st r r2 r1(5) m3 by auto
qed


definition ex_pc :: pc where
  "ex_pc = (case pc_init1 True of
     Inr m \<Rightarrow> m\<lparr>kbdc := kbd_write_data (kbd_write_command (i8042_reset (kbdc m)) KBD_CCMD_WRITE_MODE) 0x41\<rparr>)"

lemma pc_init1_ok: "pc_init1 pci = Inr \<lparr>pics = i8259_init False, pc_pit = pit_init False, kbdc = i8042_initfn, vm_clock = 0,
    ioapic = (if pci then Some [] else None)\<rparr>"
  by (simp add: pc_init1_def isa_reserve_irq_def isa_init_irq_def isa_qdev_init_def)

lemma ex_pc_parts: "kbdc ex_pc = kbd_write_data (kbd_write_command (i8042_reset i8042_initfn) KBD_CCMD_WRITE_MODE) 0x41"
  "pics ex_pc = i8259_init False"
  by (simp_all add: ex_pc_def pc_init1_ok)

lemma pc_ports_accepted: "\<exists>io. port_run (pc_ports (\<lambda>_. 1)) no_ports = Inr io"
proof -
  have "(case port_run (pc_ports (\<lambda>_. 1)) no_ports of Inl _ \<Rightarrow> False | Inr _ \<Rightarrow> True)"
    by (simp add: pc_ports_def pic_init1_def register_ioport_read_def register_ioport_write_def ioport_bsize_def port_loop.simps
        MAX_IOPORTS_def read_step_def write_step_def set_opaque_def no_ports_def)
  then show ?thesis by (simp split: sum.splits)
qed

theorem key_press_reaches_guest_witness:
  "\<exists>io st m3. port_run (pc_ports (\<lambda>_. 1)) no_ports = Inr io \<and> fst (pc_ack (pc_key ex_pc 0x1e)) = 1 \<and>
     cpu_inb io 0x64 (snd (pc_ack (pc_key ex_pc 0x1e))) = Inr (st, snd (pc_ack (pc_key ex_pc 0x1e))) \<and> bit st 0 \<and>
     cpu_inb io 0x60 (snd (pc_ack (pc_key ex_pc 0x1e))) = Inr (0x1e, m3)"
proof -
  obtain io where io: "port_run (pc_ports (\<lambda>_. 1)) no_ports = Inr io" using pc_ports_accepted by blast
  have "i8042_reach (kbdc ex_pc)" unfolding ex_pc_parts
    using created [of 0] by (intro data_write command reset) (simp add: i8042_initfn_def)
  moreover have "ring (kbd (kbdc ex_pc)) = []" "ring (mouse (kbdc ex_pc)) = []" unfolding ring_Nil_iff by code_simp+
  moreover have "kb_mode (kbdc ex_pc) = 0x41" "translate (kbd (kbdc ex_pc)) = 1" by code_simp+
  moreover have "pic_waits (pics ex_pc)" by (simp add: ex_pc_parts pic_waits_def i8259_init_def zero_pic_def)
  moreover have "irq_base (pic0 (pics ex_pc)) = 0" by (simp add: ex_pc_parts i8259_init_def zero_pic_def)
  ultimately show ?thesis
    using key_press_reaches_guest [of "\<lambda>_. 1" "[]" io ex_pc "0x1e"] io by simp metis
qed

end
