(* ===== verification/PCSnapshot.thy ===== *)
theory PCSnapshot
  imports PC
begin

text \<open>
  The snapshot of the machine of \<open>PC\<close>: the sections its devices register, in the order of their creation, and that loading
  a snapshot into another machine gives it the state of the first.
\<close>

section \<open>The devices in the machine\<close>

text \<open>A description with the place of its device in the machine.\<close>

definition pic0_dev :: "pc \<Rightarrow> pic_dev" where "pic0_dev m = \<lparr>dev_pic = pic0 (pics m), kernel_pic = None\<rparr>"
definition pic1_dev :: "pc \<Rightarrow> pic_dev" where "pic1_dev m = \<lparr>dev_pic = pic1 (pics m), kernel_pic = None\<rparr>"
definition set_pic0_dev :: "pic_dev \<Rightarrow> pc \<Rightarrow> pc" where "set_pic0_dev d m = m\<lparr>pics := (pics m)\<lparr>pic0 := dev_pic d\<rparr>\<rparr>"
definition set_pic1_dev :: "pic_dev \<Rightarrow> pc \<Rightarrow> pc" where "set_pic1_dev d m = m\<lparr>pics := (pics m)\<lparr>pic1 := dev_pic d\<rparr>\<rparr>"
definition pit_dev :: "pc \<Rightarrow> PITState" where "pit_dev m = pit (pc_pit m)"
definition set_pit_dev :: "PITState \<Rightarrow> pc \<Rightarrow> pc" where "set_pit_dev p m = m\<lparr>pc_pit := (pc_pit m)\<lparr>pit := p\<rparr>\<rparr>"
definition kbd_dev :: "pc \<Rightarrow> PS2KbdState" where "kbd_dev m = kbd (kbdc m)"
definition set_kbd_dev :: "PS2KbdState \<Rightarrow> pc \<Rightarrow> pc" where "set_kbd_dev k m = m\<lparr>kbdc := (kbdc m)\<lparr>kbd := k\<rparr>\<rparr>"
definition mouse_dev :: "pc \<Rightarrow> PS2MouseState" where "mouse_dev m = mouse (kbdc m)"
definition set_mouse_dev :: "PS2MouseState \<Rightarrow> pc \<Rightarrow> pc" where "set_mouse_dev k m = m\<lparr>kbdc := (kbdc m)\<lparr>mouse := k\<rparr>\<rparr>"
definition set_kbdc :: "KBDState \<Rightarrow> pc \<Rightarrow> pc" where "set_kbdc s m = m\<lparr>kbdc := s\<rparr>"

lemmas dev_defs = pic0_dev_def pic1_dev_def set_pic0_dev_def set_pic1_dev_def pit_dev_def set_pit_dev_def kbd_dev_def
  set_kbd_dev_def mouse_dev_def set_mouse_dev_def set_kbdc_def

text \<open>The registrations, in the order of \<open>pc_init1\<close>; the controller's own section follows those of the devices behind it.\<close>

definition pc_savevm :: "(pc, FILE) savevm" where
  "pc_savevm =
     (let vm = \<lparr>savevm_handlers = [], global_section_id = 0\<rparr>;
          vm = vmstate_register vm 0x20 0 vmstate_pic pic0_dev set_pic0_dev 0;
          vm = vmstate_register vm 0xa0 0 vmstate_pic pic1_dev set_pic1_dev 1;
          vm = vmstate_register vm 0x40 1 vmstate_pit pit_dev set_pit_dev 2;
          vm = vmstate_register vm 0 2 vmstate_ps2_keyboard kbd_dev set_kbd_dev 3;
          vm = vmstate_register vm 0 3 vmstate_ps2_mouse mouse_dev set_mouse_dev 4
      in vmstate_register vm (- 1) 4 vmstate_kbd_isa kbdc set_kbdc 5)"

section \<open>The sections\<close>

definition kbdc_codecs :: "KBDState codec list" where
  "kbdc_codecs =
     [cp_field (\<lambda>v. [v]) kb_write_cmd (\<lambda>v s. s\<lparr>kb_write_cmd := v\<rparr>), cp_field (\<lambda>v. [v]) kb_status (\<lambda>v s. s\<lparr>kb_status := v\<rparr>),
      cp_field (\<lambda>v. [v]) kb_mode (\<lambda>v s. s\<lparr>kb_mode := v\<rparr>), cp_field (\<lambda>v. [v]) kb_pending (\<lambda>v s. s\<lparr>kb_pending := v\<rparr>)]"

lemma kbdc_codec:
  "value_codec (struct_get vmstate_kbd) (struct_put vmstate_kbd) (enc_all kbdc_codecs) (cp_all kbdc_codecs) (\<lambda>_ _. True)"
proof (rule struct_codec)
  show "fields_codec (\<lambda>_ _. True) (vmsd_version vmstate_kbd) (vmsd_fields vmstate_kbd) kbdc_codecs"
    unfolding fields_codec_def vmstate_kbd_def kbdc_codecs_def by (simp add: any_field_codecs)
qed (simp add: plain_vmsd_def vmstate_kbd_def)

lemma kbd_isa_fields: "fields_codec (\<lambda>_ _. True) 3 (vmsd_fields vmstate_kbd_isa) [(enc_all kbdc_codecs, cp_all kbdc_codecs)]"
proof -
  have "field_codec (\<lambda>_ _. True) (VMSTATE_STRUCT ''kbd'' 0 vmstate_kbd (\<lambda>s. s) (\<lambda>v s. v)) (enc_all kbdc_codecs) (cp_all kbdc_codecs)"
    unfolding VMSTATE_STRUCT_def by (rule value_codec.single_codec [OF kbdc_codec]) simp_all
  then show ?thesis by (simp add: fields_codec_def vmstate_kbd_isa_def)
qed

lemma cp_one: "cp_all [c] s t = snd c s t"
  by (simp add: cp_all_def)

lemma kbdc_copy: "cp_all kbdc_codecs s t = t\<lparr>kb_write_cmd := kb_write_cmd s, kb_status := kb_status s, kb_mode := kb_mode s, kb_pending := kb_pending s\<rparr>"
  by (simp add: cp_all_def kbdc_codecs_def cp_field_def)

text \<open>What a machine and the one that takes its snapshot must have in common.\<close>

definition pc_pair :: "pc \<Rightarrow> pc \<Rightarrow> bool" where
  "pc_pair m t \<longleftrightarrow> pit_pair (pit_dev m) (pit_dev t) \<and> ring_sizes (kbd_dev m) (kbd_dev t) \<and> ring_sizes (mouse_dev m) (mouse_dev t)"

definition pc_codecs :: "pc codec list" where
  "pc_codecs =
     [(\<lambda>m. enc_all pic_codecs (pic0_dev m), \<lambda>m t. set_pic0_dev (cp_all pic_codecs (pic0_dev m) (pic0_dev t)) t),
      (\<lambda>m. enc_all pic_codecs (pic1_dev m), \<lambda>m t. set_pic1_dev (cp_all pic_codecs (pic1_dev m) (pic1_dev t)) t),
      (\<lambda>m. enc_all pit_codecs (pit_dev m), \<lambda>m t. set_pit_dev (cp_all pit_codecs (pit_dev m) (pit_dev t)) t),
      (\<lambda>m. enc_all kbd_codecs (kbd_dev m), \<lambda>m t. set_kbd_dev (cp_all kbd_codecs (kbd_dev m) (kbd_dev t)) t),
      (\<lambda>m. enc_all mouse_codecs (mouse_dev m), \<lambda>m t. set_mouse_dev (cp_all mouse_codecs (mouse_dev m) (mouse_dev t)) t),
      (\<lambda>m. enc_all [(enc_all kbdc_codecs, cp_all kbdc_codecs)] (kbdc m),
       \<lambda>m t. set_kbdc (cp_all [(enc_all kbdc_codecs, cp_all kbdc_codecs)] (kbdc m) (kbdc t)) t)]"

lemma pit_pair_copy: "pit_pair p q \<Longrightarrow> pit_pair p (cp_all pit_codecs p q)"
  by (simp add: pit_pair_def cp_all_def pit_codecs_def cp_field_def set_timer0_def)

lemma ps2_sizes_copy:
  "ring_sizes k l \<Longrightarrow> ring_sizes k (cp_all kbd_codecs k l)" "ring_sizes m n \<Longrightarrow> ring_sizes m (cp_all mouse_codecs m n)"
  by (simp_all add: cp_all_def kbd_codecs_def mouse_codecs_def cp_field_def cp_common_def ring_sizes_def common_codecs_def)

text \<open>A registration adds a section with the codec of its description.\<close>

lemma register_codec:
  fixes vmsd :: "('s, FILE) VMStateDescription"
  assumes hs: "list_all2 (\<lambda>se c. entry_codec RM se (fst c) (snd c)) (savevm_handlers vm) cs"
    and fields: "fields_codec R (vmsd_version vmsd) (vmsd_fields vmsd) fs"
    and vers: "minimum_version_id vmsd \<le> vmsd_version vmsd" "minimum_version_id_old vmsd \<le> vmsd_version vmsd"
      "pre_load vmsd = None" "post_save vmsd = None" "- (2 ^ 31) \<le> vmsd_version vmsd" "vmsd_version vmsd < 2 ^ 31"
    and name: "length (vmsd_name vmsd) < 256" "0 \<notin> set (map of_char (vmsd_name vmsd) :: byte list)"
    and inst: "n = (if inst = - 1 then calculate_new_instance_id (savevm_handlers vm) (map of_char (vmsd_name vmsd)) else inst)"
      "0 \<le> n" "n < 2 ^ 31"
    and RM: "\<And>m t. RM m t \<Longrightarrow> R (rd m) (rd t)" "\<And>m t. RM m t \<Longrightarrow> RM m (wr (cp_all fs (rd m) (rd t)) t)"
    and hooks: "\<And>m t. RM m t \<Longrightarrow> after_save vmsd (rd m) = rd m"
      "\<And>m t. RM m t \<Longrightarrow> after_load vmsd (cp_all fs (rd m) (rd t)) = (0, cp_all fs (rd m) (rd t))"
    and lens: "\<And>m. wr (rd m) m = m"
  shows "list_all2 (\<lambda>se c. entry_codec RM se (fst c) (snd c)) (savevm_handlers (vmstate_register vm inst vid vmsd rd wr op))
    (cs @ [(\<lambda>m. enc_all fs (rd m), \<lambda>m t. wr (cp_all fs (rd m) (rd t)) t)])"
proof -
  obtain se where se: "savevm_handlers (vmstate_register vm inst vid vmsd rd wr op) = savevm_handlers vm @ [se]"
    "save_live_state se = None" "set_params se = None" "save_state se = Some (vmsd_save vmsd rd wr)"
    "load_state se = vmsd_load vmsd rd wr" "se_version_id se = vmsd_version vmsd" "idstr se = map of_char (vmsd_name vmsd)"
    "instance_id se = n"
    using name(1) inst(1) by (simp add: vmstate_register_def Let_def)
  have "entry_codec RM se (\<lambda>m. enc_all fs (rd m)) (\<lambda>m t. wr (cp_all fs (rd m) (rd t)) t)"
  proof (rule vmsd_entry_codec [OF fields vers(1-4) se(2-6)])
    show "length (idstr se) < 256" "0 \<notin> set (idstr se)" "- (2 ^ 31) \<le> instance_id se" "instance_id se < 2 ^ 31"
      using name inst(2,3) by (simp_all add: se(7,8))
  qed (use vers RM hooks lens in blast)+
  then show ?thesis unfolding se(1) by (intro list_all2_appendI hs) simp
qed

lemma pc_sections: "map (\<lambda>se. (idstr se, instance_id se)) (savevm_handlers pc_savevm) =
    [(map of_char ''i8259'', 0x20), (map of_char ''i8259'', 0xa0), (map of_char ''i8254'', 0x40), (map of_char ''ps2kbd'', 0),
     (map of_char ''ps2mouse'', 0), (map of_char ''pckbd'', 0)]"
  by (simp add: pc_savevm_def Let_def vmstate_register_def vmstate_pic_def vmstate_pit_def vmstate_ps2_keyboard_def
      vmstate_ps2_mouse_def vmstate_kbd_isa_def calculate_new_instance_id_def)

abbreviation sections :: "('m \<Rightarrow> 'm \<Rightarrow> bool) \<Rightarrow> ('m, FILE) savevm \<Rightarrow> 'm codec list \<Rightarrow> bool" where
  "sections RM vm cs \<equiv> list_all2 (\<lambda>se c. entry_codec RM se (fst c) (snd c)) (savevm_handlers vm) cs"

lemma pic_hooks:
  "kernel_pic d = None \<Longrightarrow> after_save vmstate_pic d = d" "kernel_pic d = None \<Longrightarrow> after_load vmstate_pic d = (0, d)"
  by (simp_all add: after_save_def after_load_def pic_pre_save_def pic_post_load_def)

lemma pic_sections:
  assumes "sections pc_pair vm cs" "0 \<le> i" "i < 2 ^ 31"
  shows "sections pc_pair (vmstate_register vm i v vmstate_pic pic0_dev set_pic0_dev x)
      (cs @ [(\<lambda>m. enc_all pic_codecs (pic0_dev m), \<lambda>m t. set_pic0_dev (cp_all pic_codecs (pic0_dev m) (pic0_dev t)) t)])"
    "sections pc_pair (vmstate_register vm i v vmstate_pic pic1_dev set_pic1_dev x)
      (cs @ [(\<lambda>m. enc_all pic_codecs (pic1_dev m), \<lambda>m t. set_pic1_dev (cp_all pic_codecs (pic1_dev m) (pic1_dev t)) t)])"
proof -
  have n: "vmsd_name (vmstate_pic :: (pic_dev, FILE) VMStateDescription) = ''i8259''" by (simp add: vmstate_pic_def)
  show "sections pc_pair (vmstate_register vm i v vmstate_pic pic0_dev set_pic0_dev x)
      (cs @ [(\<lambda>m. enc_all pic_codecs (pic0_dev m), \<lambda>m t. set_pic0_dev (cp_all pic_codecs (pic0_dev m) (pic0_dev t)) t)])"
    using assms(2,3) vmstate_pic_codec
    by (intro register_codec [OF assms(1), where R = "\<lambda>_ _. True" and n = i])
      (simp_all add: n pic_hooks pic_copy dev_defs pc_pair_def)
  show "sections pc_pair (vmstate_register vm i v vmstate_pic pic1_dev set_pic1_dev x)
      (cs @ [(\<lambda>m. enc_all pic_codecs (pic1_dev m), \<lambda>m t. set_pic1_dev (cp_all pic_codecs (pic1_dev m) (pic1_dev t)) t)])"
    using assms(2,3) vmstate_pic_codec
    by (intro register_codec [OF assms(1), where R = "\<lambda>_ _. True" and n = i])
      (simp_all add: n pic_hooks pic_copy dev_defs pc_pair_def)
qed

lemma kbd_hooks:
  "after_save vmstate_ps2_keyboard k = k" "after_load vmstate_ps2_keyboard k = (0, k)"
  by (simp_all add: after_save_def after_load_def vmstate_ps2_keyboard_def ps2_kbd_post_load_def)

lemma plain_hooks:
  "pre_save v = None \<Longrightarrow> after_save v s = s" "post_load v = None \<Longrightarrow> after_load v s = (0, s)"
  by (simp_all add: after_save_def after_load_def)

lemma pit_section:
  assumes "sections pc_pair vm cs" "0 \<le> i" "i < 2 ^ 31"
  shows "sections pc_pair (vmstate_register vm i v vmstate_pit pit_dev set_pit_dev x)
      (cs @ [(\<lambda>m. enc_all pit_codecs (pit_dev m), \<lambda>m t. set_pit_dev (cp_all pit_codecs (pit_dev m) (pit_dev t)) t)])"
proof -
  have n: "vmsd_name (vmstate_pit :: (PITState, FILE) VMStateDescription) = ''i8254''" by (simp add: vmstate_pit_def)
  show ?thesis using assms(2,3) pit_fields pit_pair_copy
    by (intro register_codec [OF assms(1), where R = pit_pair and n = i]) (simp_all add: n plain_hooks pc_pair_def dev_defs)
qed

lemma ps2_sections:
  assumes "sections pc_pair vm cs" "0 \<le> i" "i < 2 ^ 31"
  shows "sections pc_pair (vmstate_register vm i v vmstate_ps2_keyboard kbd_dev set_kbd_dev x)
      (cs @ [(\<lambda>m. enc_all kbd_codecs (kbd_dev m), \<lambda>m t. set_kbd_dev (cp_all kbd_codecs (kbd_dev m) (kbd_dev t)) t)])"
    "sections pc_pair (vmstate_register vm i v vmstate_ps2_mouse mouse_dev set_mouse_dev x)
      (cs @ [(\<lambda>m. enc_all mouse_codecs (mouse_dev m), \<lambda>m t. set_mouse_dev (cp_all mouse_codecs (mouse_dev m) (mouse_dev t)) t)])"
proof -
  let ?k = "vmstate_ps2_keyboard :: (PS2KbdState, FILE) VMStateDescription"
  let ?m = "vmstate_ps2_mouse :: (PS2MouseState, FILE) VMStateDescription"
  have k: "vmsd_name ?k = ''ps2kbd''" "vmsd_version ?k = 3" "minimum_version_id ?k = 2" "minimum_version_id_old ?k = 2"
    "pre_load ?k = None" "post_save ?k = None" by (simp_all add: vmstate_ps2_keyboard_def)
  have m: "vmsd_name ?m = ''ps2mouse''" "vmsd_version ?m = 2" "minimum_version_id ?m = 2" "minimum_version_id_old ?m = 2"
    "pre_load ?m = None" "post_save ?m = None" "pre_save ?m = None" "post_load ?m = None" by (simp_all add: vmstate_ps2_mouse_def)
  show "sections pc_pair (vmstate_register vm i v vmstate_ps2_keyboard kbd_dev set_kbd_dev x)
      (cs @ [(\<lambda>m. enc_all kbd_codecs (kbd_dev m), \<lambda>m t. set_kbd_dev (cp_all kbd_codecs (kbd_dev m) (kbd_dev t)) t)])"
    using assms(2,3) kbd_fields ps2_sizes_copy(1)
    by (intro register_codec [OF assms(1), where R = ring_sizes and n = i]) (simp_all add: k kbd_hooks pc_pair_def dev_defs)
  show "sections pc_pair (vmstate_register vm i v vmstate_ps2_mouse mouse_dev set_mouse_dev x)
      (cs @ [(\<lambda>m. enc_all mouse_codecs (mouse_dev m), \<lambda>m t. set_mouse_dev (cp_all mouse_codecs (mouse_dev m) (mouse_dev t)) t)])"
    using assms(2,3) mouse_fields ps2_sizes_copy(2)
    by (intro register_codec [OF assms(1), where R = ring_sizes and n = i]) (simp_all add: m plain_hooks pc_pair_def dev_defs)
qed

lemma kbdc_section:
  assumes "sections pc_pair vm cs" "n = (if i = - 1 then calculate_new_instance_id (savevm_handlers vm) (map of_char ''pckbd'') else i)"
    "0 \<le> n" "n < 2 ^ 31"
  shows "sections pc_pair (vmstate_register vm i v vmstate_kbd_isa kbdc set_kbdc x)
      (cs @ [(\<lambda>m. enc_all [(enc_all kbdc_codecs, cp_all kbdc_codecs)] (kbdc m),
              \<lambda>m t. set_kbdc (cp_all [(enc_all kbdc_codecs, cp_all kbdc_codecs)] (kbdc m) (kbdc t)) t)])"
proof -
  let ?k = "vmstate_kbd_isa :: (KBDState, FILE) VMStateDescription"
  have k: "vmsd_name ?k = ''pckbd''" "vmsd_version ?k = 3" "minimum_version_id ?k = 3" "minimum_version_id_old ?k = 3"
    "pre_load ?k = None" "post_save ?k = None" "pre_save ?k = None" "post_load ?k = None" by (simp_all add: vmstate_kbd_isa_def)
  show ?thesis using kbd_isa_fields
  proof (intro register_codec [OF assms(1), where R = "\<lambda>_ _. True" and n = n])
    show "n = (if i = - 1 then calculate_new_instance_id (savevm_handlers vm) (map of_char (vmsd_name ?k)) else i)"
      using assms(2) unfolding k .
  qed (use assms(3,4) in \<open>simp_all add: k plain_hooks pc_pair_def dev_defs cp_one kbdc_copy\<close>)
qed

lemma pc_entries: "sections pc_pair pc_savevm pc_codecs"
proof -
  let ?vm1 = "vmstate_register \<lparr>savevm_handlers = [], global_section_id = 0\<rparr> 0x20 0 vmstate_pic pic0_dev set_pic0_dev 0"
  let ?vm2 = "vmstate_register ?vm1 0xa0 0 vmstate_pic pic1_dev set_pic1_dev 1"
  let ?vm3 = "vmstate_register ?vm2 0x40 1 vmstate_pit pit_dev set_pit_dev 2"
  let ?vm4 = "vmstate_register ?vm3 0 2 vmstate_ps2_keyboard kbd_dev set_kbd_dev 3"
  let ?vm5 = "vmstate_register ?vm4 0 3 vmstate_ps2_mouse mouse_dev set_mouse_dev 4"
  have "sections pc_pair ?vm1 (take 1 pc_codecs)" using pic_sections(1) [of _ "[]"] by (simp add: pc_codecs_def)
  then have "sections pc_pair ?vm2 (take 2 pc_codecs)" using pic_sections(2) [of ?vm1 "take 1 pc_codecs" "0xa0" 0 1] by (simp add: pc_codecs_def)
  then have "sections pc_pair ?vm3 (take 3 pc_codecs)" using pit_section [of ?vm2 "take 2 pc_codecs" "0x40" 1 2] by (simp add: pc_codecs_def)
  then have "sections pc_pair ?vm4 (take 4 pc_codecs)" using ps2_sections(1) [of ?vm3 "take 3 pc_codecs" 0 2 3] by (simp add: pc_codecs_def)
  then have "sections pc_pair ?vm5 (take 5 pc_codecs)" using ps2_sections(2) [of ?vm4 "take 4 pc_codecs" 0 3 4] by (simp add: pc_codecs_def)
  moreover have "calculate_new_instance_id (savevm_handlers ?vm5) (map of_char ''pckbd'') = 0"
    by (simp add: Let_def vmstate_register_def vmstate_pic_def vmstate_pit_def vmstate_ps2_keyboard_def
      vmstate_ps2_mouse_def calculate_new_instance_id_def)
  ultimately have "sections pc_pair (vmstate_register ?vm5 (- 1) 4 vmstate_kbd_isa kbdc set_kbdc 5) pc_codecs"
    using kbdc_section [of ?vm5 "take 5 pc_codecs" 0 "- 1"] by (simp add: pc_codecs_def)
  then show ?thesis by (simp add: pc_savevm_def Let_def)
qed

section \<open>The devices keep to their types\<close>

definition typed :: "KBDState \<Rightarrow> bool" where
  "typed s \<longleftrightarrow> kbd_ok (kbd s) \<and> mouse_ok (mouse s)"

lemma typed_puts:
  "typed s \<Longrightarrow> kbd_ok k \<Longrightarrow> typed (put_kbd s k)" "typed s \<Longrightarrow> mouse_ok m \<Longrightarrow> typed (put_mouse s m)"
  by (simp_all add: typed_def kbd_ok_def mouse_ok_def)

lemma typed_parts: "typed s \<Longrightarrow> kbd_ok (kbd s)" "typed s \<Longrightarrow> mouse_ok (mouse s)"
  by (simp_all add: typed_def)

lemma typed_fields:
  "typed s \<Longrightarrow> typed (s\<lparr>kb_write_cmd := c\<rparr>)" "typed s \<Longrightarrow> typed (s\<lparr>a20 := g\<rparr>)" "typed s \<Longrightarrow> typed (s\<lparr>reset_requests := n\<rparr>)"
  "typed s \<Longrightarrow> typed (s\<lparr>kb_status := c\<rparr>)" "typed s \<Longrightarrow> typed (s\<lparr>kb_mode := c\<rparr>)" "typed s \<Longrightarrow> typed (kbd_update_irq s)"
  "typed s \<Longrightarrow> typed (s\<lparr>kbd := ps2_keyboard_set_translation (kbd s) (of_bool b)\<rparr>)"
  by (auto simp: typed_def ps2_keyboard_set_translation_def kbd_ok_def)

lemma typed_queue: "typed s \<Longrightarrow> typed (kbd_queue s v aux)"
  by (simp add: kbd_queue_def typed_puts kbd_ok_queue mouse_ok_queue typed_parts)

lemma typed_read: "typed s \<Longrightarrow> typed (snd (kbd_read_data s))"
proof -
  assume s: "typed s"
  have "kbd_ok (snd (ps2_read_data (kbd s)))" "mouse_ok (snd (ps2_read_data (mouse s)))"
    using ps2_exec_ok [OF typed_parts [OF s], of KbdRead] ps2_exec_ok [OF typed_parts [OF s], of MouseRead] by simp_all
  then show ?thesis using s by (simp add: kbd_read_data_def split_beta typed_puts)
qed

lemma typed_write: "typed s \<Longrightarrow> typed (kbd_write_command s v)" "typed s \<Longrightarrow> typed (kbd_write_data s v)"
proof -
  assume s: "typed s"
  then show "typed (kbd_write_command s v)"
    unfolding kbd_write_command_def by (intro if_cases [where P = typed] typed_queue typed_fields)
  show "typed (kbd_write_data s v)"
    unfolding kbd_write_data_def Let_def KBDState.select_convs KBDState.update_convs using s
    by (intro if_cases [where P = typed] typed_queue typed_fields(1-3) typed_puts kbd_ok_write mouse_ok_write typed_parts)
      (auto simp: typed_def ps2_keyboard_set_translation_def kbd_ok_def)
qed

lemma reach_typed: "i8042_reach s \<Longrightarrow> typed s"
proof (induction rule: i8042_reach.induct)
  case (created k)
  then show ?case
    by (simp add: typed_def i8042_initfn_def kbd_ok_def mouse_ok_def ps2_kbd_init_def ps2_mouse_init_def queue_wf_def)
next
  case (reset s)
  have "kbd_ok (ps2_kbd_reset (kbd s))" "mouse_ok (ps2_mouse_reset (mouse s))"
    using ps2_exec_ok [OF typed_parts [OF reset.IH], of KbdReset] ps2_exec_ok [OF typed_parts [OF reset.IH], of MouseReset] by simp_all
  then show ?case using reset.IH by (simp add: i8042_reset_def Let_def kbd_reset_def typed_fields typed_puts)
next
  case (key s c)
  then show ?case by (simp add: kbd_event_def typed_puts kbd_ok_keycode typed_parts)
next
  case (move s dx dy dz bs)
  then show ?case by (simp add: mouse_event_def typed_puts mouse_ok_event typed_parts)
qed (simp_all add: typed_write typed_read kbd_mm_writeb_def kbd_mm_readb_def split_beta)

section \<open>Properties\<close>

lemma pc_copy:
  assumes m: "pics_wf (pics m)" "pics_wf (pics t)" and pair: "pc_pair m t"
    and k: "typed (kbdc m)" "deltas_fit (mouse (kbdc m))" "irq_calls (kbd (kbdc m)) = irq_calls (kbd (kbdc t))"
      "irq_calls (mouse (kbdc m)) = irq_calls (mouse (kbdc t))"
  defines "t' \<equiv> cp_all pc_codecs m t"
  shows "pic0 (pics t') = pic0 (pics m)" "pic1 (pics t') = pic1 (pics m)" "kbd (kbdc t') = kbd (kbdc m)" "mouse (kbdc t') = mouse (kbdc m)"
    "kb_write_cmd (kbdc t') = kb_write_cmd (kbdc m)" "kb_status (kbdc t') = kb_status (kbdc m)"
    "kb_mode (kbdc t') = kb_mode (kbdc m)" "kb_pending (kbdc t') = kb_pending (kbdc m)"
    "pit (pc_pit t') = cp_all pit_codecs (pit (pc_pit m)) (pit (pc_pit t))"
proof -
  have e: "elcr_mask (pic0 (pics m)) = elcr_mask (pic0 (pics t))" "elcr_mask (pic1 (pics m)) = elcr_mask (pic1 (pics t))"
    using m by (simp_all add: pics_wf_def)
  have u: "p\<lparr>elcr_mask := x\<rparr> = p" if "elcr_mask p = x" for p x using that by simp
  have v: "(s\<lparr>irq_calls := x\<rparr>) = s" if "irq_calls s = x" for s :: "'a PS2State_scheme" and x using that by simp
  note c = kbd_copy [OF typed_parts(1) [OF k(1)]] mouse_copy [OF typed_parts(2) [OF k(1)] k(2)]
  show "pic0 (pics t') = pic0 (pics m)" "pic1 (pics t') = pic1 (pics m)" "kbd (kbdc t') = kbd (kbdc m)" "mouse (kbdc t') = mouse (kbdc m)"
    "kb_write_cmd (kbdc t') = kb_write_cmd (kbdc m)" "kb_status (kbdc t') = kb_status (kbdc m)"
    "kb_mode (kbdc t') = kb_mode (kbdc m)" "kb_pending (kbdc t') = kb_pending (kbdc m)"
    "pit (pc_pit t') = cp_all pit_codecs (pit (pc_pit m)) (pit (pc_pit t))"
    unfolding t'_def by (simp_all add: cp_all_def [where cs = pc_codecs] pc_codecs_def dev_defs pic_copy kbdc_copy cp_one c k(3,4) v u e)
qed


definition ex_saved :: pc where
  "ex_saved = ex_pc\<lparr>pc_pit := ex_pit, kbdc := kbd_event (kbdc ex_pc) 0x1e\<rparr>"


end
