(* ===== verification/RTC.thy ===== *)
theory RTC
  imports I8254
begin

text \<open>
  The real time clock of the PC, \<^verbatim>\<open>hw/mc146818rtc.c\<close>: the registers in CMOS memory, the calendar it keeps, the periodic, alarm and update
  interrupts, and the re-injection of interrupts the guest missed. The interrupt line is the list of the levels set on it.
  What the clock asks of the rest of the machine is in an environment: the current time, whether the HPET has taken
  over the interrupts, whether the APIC delivered the interrupt that was just raised, and the option of re-injection.
  Fields of \<^verbatim>\<open>struct tm\<close> are C integers; they stay far from the limits of the type, since they come from registers of 8 bits.
\<close>

unbundle bit_operations_syntax

section \<open>Registers\<close>

definition RTC_REINJECT_ON_ACK_COUNT :: u16 where "RTC_REINJECT_ON_ACK_COUNT = 20"
definition RTC_SECONDS :: nat where "RTC_SECONDS = 0"
definition RTC_SECONDS_ALARM :: nat where "RTC_SECONDS_ALARM = 1"
definition RTC_MINUTES :: nat where "RTC_MINUTES = 2"
definition RTC_MINUTES_ALARM :: nat where "RTC_MINUTES_ALARM = 3"
definition RTC_HOURS :: nat where "RTC_HOURS = 4"
definition RTC_HOURS_ALARM :: nat where "RTC_HOURS_ALARM = 5"
definition RTC_DAY_OF_WEEK :: nat where "RTC_DAY_OF_WEEK = 6"
definition RTC_DAY_OF_MONTH :: nat where "RTC_DAY_OF_MONTH = 7"
definition RTC_MONTH :: nat where "RTC_MONTH = 8"
definition RTC_YEAR :: nat where "RTC_YEAR = 9"
definition RTC_REG_A :: nat where "RTC_REG_A = 10"
definition RTC_REG_B :: nat where "RTC_REG_B = 11"
definition RTC_REG_C :: nat where "RTC_REG_C = 12"
definition RTC_REG_D :: nat where "RTC_REG_D = 13"
definition REG_A_UIP :: byte where "REG_A_UIP = 0x80"
definition REG_B_SET :: byte where "REG_B_SET = 0x80"
definition REG_B_PIE :: byte where "REG_B_PIE = 0x40"
definition REG_B_AIE :: byte where "REG_B_AIE = 0x20"
definition REG_B_UIE :: byte where "REG_B_UIE = 0x10"
definition REG_B_SQWE :: byte where "REG_B_SQWE = 0x08"
definition REG_B_DM :: byte where "REG_B_DM = 0x04"
definition REG_C_UF :: byte where "REG_C_UF = 0x10"
definition REG_C_IRQF :: byte where "REG_C_IRQF = 0x80"
abbreviation REG_C_PF :: byte where "REG_C_PF \<equiv> 0x40"
abbreviation REG_C_AF :: byte where "REG_C_AF \<equiv> 0x20"
abbreviation REG_IBM_CENTURY_BYTE :: int where "REG_IBM_CENTURY_BYTE \<equiv> 0x32"
abbreviation REG_IBM_PS2_CENTURY_BYTE :: int where "REG_IBM_PS2_CENTURY_BYTE \<equiv> 0x37"

lemmas rtc_regs = RTC_SECONDS_def RTC_SECONDS_ALARM_def RTC_MINUTES_def RTC_MINUTES_ALARM_def RTC_HOURS_def RTC_HOURS_ALARM_def
  RTC_DAY_OF_WEEK_def RTC_DAY_OF_MONTH_def RTC_MONTH_def RTC_YEAR_def RTC_REG_A_def RTC_REG_B_def RTC_REG_C_def RTC_REG_D_def
lemmas rtc_bits = REG_A_UIP_def REG_B_SET_def REG_B_PIE_def REG_B_AIE_def REG_B_UIE_def REG_B_SQWE_def REG_B_DM_def
  REG_C_UF_def REG_C_IRQF_def

section \<open>State\<close>

record tm =
  tm_sec :: int
  tm_min :: int
  tm_hour :: int
  tm_wday :: int
  tm_mday :: int
  tm_mon :: int
  tm_year :: int

record RTCState =
  cmos_data :: "byte list"
  cmos_index :: byte
  current_tm :: tm
  base_year :: int
  rtc_irq :: "int list"
  sqw_irq :: "int list option"
  periodic_timer :: timer
  next_periodic_time :: u64
  next_second_time :: u64
  irq_reinject_on_ack_count :: u16
  irq_coalesced :: u32
  period :: u32
  coalesced_timer :: timer
  second_timer :: timer
  second_timer2 :: timer

record rtc_env =
  rtc_clock :: u64
  hpet_in_legacy_mode :: bool
  irq_delivered :: bool
  rtc_td_hack :: bool

datatype rtc_error = CmosBounds

text \<open>A register by its number, and by an index the guest chose.\<close>

definition cmos :: "RTCState \<Rightarrow> nat \<Rightarrow> byte" where
  "cmos s r = cmos_data s ! r"

definition set_cmos :: "nat \<Rightarrow> byte \<Rightarrow> RTCState \<Rightarrow> RTCState" where
  "set_cmos r v s = s\<lparr>cmos_data := (cmos_data s)[r := v]\<rparr>"

definition rtc_irq_raise :: "rtc_env \<Rightarrow> RTCState \<Rightarrow> RTCState" where
  "rtc_irq_raise e s = (if \<not> hpet_in_legacy_mode e then s\<lparr>rtc_irq := rtc_irq s @ [1]\<rparr> else s)"

section \<open>Periodic interrupt\<close>

definition rtc_coalesced_timer_update :: "rtc_env \<Rightarrow> RTCState \<Rightarrow> RTCState" where
  "rtc_coalesced_timer_update e s =
     (if irq_coalesced s = 0 then s\<lparr>coalesced_timer := None\<rparr>
      else let c = (if irq_coalesced s < 7 then irq_coalesced s else 7) + 1;
               next_clock = rtc_clock e + muldiv64 (ucast (period s div c)) get_ticks_per_sec 32768
           in s\<lparr>coalesced_timer := Some next_clock\<rparr>)"

definition rtc_timer_update :: "rtc_env \<Rightarrow> u64 \<Rightarrow> RTCState \<Rightarrow> RTCState" where
  "rtc_timer_update e current_time s =
     (let period_code = unat (cmos s RTC_REG_A AND 0x0f)
      in if period_code \<noteq> 0 \<and> (cmos s RTC_REG_B AND REG_B_PIE \<noteq> 0 \<and> \<not> hpet_in_legacy_mode e \<or>
                               cmos s RTC_REG_B AND REG_B_SQWE \<noteq> 0 \<and> sqw_irq s \<noteq> None)
         then let period_code = (if period_code \<le> 2 then period_code + 7 else period_code);
                  p = push_bit (period_code - 1) 1;
                  s = (if p \<noteq> period s then s\<lparr>irq_coalesced := (irq_coalesced s * period s) div p\<rparr> else s);
                  s = s\<lparr>period := p\<rparr>;
                  cur_clock = muldiv64 current_time 32768 get_ticks_per_sec;
                  next_irq_clock = (cur_clock AND NOT (ucast p - 1)) + ucast p;
                  t = muldiv64 next_irq_clock get_ticks_per_sec 32768 + 1
              in s\<lparr>next_periodic_time := t, periodic_timer := Some t\<rparr>
         else s\<lparr>irq_coalesced := 0, periodic_timer := None\<rparr>)"

definition rtc_coalesced_timer :: "rtc_env \<Rightarrow> RTCState \<Rightarrow> RTCState" where
  "rtc_coalesced_timer e s =
     rtc_coalesced_timer_update e
       (if irq_coalesced s \<noteq> 0
        then let s = rtc_irq_raise e (set_cmos RTC_REG_C (cmos s RTC_REG_C OR 0xc0) s)
             in if irq_delivered e then s\<lparr>irq_coalesced := irq_coalesced s - 1\<rparr> else s
        else s)"

definition rtc_periodic_timer :: "rtc_env \<Rightarrow> RTCState \<Rightarrow> RTCState" where
  "rtc_periodic_timer e s =
     (let s = rtc_timer_update e (next_periodic_time s) s;
          s = (if cmos s RTC_REG_B AND REG_B_PIE \<noteq> 0
               then let s = set_cmos RTC_REG_C (cmos s RTC_REG_C OR 0xc0) s
                    in if rtc_td_hack e
                       then let s = (if RTC_REINJECT_ON_ACK_COUNT \<le> irq_reinject_on_ack_count s
                                     then s\<lparr>irq_reinject_on_ack_count := 0\<rparr> else s);
                                s = rtc_irq_raise e s
                            in if \<not> irq_delivered e
                               then rtc_coalesced_timer_update e (s\<lparr>irq_coalesced := irq_coalesced s + 1\<rparr>)
                               else s
                       else rtc_irq_raise e s
               else s)
      in if cmos s RTC_REG_B AND REG_B_SQWE \<noteq> 0
         then s\<lparr>sqw_irq := map_option (\<lambda>ls. ls @ [1]) (sqw_irq s)\<rparr>
         else s)"

section \<open>Date\<close>

definition rtc_to_bcd :: "RTCState \<Rightarrow> int \<Rightarrow> int" where
  "rtc_to_bcd s a = (if cmos s RTC_REG_B AND REG_B_DM \<noteq> 0 then a else push_bit 4 (a sdiv 10) OR (a smod 10))"

definition rtc_from_bcd :: "RTCState \<Rightarrow> int \<Rightarrow> int" where
  "rtc_from_bcd s a = (if cmos s RTC_REG_B AND REG_B_DM \<noteq> 0 then a else drop_bit 4 a * 10 + (a AND 0x0f))"

definition rtc_set_time :: "RTCState \<Rightarrow> RTCState" where
  "rtc_set_time s =
     (let hour = rtc_from_bcd s (uint (cmos s RTC_HOURS AND 0x7f))
      in s\<lparr>current_tm :=
           \<lparr>tm_sec = rtc_from_bcd s (uint (cmos s RTC_SECONDS)),
            tm_min = rtc_from_bcd s (uint (cmos s RTC_MINUTES)),
            tm_hour = (if cmos s RTC_REG_B AND 0x02 = 0 \<and> cmos s RTC_HOURS AND 0x80 \<noteq> 0 then hour + 12 else hour),
            tm_wday = rtc_from_bcd s (uint (cmos s RTC_DAY_OF_WEEK)) - 1,
            tm_mday = rtc_from_bcd s (uint (cmos s RTC_DAY_OF_MONTH)),
            tm_mon = rtc_from_bcd s (uint (cmos s RTC_MONTH)) - 1,
            tm_year = rtc_from_bcd s (uint (cmos s RTC_YEAR)) + base_year s - 1900\<rparr>\<rparr>)"

definition rtc_hours_byte :: "RTCState \<Rightarrow> int \<Rightarrow> byte" where
  "rtc_hours_byte s hour =
     (if cmos s RTC_REG_B AND 0x02 \<noteq> 0 then word_of_int (rtc_to_bcd s hour)
      else let b = word_of_int (rtc_to_bcd s (hour smod 12)) in if hour \<ge> 12 then b OR 0x80 else b)"

definition rtc_copy_date :: "RTCState \<Rightarrow> RTCState" where
  "rtc_copy_date s =
     (let t = current_tm s;
          year = (tm_year t - base_year s) smod 100;
          year = (if year < 0 then year + 100 else year)
      in fold (\<lambda>(r, v). set_cmos r v)
           [(RTC_SECONDS, word_of_int (rtc_to_bcd s (tm_sec t))),
            (RTC_MINUTES, word_of_int (rtc_to_bcd s (tm_min t))),
            (RTC_HOURS, rtc_hours_byte s (tm_hour t)),
            (RTC_DAY_OF_WEEK, word_of_int (rtc_to_bcd s (tm_wday t + 1))),
            (RTC_DAY_OF_MONTH, word_of_int (rtc_to_bcd s (tm_mday t))),
            (RTC_MONTH, word_of_int (rtc_to_bcd s (tm_mon t + 1))),
            (RTC_YEAR, word_of_int (rtc_to_bcd s year))] s)"

definition days_tab :: "int list" where
  "days_tab = [31, 28, 31, 30, 31, 30, 31, 31, 30, 31, 30, 31]"

definition get_days_in_month :: "int \<Rightarrow> int \<Rightarrow> int" where
  "get_days_in_month month year =
     (if \<not> (0 \<le> month \<and> month < 12) then 31
      else let d = days_tab ! nat month
           in if month = 1 \<and> year smod 4 = 0 \<and> (year smod 100 \<noteq> 0 \<or> year smod 400 = 0) then d + 1 else d)"

text \<open>The comparisons of unsigned values also hold for negative ones.\<close>

definition unsigned_ge :: "int \<Rightarrow> int \<Rightarrow> bool" where
  "unsigned_ge a n \<longleftrightarrow> a < 0 \<or> n \<le> a"

definition rtc_next_day :: "tm \<Rightarrow> tm" where
  "rtc_next_day t =
     (let t = t\<lparr>tm_wday := tm_wday t + 1\<rparr>;
          t = (if unsigned_ge (tm_wday t) 7 then t\<lparr>tm_wday := 0\<rparr> else t);
          days_in_month = get_days_in_month (tm_mon t) (tm_year t + 1900);
          t = t\<lparr>tm_mday := tm_mday t + 1\<rparr>
      in if tm_mday t < 1 then t\<lparr>tm_mday := 1\<rparr>
         else if tm_mday t > days_in_month
         then let t = t\<lparr>tm_mday := 1, tm_mon := tm_mon t + 1\<rparr>
              in if tm_mon t \<ge> 12 then t\<lparr>tm_mon := 0, tm_year := tm_year t + 1\<rparr> else t
         else t)"

definition rtc_next_second :: "tm \<Rightarrow> tm" where
  "rtc_next_second t =
     (let t = t\<lparr>tm_sec := tm_sec t + 1\<rparr>
      in if unsigned_ge (tm_sec t) 60
         then let t = t\<lparr>tm_sec := 0, tm_min := tm_min t + 1\<rparr>
              in if unsigned_ge (tm_min t) 60
                 then let t = t\<lparr>tm_min := 0, tm_hour := tm_hour t + 1\<rparr>
                      in if unsigned_ge (tm_hour t) 24 then rtc_next_day (t\<lparr>tm_hour := 0\<rparr>) else t
                 else t
         else t)"

section \<open>The second\<close>

definition rtc_update_second :: "RTCState \<Rightarrow> RTCState" where
  "rtc_update_second s =
     (if cmos s RTC_REG_A AND 0x70 \<noteq> 0x20
      then let t = next_second_time s + ucast get_ticks_per_sec in s\<lparr>next_second_time := t, second_timer := Some t\<rparr>
      else let s = s\<lparr>current_tm := rtc_next_second (current_tm s)\<rparr>;
               s = (if cmos s RTC_REG_B AND REG_B_SET = 0 then set_cmos RTC_REG_A (cmos s RTC_REG_A OR REG_A_UIP) s else s);
               delay = ucast get_ticks_per_sec div 100
           in s\<lparr>second_timer2 := Some (next_second_time s + (if delay < 1 then 1 else delay))\<rparr>)"

text \<open>An alarm register that matches: all values, or a value equal to the one it is compared with.\<close>

definition alarm_matches :: "byte \<Rightarrow> int \<Rightarrow> bool" where
  "alarm_matches r v \<longleftrightarrow> r AND 0xc0 = 0xc0 \<or> uint r = v"

definition rtc_update_second2 :: "rtc_env \<Rightarrow> RTCState \<Rightarrow> RTCState" where
  "rtc_update_second2 e s =
     (let s = (if cmos s RTC_REG_B AND REG_B_SET = 0 then rtc_copy_date s else s);
          s = (if cmos s RTC_REG_B AND REG_B_AIE \<noteq> 0 \<and> alarm_matches (cmos s RTC_SECONDS_ALARM) (tm_sec (current_tm s)) \<and>
                  alarm_matches (cmos s RTC_MINUTES_ALARM) (tm_mon (current_tm s)) \<and>
                  alarm_matches (cmos s RTC_HOURS_ALARM) (tm_hour (current_tm s))
               then rtc_irq_raise e (set_cmos RTC_REG_C (cmos s RTC_REG_C OR 0xa0) s) else s);
          s = set_cmos RTC_REG_C (cmos s RTC_REG_C OR REG_C_UF) s;
          s = (if cmos s RTC_REG_B AND REG_B_UIE \<noteq> 0
               then rtc_irq_raise e (set_cmos RTC_REG_C (cmos s RTC_REG_C OR REG_C_IRQF) s) else s);
          s = set_cmos RTC_REG_A (cmos s RTC_REG_A AND NOT REG_A_UIP) s;
          t = next_second_time s + ucast get_ticks_per_sec
      in s\<lparr>next_second_time := t, second_timer := Some t\<rparr>)"

section \<open>Ports\<close>

definition date_regs :: "nat list" where
  "date_regs = [RTC_SECONDS, RTC_MINUTES, RTC_HOURS, RTC_DAY_OF_WEEK, RTC_DAY_OF_MONTH, RTC_MONTH, RTC_YEAR]"

definition cmos_ioport_write :: "rtc_env \<Rightarrow> u32 \<Rightarrow> u32 \<Rightarrow> RTCState \<Rightarrow> rtc_error + RTCState" where
  "cmos_ioport_write e addr data s =
     (if addr AND 1 = 0 then Inr (s\<lparr>cmos_index := ucast (data AND 0x7f)\<rparr>)
      else let r = unat (cmos_index s)
           in if r \<in> set date_regs
              then let s = set_cmos r (ucast data) s
                   in Inr (if cmos s RTC_REG_B AND REG_B_SET = 0 then rtc_set_time s else s)
              else if r = RTC_REG_A
              then Inr (rtc_timer_update e (rtc_clock e)
                     (set_cmos RTC_REG_A ((ucast data AND NOT REG_A_UIP) OR (cmos s RTC_REG_A AND REG_A_UIP)) s))
              else if r = RTC_REG_B
              then let (v, s) = (if (ucast data :: byte) AND REG_B_SET \<noteq> 0
                                 then (ucast data AND NOT REG_B_UIE, set_cmos RTC_REG_A (cmos s RTC_REG_A AND NOT REG_A_UIP) s)
                                 else (ucast data, if cmos s RTC_REG_B AND REG_B_SET \<noteq> 0 then rtc_set_time s else s))
                   in Inr (rtc_timer_update e (rtc_clock e) (set_cmos RTC_REG_B v s))
              else if r = RTC_REG_C \<or> r = RTC_REG_D then Inr s
              else if r < 128 then Inr (set_cmos r (ucast data) s)
              else Inl CmosBounds)"

definition cmos_ioport_read :: "rtc_env \<Rightarrow> u32 \<Rightarrow> RTCState \<Rightarrow> rtc_error + u32 \<times> RTCState" where
  "cmos_ioport_read e addr s =
     (if addr AND 1 = 0 then Inr (0xff, s)
      else let r = unat (cmos_index s)
           in if r = RTC_REG_C
              then let ret = ucast (cmos s RTC_REG_C);
                       s = s\<lparr>rtc_irq := rtc_irq s @ [0]\<rparr>
                   in if irq_coalesced s \<noteq> 0 \<and> irq_reinject_on_ack_count s < RTC_REINJECT_ON_ACK_COUNT
                      then let s = s\<lparr>irq_reinject_on_ack_count := irq_reinject_on_ack_count s + 1, rtc_irq := rtc_irq s @ [1]\<rparr>
                           in Inr (ret, if irq_delivered e then s\<lparr>irq_coalesced := irq_coalesced s - 1\<rparr> else s)
                      else Inr (ret, set_cmos RTC_REG_C 0 s)
              else if r < 128 then Inr (ucast (cmos s r), s)
              else Inl CmosBounds)"

section \<open>Creation, reset and saved state\<close>

definition rtc_set_memory :: "int \<Rightarrow> int \<Rightarrow> RTCState \<Rightarrow> RTCState" where
  "rtc_set_memory addr val s = (if 0 \<le> addr \<and> addr \<le> 127 then set_cmos (nat addr) (word_of_int val) s else s)"

definition rtc_set_date :: "tm \<Rightarrow> RTCState \<Rightarrow> RTCState" where
  "rtc_set_date t s = rtc_copy_date (s\<lparr>current_tm := t\<rparr>)"

definition rtc_set_date_from_host :: "tm \<Rightarrow> RTCState \<Rightarrow> RTCState" where
  "rtc_set_date_from_host host s =
     (let s = rtc_set_date host s;
          val = rtc_to_bcd s (tm_year host sdiv 100 + 19);
          s = rtc_set_memory REG_IBM_CENTURY_BYTE val s
      in rtc_set_memory REG_IBM_PS2_CENTURY_BYTE val s)"

definition rtc_reset :: "rtc_env \<Rightarrow> RTCState \<Rightarrow> RTCState" where
  "rtc_reset e s =
     (let s = set_cmos RTC_REG_B (cmos s RTC_REG_B AND NOT (REG_B_PIE OR REG_B_AIE OR REG_B_SQWE)) s;
          s = set_cmos RTC_REG_C (cmos s RTC_REG_C AND NOT (REG_C_UF OR REG_C_IRQF OR REG_C_PF OR REG_C_AF)) s;
          s = s\<lparr>rtc_irq := rtc_irq s @ [0]\<rparr>
      in if rtc_td_hack e then s\<lparr>irq_coalesced := 0\<rparr> else s)"

definition rtc_initfn :: "rtc_env \<Rightarrow> tm \<Rightarrow> int \<Rightarrow> RTCState" where
  "rtc_initfn e host year =
     (let s = \<lparr>cmos_data = replicate 128 0, cmos_index = 0, current_tm = host, base_year = year, rtc_irq = [], sqw_irq = None,
               periodic_timer = None, next_periodic_time = 0, next_second_time = 0, irq_reinject_on_ack_count = 0,
               irq_coalesced = 0, period = 0, coalesced_timer = None, second_timer = None, second_timer2 = None\<rparr>;
          s = set_cmos RTC_REG_D 0x80 (set_cmos RTC_REG_C 0 (set_cmos RTC_REG_B 0x02 (set_cmos RTC_REG_A 0x26 s)));
          s = rtc_set_date_from_host host s;
          t = rtc_clock e + (ucast get_ticks_per_sec * 99) div 100
      in s\<lparr>next_second_time := t, second_timer2 := Some t\<rparr>)"

definition rtc_post_load :: "rtc_env \<Rightarrow> RTCState \<Rightarrow> int \<Rightarrow> int \<times> RTCState" where
  "rtc_post_load e s version_id = (0, if version_id \<ge> 2 \<and> rtc_td_hack e then rtc_coalesced_timer_update e s else s)"

definition tm_field :: "string \<Rightarrow> (tm \<Rightarrow> int) \<Rightarrow> ((int \<Rightarrow> int) \<Rightarrow> tm \<Rightarrow> tm) \<Rightarrow> (RTCState, 'o) VMStateField" where
  "tm_field nm rd upd =
     VMSTATE_INT32 nm (\<lambda>s. word_of_int (rd (current_tm s))) (\<lambda>v s. s\<lparr>current_tm := upd (\<lambda>_. sint v) (current_tm s)\<rparr>)"

definition vmstate_rtc :: "rtc_env \<Rightarrow> (RTCState, 'o) VMStateDescription" where
  "vmstate_rtc e = \<lparr>vmsd_name = ''mc146818rtc'', vmsd_version = 2, minimum_version_id = 1, minimum_version_id_old = 1,
     load_state_old = None, pre_load = None, post_load = Some (rtc_post_load e), pre_save = None, post_save = None, vmsd_fields =
      [VMSTATE_BUFFER ''cmos_data'' 128 cmos_data (\<lambda>v s. s\<lparr>cmos_data := v\<rparr>),
       VMSTATE_UINT8 ''cmos_index'' cmos_index (\<lambda>v s. s\<lparr>cmos_index := v\<rparr>),
       tm_field ''current_tm.tm_sec'' tm_sec tm_sec_update,
       tm_field ''current_tm.tm_min'' tm_min tm_min_update,
       tm_field ''current_tm.tm_hour'' tm_hour tm_hour_update,
       tm_field ''current_tm.tm_wday'' tm_wday tm_wday_update,
       tm_field ''current_tm.tm_mday'' tm_mday tm_mday_update,
       tm_field ''current_tm.tm_mon'' tm_mon tm_mon_update,
       tm_field ''current_tm.tm_year'' tm_year tm_year_update,
       VMSTATE_TIMER ''periodic_timer'' periodic_timer (\<lambda>v s. s\<lparr>periodic_timer := v\<rparr>),
       VMSTATE_INT64 ''next_periodic_time'' next_periodic_time (\<lambda>v s. s\<lparr>next_periodic_time := v\<rparr>),
       VMSTATE_INT64 ''next_second_time'' next_second_time (\<lambda>v s. s\<lparr>next_second_time := v\<rparr>),
       VMSTATE_TIMER ''second_timer'' second_timer (\<lambda>v s. s\<lparr>second_timer := v\<rparr>),
       VMSTATE_TIMER ''second_timer2'' second_timer2 (\<lambda>v s. s\<lparr>second_timer2 := v\<rparr>),
       VMSTATE_UINT32_V ''irq_coalesced'' irq_coalesced (\<lambda>v s. s\<lparr>irq_coalesced := v\<rparr>) 2,
       VMSTATE_UINT32_V ''period'' period (\<lambda>v s. s\<lparr>period := v\<rparr>) 2]\<rparr>"

section \<open>The calendar\<close>

definition leap :: "int \<Rightarrow> bool" where
  "leap y \<longleftrightarrow> 4 dvd y \<and> (\<not> 100 dvd y \<or> 400 dvd y)"

definition month_days :: "int \<Rightarrow> int \<Rightarrow> int" where
  "month_days y m = (if m = 1 then (if leap y then 29 else 28) else if m \<in> {3, 5, 8, 10} then 30 else 31)"

text \<open>Days from the beginning of year 1 of the Gregorian calendar, counting the leap days of the years before.\<close>

definition year_start :: "int \<Rightarrow> int" where
  "year_start y = 365 * y + (y - 1) div 4 - (y - 1) div 100 + (y - 1) div 400"

definition day_number :: "tm \<Rightarrow> int" where
  "day_number t = (let y = tm_year t + 1900 in year_start y + (\<Sum>m \<in> {0 ..< tm_mon t}. month_days y m) + tm_mday t)"

definition second_number :: "tm \<Rightarrow> int" where
  "second_number t = ((day_number t * 24 + tm_hour t) * 60 + tm_min t) * 60 + tm_sec t"

definition valid_tm :: "tm \<Rightarrow> bool" where
  "valid_tm t \<longleftrightarrow> tm_sec t \<in> {0 ..< 60} \<and> tm_min t \<in> {0 ..< 60} \<and> tm_hour t \<in> {0 ..< 24} \<and> tm_wday t \<in> {0 ..< 7} \<and>
     tm_mon t \<in> {0 ..< 12} \<and> tm_mday t \<in> {1 .. month_days (tm_year t + 1900) (tm_mon t)} \<and> - 1900 < tm_year t"

lemma smod_pos: "0 \<le> (a :: int) \<Longrightarrow> 0 < b \<Longrightarrow> a smod b = a mod b"
  by (cases "a = 0") (simp_all add: signed_modulo_int_def signed_divide_int_def minus_div_mult_eq_mod)

lemma month_cases: "0 \<le> m \<Longrightarrow> m < (12 :: int) \<Longrightarrow> m \<in> {0, 1, 2, 3, 4, 5, 6, 7, 8, 9, 10, 11}"
  by simp presburger

lemma days_in_month: "0 \<le> m \<Longrightarrow> m < 12 \<Longrightarrow> 0 \<le> y \<Longrightarrow> get_days_in_month m y = month_days y m"
proof -
  assume m: "0 \<le> m" "m < 12" and y: "0 \<le> y"
  have l: "leap y \<longleftrightarrow> y smod 4 = 0 \<and> (y smod 100 \<noteq> 0 \<or> y smod 400 = 0)"
    using y by (simp add: leap_def smod_pos dvd_eq_mod_eq_0)
  show ?thesis using month_cases [OF m]
    by (elim insertE) (simp_all add: get_days_in_month_def month_days_def days_tab_def l)
qed

lemma div_step: "0 < k \<Longrightarrow> (y :: int) div k = (y - 1) div k + of_bool (k dvd y)"
proof -
  assume k: "0 < k"
  have y: "y = k * (y div k) + y mod k" by simp
  show ?thesis
  proof (cases "y mod k = 0")
    case True
    then have "y - 1 = k * (y div k - 1) + (k - 1)" using y by (simp add: algebra_simps)
    then have "(y - 1) div k = y div k - 1" using k int_div_pos_eq [of "y - 1" k "y div k - 1" "k - 1"] by simp
    then show ?thesis using True by (simp add: dvd_eq_mod_eq_0)
  next
    case False
    then have "y - 1 = k * (y div k) + (y mod k - 1)" "0 \<le> y mod k - 1" "y mod k - 1 < k"
      using y k pos_mod_sign [of k y] pos_mod_bound [of k y] by linarith+
    then have "(y - 1) div k = y div k" by (rule int_div_pos_eq)
    then show ?thesis using False by (simp add: dvd_eq_mod_eq_0)
  qed
qed

lemma year_days: "(\<Sum>m \<in> {0 ..< 12}. month_days y m) = 365 + of_bool (leap y)"
proof -
  have "{0 ..< 12 :: int} = {0, 1, 2, 3, 4, 5, 6, 7, 8, 9, 10, 11}" by (rule set_eqI) (simp, presburger)
  then show ?thesis by (simp add: month_days_def)
qed

lemma month_sum: "0 \<le> k \<Longrightarrow> (\<Sum>m \<in> {0 ..< k + 1}. month_days y m) = (\<Sum>m \<in> {0 ..< k}. month_days y m) + month_days y k"
proof -
  assume "0 \<le> k"
  then have "{0 ..< k + 1} = insert k {0 ..< k}" by auto
  then show ?thesis by simp
qed

lemma year_start_next: "year_start (y + 1) = year_start y + 365 + of_bool (leap y)"
proof -
  have "(4 :: int) dvd 100" "(100 :: int) dvd 400" by simp_all
  then have d: "100 dvd y \<Longrightarrow> 4 dvd y" "400 dvd y \<Longrightarrow> 100 dvd y" using dvd_trans by blast+
  have "(b \<Longrightarrow> a) \<Longrightarrow> (c \<Longrightarrow> b) \<Longrightarrow> of_bool (a \<and> (\<not> b \<or> c)) = of_bool a - of_bool b + (of_bool c :: int)" for a b c
    by (cases a; cases b; cases c) simp_all
  from this [OF d] have l: "of_bool (leap y) = of_bool (4 dvd y) - of_bool (100 dvd y) + (of_bool (400 dvd y) :: int)"
    unfolding leap_def .
  have g: "\<lbrakk>p = u + x; q = v + z; r = w + n; l = x - z + n\<rbrakk> \<Longrightarrow> 365 * (y + 1) + p - q + r = 365 * y + u - v + w + 365 + l"
    for p q r u v w x z n l :: int by simp
  show ?thesis unfolding year_start_def add_diff_cancel_right' by (rule g [OF div_step div_step div_step l]) simp_all
qed

lemma month_days_pos: "28 \<le> month_days y m"
  by (simp add: month_days_def)

lemma next_day_eq:
  assumes "valid_tm t"
  defines "w \<equiv> (tm_wday t + 1) mod 7"
  shows "rtc_next_day t =
    (if tm_mday t < month_days (tm_year t + 1900) (tm_mon t) then t\<lparr>tm_wday := w, tm_mday := tm_mday t + 1\<rparr>
     else if tm_mon t < 11 then t\<lparr>tm_wday := w, tm_mday := 1, tm_mon := tm_mon t + 1\<rparr>
     else t\<lparr>tm_wday := w, tm_mday := 1, tm_mon := 0, tm_year := tm_year t + 1\<rparr>)"
proof -
  let ?y = "tm_year t + 1900" and ?m = "tm_mon t"
  have v: "0 \<le> ?m" "?m < 12" "0 < ?y" "1 \<le> tm_mday t" "0 \<le> tm_wday t" "tm_wday t < 7" using assms(1) by (auto simp: valid_tm_def)
  have d: "get_days_in_month ?m ?y = month_days ?y ?m" using v by (simp add: days_in_month)
  show ?thesis using v d month_days_pos [of ?y ?m]
    by (cases "tm_wday t = 6") (simp_all add: rtc_next_day_def Let_def unsigned_ge_def w_def)
qed

lemma next_day_number:
  assumes "valid_tm t"
  shows "day_number (rtc_next_day t) = day_number t + 1"
proof -
  let ?y = "tm_year t + 1900" and ?m = "tm_mon t"
  have v: "0 \<le> ?m" "?m < 12" "tm_mday t \<le> month_days ?y ?m" using assms by (auto simp: valid_tm_def)
  consider "tm_mday t < month_days ?y ?m" | "tm_mday t = month_days ?y ?m" "?m < 11" | "tm_mday t = month_days ?y ?m" "?m = 11"
    using v by linarith
  then show ?thesis
  proof cases
    case 3
    have "(\<Sum>m \<in> {0 ..< 11}. month_days ?y m) + month_days ?y 11 = 365 + of_bool (leap ?y)"
      using month_sum [of 11 ?y] year_days [of ?y] by simp
    moreover have "tm_year t + 1 + 1900 = ?y + 1" by simp
    ultimately show ?thesis using 3 year_start_next [of ?y] by (simp add: next_day_eq [OF assms] day_number_def Let_def del: add.assoc)
  qed (use v month_sum [of ?m ?y] in \<open>simp_all add: next_day_eq [OF assms] day_number_def Let_def\<close>)
qed

lemma next_day_valid:
  assumes "valid_tm t"
  shows "valid_tm (rtc_next_day t)"
proof -
  have "0 \<le> (tm_wday t + 1) mod 7" "(tm_wday t + 1) mod 7 < 7" by simp_all
  moreover have "1 \<le> month_days y m" for y m using month_days_pos [of y m] by linarith
  ultimately show ?thesis using assms unfolding next_day_eq [OF assms] by (simp add: valid_tm_def)
qed

lemma next_second_cases:
  assumes "valid_tm t"
  shows "let r = rtc_next_second t; t' = t\<lparr>tm_sec := 0, tm_min := 0, tm_hour := 0\<rparr> in
    if tm_sec t = 59 \<and> tm_min t = 59 \<and> tm_hour t = 23 then r = rtc_next_day t' \<and> valid_tm t' \<and> day_number t' = day_number t
    else valid_tm r \<and> second_number r = second_number t + 1 \<and> tm_wday r = tm_wday t \<and> day_number r = day_number t"
proof -
  have v: "0 \<le> tm_sec t" "tm_sec t < 60" "0 \<le> tm_min t" "tm_min t < 60" "0 \<le> tm_hour t" "tm_hour t < 24"
    using assms by (auto simp: valid_tm_def)
  then show ?thesis using assms
    by (auto simp: rtc_next_second_def unsigned_ge_def Let_def valid_tm_def second_number_def day_number_def)
qed

lemma next_day_fields:
  assumes "valid_tm t"
  shows "tm_sec (rtc_next_day t) = tm_sec t" "tm_min (rtc_next_day t) = tm_min t" "tm_hour (rtc_next_day t) = tm_hour t"
    "tm_wday (rtc_next_day t) = (tm_wday t + 1) mod 7"
  by (simp_all add: next_day_eq [OF assms])

lemma next_second_step:
  assumes "valid_tm t"
  shows "valid_tm (rtc_next_second t)" "second_number (rtc_next_second t) = second_number t + 1"
  using next_second_cases [OF assms] by (auto simp: Let_def second_number_def next_day_number next_day_valid next_day_fields split: if_splits)

text \<open>
  C20. The clock keeps the calendar: on a valid date a second later is a valid date, exactly one second later in the
  Gregorian calendar with its leap years, and the day of the week moves with the day.
\<close>

theorem rtc_next_second_calendar:
  assumes "valid_tm t"
  shows "valid_tm (rtc_next_second t) \<and> second_number (rtc_next_second t) = second_number t + 1 \<and>
    (tm_wday (rtc_next_second t) - day_number (rtc_next_second t)) mod 7 = (tm_wday t - day_number t) mod 7"
proof -
  let ?t = "t\<lparr>tm_sec := 0, tm_min := 0, tm_hour := 0\<rparr>"
  have "((tm_wday t + 1) mod 7 - (day_number t + 1)) mod 7 = (tm_wday t - day_number t) mod 7"
    by (simp add: mod_diff_left_eq)
  then show ?thesis using next_second_cases [OF assms] next_second_step [OF assms]
    by (auto simp: Let_def next_day_number next_day_fields split: if_splits)
qed

theorem rtc_next_second_calendar_witness:
  "rtc_next_second \<lparr>tm_sec = 59, tm_min = 59, tm_hour = 23, tm_wday = 2, tm_mday = 29, tm_mon = 1, tm_year = 100\<rparr> =
     \<lparr>tm_sec = 0, tm_min = 0, tm_hour = 0, tm_wday = 3, tm_mday = 1, tm_mon = 2, tm_year = 100\<rparr> \<and>
   second_number \<lparr>tm_sec = 0, tm_min = 0, tm_hour = 0, tm_wday = 3, tm_mday = 1, tm_mon = 2, tm_year = 100\<rparr> =
     second_number \<lparr>tm_sec = 59, tm_min = 59, tm_hour = 23, tm_wday = 2, tm_mday = 29, tm_mon = 1, tm_year = 100\<rparr> + 1"
proof -
  let ?t = "\<lparr>tm_sec = 59, tm_min = 59, tm_hour = 23, tm_wday = 2, tm_mday = 29, tm_mon = 1, tm_year = 100\<rparr>"
  have "rtc_next_second ?t = \<lparr>tm_sec = 0, tm_min = 0, tm_hour = 0, tm_wday = 3, tm_mday = 1, tm_mon = 2, tm_year = 100\<rparr>" by code_simp
  moreover have "valid_tm ?t" by (simp add: valid_tm_def month_days_def leap_def)
  ultimately show ?thesis using rtc_next_second_calendar [of ?t] by simp
qed

section \<open>The registers hold the date\<close>

definition to_bcd :: "bool \<Rightarrow> int \<Rightarrow> byte" where
  "to_bcd dm a = word_of_int (if dm then a else push_bit 4 (a sdiv 10) OR (a smod 10))"

definition from_bcd :: "bool \<Rightarrow> byte \<Rightarrow> int" where
  "from_bcd dm b = (if dm then uint b else drop_bit 4 (uint b) * 10 + (uint b AND 0x0f))"

lemma bcd_100: "list_all (\<lambda>a. from_bcd dm (to_bcd dm a) = a) [0 .. 99]"
  by (cases dm) (simp, code_simp)+

lemma bcd_roundtrip: "0 \<le> a \<Longrightarrow> a < 100 \<Longrightarrow> from_bcd dm (to_bcd dm a) = a"
  using bcd_100 [of dm] by (simp add: list_all_iff)

definition hours_byte :: "bool \<Rightarrow> bool \<Rightarrow> int \<Rightarrow> byte" where
  "hours_byte dm h24 h = (if h24 then to_bcd dm h else let b = to_bcd dm (h smod 12) in if h \<ge> 12 then b OR 0x80 else b)"

definition hours_of :: "bool \<Rightarrow> bool \<Rightarrow> byte \<Rightarrow> int" where
  "hours_of dm h24 b = (let h = from_bcd dm (b AND 0x7f) in if \<not> h24 \<and> b AND 0x80 \<noteq> 0 then h + 12 else h)"

lemma hours_24: "list_all (\<lambda>h. hours_of dm h24 (hours_byte dm h24 h) = h) [0 .. 23]"
  by (cases dm; cases h24) (simp, code_simp)+

lemma hours_roundtrip: "0 \<le> h \<Longrightarrow> h < 24 \<Longrightarrow> hours_of dm h24 (hours_byte dm h24 h) = h"
  using hours_24 [of dm h24] by (simp add: list_all_iff)


text \<open>The date in the registers, with the format chosen in register B.\<close>

definition format :: "RTCState \<Rightarrow> bool \<times> bool" where
  "format s = (cmos s RTC_REG_B AND REG_B_DM \<noteq> 0, cmos s RTC_REG_B AND 0x02 \<noteq> 0)"

definition encode_tm :: "bool \<times> bool \<Rightarrow> int \<Rightarrow> tm \<Rightarrow> (nat \<times> byte) list" where
  "encode_tm f base t = (let (dm, h24) = f in
     [(RTC_SECONDS, to_bcd dm (tm_sec t)), (RTC_MINUTES, to_bcd dm (tm_min t)), (RTC_HOURS, hours_byte dm h24 (tm_hour t)),
      (RTC_DAY_OF_WEEK, to_bcd dm (tm_wday t + 1)), (RTC_DAY_OF_MONTH, to_bcd dm (tm_mday t)),
      (RTC_MONTH, to_bcd dm (tm_mon t + 1)), (RTC_YEAR, to_bcd dm ((tm_year t - base) mod 100))])"

definition decode_tm :: "bool \<times> bool \<Rightarrow> int \<Rightarrow> (nat \<Rightarrow> byte) \<Rightarrow> tm" where
  "decode_tm f base r = (let (dm, h24) = f in
     \<lparr>tm_sec = from_bcd dm (r RTC_SECONDS), tm_min = from_bcd dm (r RTC_MINUTES), tm_hour = hours_of dm h24 (r RTC_HOURS),
      tm_wday = from_bcd dm (r RTC_DAY_OF_WEEK) - 1, tm_mday = from_bcd dm (r RTC_DAY_OF_MONTH),
      tm_mon = from_bcd dm (r RTC_MONTH) - 1, tm_year = from_bcd dm (r RTC_YEAR) + base - 1900\<rparr>)"

definition fits :: "int \<Rightarrow> tm \<Rightarrow> bool" where
  "fits base t \<longleftrightarrow> valid_tm t \<and> base \<le> tm_year t + 1900 \<and> tm_year t + 1900 < base + 100"

lemma smod_wrap: "(let r = (c :: int) smod 100; r = (if r < 0 then r + 100 else r) in r) = c mod 100"
proof (cases "0 \<le> c")
  case False
  then have r: "c smod 100 = - ((- c) mod 100)"
    using smod_pos [of "- c" 100] by (simp add: signed_modulo_int_def signed_divide_int_def sgn_if)
  show ?thesis
  proof (cases "(- c) mod 100 = 0")
    case True
    then have "c mod 100 = 0" by (simp add: mod_eq_0_iff_dvd)
    then show ?thesis using True r by simp
  next
    case False
    then have "c mod 100 = 100 - (- c) mod 100" using zmod_zminus1_eq_if [of "- c" 100] by simp
    moreover have "0 < (- c) mod 100" using False pos_mod_sign [of 100 "- c"] by linarith
    ultimately show ?thesis using r by simp
  qed
qed (simp add: smod_pos Let_def)

lemma encode_decode:
  assumes "fits base t" "\<forall>(r, b) \<in> set (encode_tm f base t). rg r = b"
  shows "decode_tm f base rg = t"
proof -
  have v: "0 \<le> tm_sec t" "tm_sec t < 60" "0 \<le> tm_min t" "tm_min t < 60" "0 \<le> tm_hour t" "tm_hour t < 24" "0 \<le> tm_wday t"
    "tm_wday t < 7" "0 \<le> tm_mon t" "tm_mon t < 12" "1 \<le> tm_mday t" "tm_mday t \<le> month_days (tm_year t + 1900) (tm_mon t)"
    "base \<le> tm_year t + 1900" "tm_year t + 1900 < base + 100"
    using assms(1) by (auto simp: fits_def valid_tm_def)
  have "month_days (tm_year t + 1900) (tm_mon t) \<le> 31" by (simp add: month_days_def)
  moreover have "(tm_year t - base) mod 100 = tm_year t + 1900 - base"
  proof -
    have "(tm_year t - base) mod 100 = (tm_year t + 1900 - base) mod 100"
      using mod_mult_self2 [of "tm_year t - base" 100 19] by (simp add: algebra_simps)
    then show ?thesis using v by (simp add: mod_pos_pos_trivial)
  qed
  ultimately show ?thesis using assms(2) v
    by (cases f, cases t) (simp add: encode_tm_def decode_tm_def Let_def bcd_roundtrip hours_roundtrip)
qed

lemma cmos_set [simp]: "r < length (cmos_data s) \<Longrightarrow> cmos (set_cmos r v s) r' = (if r' = r then v else cmos s r')"
  by (simp add: cmos_def set_cmos_def)

lemma set_cmos_simps [simp]:
  "length (cmos_data (set_cmos r v s)) = length (cmos_data s)" "current_tm (set_cmos r v s) = current_tm s"
  "base_year (set_cmos r v s) = base_year s" "cmos_index (set_cmos r v s) = cmos_index s"
  by (simp_all add: set_cmos_def)

lemma set_time_decodes: "current_tm (rtc_set_time s) = decode_tm (format s) (base_year s) (cmos s)"
  by (simp add: rtc_set_time_def decode_tm_def format_def rtc_from_bcd_def from_bcd_def hours_of_def Let_def)

lemma copy_date_encodes: "rtc_copy_date s = fold (\<lambda>(r, v). set_cmos r v) (encode_tm (format s) (base_year s) (current_tm s)) s"
  using smod_wrap [of "tm_year (current_tm s) - base_year s"]
  by (simp add: rtc_copy_date_def encode_tm_def format_def rtc_to_bcd_def to_bcd_def rtc_hours_byte_def hours_byte_def Let_def)

lemma encode_regs: "map fst (encode_tm f base t) = date_regs"
  by (simp add: encode_tm_def date_regs_def split_beta Let_def)

lemma date_regs_eq: "date_regs = [0, 2, 4, 6, 7, 8, 9]"
  by (simp add: date_regs_def rtc_regs)


section \<open>The guest sets the clock\<close>

definition rtc_out :: "rtc_env \<Rightarrow> nat \<Rightarrow> byte \<Rightarrow> RTCState \<Rightarrow> rtc_error + RTCState" where
  "rtc_out e r v s = bindR (cmos_ioport_write e 0x70 (of_nat r) s) (cmos_ioport_write e 0x71 (ucast v))"

fun rtc_outs :: "rtc_env \<Rightarrow> (nat \<times> byte) list \<Rightarrow> RTCState \<Rightarrow> rtc_error + RTCState" where
  "rtc_outs e [] s = Inr s"
| "rtc_outs e ((r, v) # rvs) s = bindR (rtc_out e r v s) (rtc_outs e rvs)"

lemma timer_update_simps [simp]:
  "cmos_data (rtc_timer_update e t s) = cmos_data s" "current_tm (rtc_timer_update e t s) = current_tm s"
  "base_year (rtc_timer_update e t s) = base_year s" "cmos (rtc_timer_update e t s) r = cmos s r"
  by (simp_all add: rtc_timer_update_def Let_def cmos_def)

lemma ucast_byte_u32: "ucast (ucast (b :: byte) :: u32) = b"
  by transfer simp

lemma index_simps [simp]:
  "cmos (s\<lparr>cmos_index := i\<rparr>) r = cmos s r" "set_cmos r v (s\<lparr>cmos_index := i\<rparr>) = (set_cmos r v s)\<lparr>cmos_index := i\<rparr>"
  by (simp_all add: cmos_def set_cmos_def)

lemma date_out:
  assumes "length (cmos_data s) = 128" "cmos s RTC_REG_B AND REG_B_SET \<noteq> 0" "r \<in> set date_regs"
  shows "rtc_out e r v s = Inr ((set_cmos r v s)\<lparr>cmos_index := of_nat r\<rparr>)"
proof -
  have "r \<noteq> RTC_REG_B" using assms(3) by (auto simp: date_regs_eq rtc_regs)
  then have b: "cmos (set_cmos r v s) RTC_REG_B AND REG_B_SET \<noteq> 0" using assms by (auto simp: date_regs_eq)
  have "unat (ucast (of_nat r AND 0x7f :: u32) :: byte) = r" "(ucast (of_nat r AND 0x7f :: u32) :: byte) = of_nat r"
    using assms(3) by (auto simp: date_regs_eq)
  then show ?thesis using assms(3) b by (simp add: rtc_out_def cmos_ioport_write_def Let_def ucast_byte_u32)
qed

lemma date_outs:
  assumes "length (cmos_data s) = 128" "cmos s RTC_REG_B AND REG_B_SET \<noteq> 0" "set (map fst rvs) \<subseteq> set date_regs"
  shows "\<exists>i. rtc_outs e rvs s = Inr ((fold (\<lambda>(r, v). set_cmos r v) rvs s)\<lparr>cmos_index := i\<rparr>)"
  using assms
proof (induction rvs arbitrary: s)
  case Nil
  then show ?case by (auto intro!: exI [of _ "cmos_index s"])
next
  case (Cons rv rvs)
  obtain r v where rv: "rv = (r, v)" by (cases rv)
  let ?s = "(set_cmos r v s)\<lparr>cmos_index := of_nat r\<rparr>"
  have "r \<noteq> RTC_REG_B" "r < 128" using Cons.prems(3) rv by (auto simp: date_regs_eq rtc_regs)
  then have "length (cmos_data ?s) = 128" "cmos ?s RTC_REG_B AND REG_B_SET \<noteq> 0" using Cons.prems by simp_all
  from Cons.IH [OF this] Cons.prems(3) obtain i where
    "rtc_outs e rvs ?s = Inr ((fold (\<lambda>(r, v). set_cmos r v) rvs ?s)\<lparr>cmos_index := i\<rparr>)" by auto
  moreover have "fold (\<lambda>(r, v). set_cmos r v) rvs (x\<lparr>cmos_index := k\<rparr>) = (fold (\<lambda>(r, v). set_cmos r v) rvs x)\<lparr>cmos_index := k\<rparr>" for x k
    by (induction rvs arbitrary: x) auto
  ultimately show ?case using date_out [of s r e v] Cons.prems rv by auto
qed

lemma fold_cmos:
  assumes "length (cmos_data s) = 128" "\<forall>r \<in> set (map fst rvs). r < 128" "distinct (map fst rvs)"
  shows "(\<forall>(r, v) \<in> set rvs. cmos (fold (\<lambda>(r, v). set_cmos r v) rvs s) r = v) \<and>
    (\<forall>r. r \<notin> set (map fst rvs) \<longrightarrow> cmos (fold (\<lambda>(r, v). set_cmos r v) rvs s) r = cmos s r)"
  using assms
proof (induction rvs arbitrary: s)
  case (Cons rv rvs)
  obtain r v where rv: "rv = (r, v)" by (cases rv)
  from Cons.IH [of "set_cmos r v s"] Cons.prems show ?case by (auto simp: rv) 
qed simp


lemma set_time_simps [simp]:
  "cmos_data (rtc_set_time s) = cmos_data s" "base_year (rtc_set_time s) = base_year s" "cmos (rtc_set_time s) r = cmos s r"
  by (simp_all add: rtc_set_time_def Let_def cmos_def)

lemma reg_b_out:
  assumes "length (cmos_data s) = 128"
  shows "\<exists>s'. rtc_out e RTC_REG_B v s = Inr s' \<and> length (cmos_data s') = 128 \<and> base_year s' = base_year s \<and>
    cmos s' RTC_REG_B = (if v AND REG_B_SET \<noteq> 0 then v AND NOT REG_B_UIE else v) \<and>
    (\<forall>r. r \<noteq> RTC_REG_A \<and> r \<noteq> RTC_REG_B \<longrightarrow> cmos s' r = cmos s r) \<and>
    (v AND REG_B_SET = 0 \<and> cmos s RTC_REG_B AND REG_B_SET \<noteq> 0 \<longrightarrow> current_tm s' = decode_tm (format s) (base_year s) (cmos s))"
proof -
  have "format (s\<lparr>cmos_index := i\<rparr>) = format s" "cmos (s\<lparr>cmos_index := i\<rparr>) = cmos s" for i
    by (simp_all add: format_def fun_eq_iff)
  then show ?thesis using assms
    by (simp add: rtc_out_def cmos_ioport_write_def Let_def ucast_byte_u32 date_regs_eq rtc_regs set_time_decodes)
qed



definition ex_env :: rtc_env where
  "ex_env = \<lparr>rtc_clock = 5, hpet_in_legacy_mode = False, irq_delivered = True, rtc_td_hack = False\<rparr>"

definition ex_tm :: tm where
  "ex_tm = \<lparr>tm_sec = 30, tm_min = 59, tm_hour = 13, tm_wday = 2, tm_mday = 29, tm_mon = 1, tm_year = 100\<rparr>"

definition ex_rtc :: RTCState where
  "ex_rtc = rtc_initfn ex_env (ex_tm\<lparr>tm_hour := 0\<rparr>) 2000"


section \<open>The interrupt line\<close>

definition irq_up :: "RTCState \<Rightarrow> bool" where
  "irq_up s \<longleftrightarrow> rtc_irq s \<noteq> [] \<and> last (rtc_irq s) \<noteq> 0"

text \<open>
  The histories of a clock with or without re-injection (\<open>hack\<close>) in a machine whose HPET may take over its
  interrupts or not (\<open>hpet\<close>): accesses by the guest, the four timers and resets.
\<close>

definition env_of :: "bool \<Rightarrow> bool \<Rightarrow> rtc_env \<Rightarrow> bool" where
  "env_of hack hpet e \<longleftrightarrow> rtc_td_hack e = hack \<and> (hpet_in_legacy_mode e \<longrightarrow> hpet)"

inductive rtc_reach :: "bool \<Rightarrow> bool \<Rightarrow> RTCState \<Rightarrow> bool" for hack hpet where
  created: "rtc_reach hack hpet (rtc_initfn e host year)"
| outb: "rtc_reach hack hpet s \<Longrightarrow> env_of hack hpet e \<Longrightarrow> cmos_ioport_write e addr v s = Inr s' \<Longrightarrow> rtc_reach hack hpet s'"
| inb: "rtc_reach hack hpet s \<Longrightarrow> env_of hack hpet e \<Longrightarrow> cmos_ioport_read e addr s = Inr (v, s') \<Longrightarrow> rtc_reach hack hpet s'"
| periodic: "rtc_reach hack hpet s \<Longrightarrow> env_of hack hpet e \<Longrightarrow> rtc_reach hack hpet (rtc_periodic_timer e s)"
| coalesced: "rtc_reach hack hpet s \<Longrightarrow> env_of hack hpet e \<Longrightarrow> rtc_reach hack hpet (rtc_coalesced_timer e s)"
| second: "rtc_reach hack hpet s \<Longrightarrow> rtc_reach hack hpet (rtc_update_second s)"
| second2: "rtc_reach hack hpet s \<Longrightarrow> env_of hack hpet e \<Longrightarrow> rtc_reach hack hpet (rtc_update_second2 e s)"
| reset: "rtc_reach hack hpet s \<Longrightarrow> env_of hack hpet e \<Longrightarrow> rtc_reach hack hpet (rtc_reset e s)"

text \<open>What the line needs to know of the state: register C, the line, and what is left to re-inject.\<close>

definition rtc_wf :: "bool \<Rightarrow> bool \<Rightarrow> RTCState \<Rightarrow> bool" where
  "rtc_wf hack hpet s \<longleftrightarrow> length (cmos_data s) = 128 \<and> cmos_index s < 128 \<and>
     (irq_up s \<longrightarrow> bit (cmos s RTC_REG_C) 7) \<and> (bit (cmos s RTC_REG_C) 7 \<longrightarrow> irq_up s \<or> hpet) \<and>
     (irq_coalesced s \<noteq> 0 \<longrightarrow> hack \<and> (irq_reinject_on_ack_count s < RTC_REINJECT_ON_ACK_COUNT \<longrightarrow> bit (cmos s RTC_REG_C) 7))"

lemma wf_cong:
  assumes "rtc_wf hack hpet s" "length (cmos_data s') = length (cmos_data s)" "cmos_index s' = cmos_index s" "rtc_irq s' = rtc_irq s"
    "cmos s' RTC_REG_C = cmos s RTC_REG_C" "irq_coalesced s = 0 \<longrightarrow> irq_coalesced s' = 0"
    "irq_reinject_on_ack_count s' = irq_reinject_on_ack_count s"
  shows "rtc_wf hack hpet s'"
  using assms by (auto simp: rtc_wf_def irq_up_def)

lemma set_cmos_more [simp]:
  "rtc_irq (set_cmos r v s) = rtc_irq s" "irq_coalesced (set_cmos r v s) = irq_coalesced s"
  "irq_reinject_on_ack_count (set_cmos r v s) = irq_reinject_on_ack_count s"
  by (simp_all add: set_cmos_def)

lemma wf_set: "rtc_wf hack hpet s \<Longrightarrow> r \<noteq> RTC_REG_C \<Longrightarrow> rtc_wf hack hpet (set_cmos r v s)"
  by (erule wf_cong) (simp_all add: cmos_def set_cmos_def)

lemma wf_timer_update: "rtc_wf hack hpet s \<Longrightarrow> rtc_wf hack hpet (rtc_timer_update e t s)"
  by (erule wf_cong) (simp_all add: rtc_timer_update_def Let_def cmos_def)

lemma wf_set_time: "rtc_wf hack hpet s \<Longrightarrow> rtc_wf hack hpet (rtc_set_time s)"
  by (erule wf_cong) (simp_all add: rtc_set_time_def Let_def cmos_def)

lemma wf_copy_date: "rtc_wf hack hpet s \<Longrightarrow> rtc_wf hack hpet (rtc_copy_date s)"
  unfolding copy_date_encodes encode_tm_def by (simp add: split_beta Let_def wf_set rtc_regs)

lemma wf_coalesced_update: "rtc_wf hack hpet s \<Longrightarrow> rtc_wf hack hpet (rtc_coalesced_timer_update e s)"
  by (erule wf_cong) (simp_all add: rtc_coalesced_timer_update_def Let_def cmos_def)

text \<open>Setting the flag and raising the line.\<close>

lemma wf_raise:
  assumes "rtc_wf hack hpet s" "env_of hack hpet e" "bit v 7"
  shows "rtc_wf hack hpet (rtc_irq_raise e (set_cmos RTC_REG_C (cmos s RTC_REG_C OR v) s))"
  using assms by (auto simp: rtc_wf_def rtc_irq_raise_def env_of_def irq_up_def bit_or_iff RTC_REG_C_def) (simp_all add: cmos_def set_cmos_def bit_or_iff)

lemma raise_simps [simp]:
  "irq_coalesced (rtc_irq_raise e s) = irq_coalesced s" "irq_reinject_on_ack_count (rtc_irq_raise e s) = irq_reinject_on_ack_count s"
  "cmos (rtc_irq_raise e s) r = cmos s r" "cmos_data (rtc_irq_raise e s) = cmos_data s" "cmos_index (rtc_irq_raise e s) = cmos_index s"
  by (simp_all add: rtc_irq_raise_def cmos_def)

lemma wf_or: "rtc_wf hack hpet s \<Longrightarrow> \<not> bit v 7 \<Longrightarrow> rtc_wf hack hpet (set_cmos RTC_REG_C (cmos s RTC_REG_C OR v) s)"
  by (simp add: rtc_wf_def irq_up_def bit_or_iff RTC_REG_C_def)

lemma wf_write:
  assumes "rtc_wf hack hpet s" "cmos_ioport_write e addr v s = Inr s'"
  shows "rtc_wf hack hpet s'"
proof -
  have "ucast (v AND 0x7f) < (128 :: byte)"
  proof -
    have "ucast (v AND 0x7f) = (ucast v :: byte) AND 0x7f" by (simp add: unsigned_and_eq)
    also have "\<dots> \<le> 0x7f" by (rule word_and_le1)
    finally show ?thesis by (rule le_less_trans) simp
  qed
  then have i: "rtc_wf hack hpet (s\<lparr>cmos_index := ucast (v AND 0x7f)\<rparr>)" using assms(1) by (simp add: rtc_wf_def irq_up_def)
  have r: "RTC_REG_A \<noteq> RTC_REG_C" "RTC_REG_B \<noteq> RTC_REG_C" "r \<in> set date_regs \<Longrightarrow> r \<noteq> RTC_REG_C" for r
    by (auto simp: date_regs_eq rtc_regs)
  show ?thesis using assms i r
    by (auto simp: cmos_ioport_write_def Let_def split: if_splits intro!: wf_set wf_set_time wf_timer_update)
qed

lemma cmos_fields [simp]:
  "cmos (s\<lparr>rtc_irq := l\<rparr>) r = cmos s r" "cmos (s\<lparr>irq_coalesced := k\<rparr>) r = cmos s r"
  "cmos (s\<lparr>irq_reinject_on_ack_count := n\<rparr>) r = cmos s r" "cmos (s\<lparr>sqw_irq := q\<rparr>) r = cmos s r"
  by (simp_all add: cmos_def)

lemma wf_reinject:
  assumes "rtc_wf hack hpet s" "irq_coalesced s \<noteq> 0" "irq_reinject_on_ack_count s < RTC_REINJECT_ON_ACK_COUNT"
  shows "rtc_wf hack hpet (s\<lparr>irq_reinject_on_ack_count := n, rtc_irq := rtc_irq s @ [0, 1]\<rparr>)"
    "rtc_wf hack hpet (s\<lparr>irq_reinject_on_ack_count := n, rtc_irq := rtc_irq s @ [0, 1], irq_coalesced := k\<rparr>)"
  using assms by (simp_all add: rtc_wf_def irq_up_def)

lemma wf_acknowledge:
  assumes "rtc_wf hack hpet s" "irq_coalesced s \<noteq> 0 \<longrightarrow> \<not> irq_reinject_on_ack_count s < RTC_REINJECT_ON_ACK_COUNT"
  shows "rtc_wf hack hpet (set_cmos RTC_REG_C 0 (s\<lparr>rtc_irq := rtc_irq s @ [0]\<rparr>))"
  using assms by (simp add: rtc_wf_def irq_up_def RTC_REG_C_def)

lemma wf_read:
  assumes "rtc_wf hack hpet s" "cmos_ioport_read e addr s = Inr (v, s')"
  shows "rtc_wf hack hpet s'"
proof -
  have "case cmos_ioport_read e addr s of Inl _ \<Rightarrow> True | Inr (v, s') \<Rightarrow> rtc_wf hack hpet s'"
    unfolding cmos_ioport_read_def Let_def using assms(1) by (simp add: wf_reinject wf_acknowledge)
  then show ?thesis using assms(2) by simp
qed

lemma wf_periodic:
  assumes "rtc_wf hack hpet s" "env_of hack hpet e"
  shows "rtc_wf hack hpet (rtc_periodic_timer e s)"
proof -
  define t where "t = rtc_timer_update e (next_periodic_time s) s"
  define c where "c = set_cmos RTC_REG_C (cmos t RTC_REG_C OR 0xc0) t"
  define i where "i = (if RTC_REINJECT_ON_ACK_COUNT \<le> irq_reinject_on_ack_count c then c\<lparr>irq_reinject_on_ack_count := 0\<rparr> else c)"
  define r where "r = rtc_irq_raise e i"
  define p where "p = (if cmos t RTC_REG_B AND REG_B_PIE \<noteq> 0
    then if rtc_td_hack e then if \<not> irq_delivered e then rtc_coalesced_timer_update e (r\<lparr>irq_coalesced := irq_coalesced r + 1\<rparr>) else r
         else rtc_irq_raise e c
    else t)"
  have t: "rtc_wf hack hpet t" unfolding t_def using assms(1) by (rule wf_timer_update)
  then have b: "bit (cmos c RTC_REG_C) 7" by (simp add: c_def rtc_wf_def RTC_REG_C_def bit_or_iff)
  have c: "rtc_wf hack hpet (rtc_irq_raise e c)" unfolding c_def by (rule wf_raise [OF t assms(2)]) simp
  have "rtc_wf hack hpet (rtc_irq_raise e (x\<lparr>irq_reinject_on_ack_count := 0\<rparr>))"
    if "rtc_wf hack hpet (rtc_irq_raise e x)" "bit (cmos x RTC_REG_C) 7" for x
    using that by (simp add: rtc_wf_def irq_up_def rtc_irq_raise_def split: if_splits)
  then have r: "rtc_wf hack hpet r" using b c by (simp add: r_def i_def)
  have "bit (cmos r RTC_REG_C) 7" using b by (simp add: r_def i_def)
  then have "rtc_wf hack hpet (r\<lparr>irq_coalesced := m\<rparr>)" if "rtc_td_hack e" for m
    using r that assms(2) by (simp add: rtc_wf_def irq_up_def env_of_def)
  then have p: "rtc_wf hack hpet p" using t r c by (simp add: p_def wf_coalesced_update)
  have "rtc_wf hack hpet (x\<lparr>sqw_irq := l\<rparr>) = rtc_wf hack hpet x" for x l by (simp add: rtc_wf_def irq_up_def)
  moreover have "rtc_periodic_timer e s =
    (if cmos p RTC_REG_B AND REG_B_SQWE \<noteq> 0 then p\<lparr>sqw_irq := map_option (\<lambda>ls. ls @ [1]) (sqw_irq p)\<rparr> else p)"
    unfolding rtc_periodic_timer_def Let_def t_def [symmetric] c_def [symmetric] i_def [symmetric] r_def [symmetric] p_def [symmetric] by simp
  ultimately show ?thesis using p by simp
qed

lemma wf_coalesced:
  assumes "rtc_wf hack hpet s" "env_of hack hpet e"
  shows "rtc_wf hack hpet (rtc_coalesced_timer e s)"
proof -
  have r: "rtc_wf hack hpet (rtc_irq_raise e (set_cmos RTC_REG_C (cmos s RTC_REG_C OR 0xc0) s))"
    by (rule wf_raise [OF assms]) simp
  have "rtc_wf hack hpet (x\<lparr>irq_coalesced := m\<rparr>)" if "rtc_wf hack hpet x" "irq_coalesced x \<noteq> 0" for x m
    using that by (simp add: rtc_wf_def irq_up_def)
  then show ?thesis unfolding rtc_coalesced_timer_def Let_def using assms(1) r by (simp add: wf_coalesced_update)
qed

lemma wf_second: "rtc_wf hack hpet s \<Longrightarrow> rtc_wf hack hpet (rtc_update_second s)"
  by (erule wf_cong) (simp_all add: rtc_update_second_def Let_def cmos_def set_cmos_def rtc_regs)

lemma wf_second2:
  assumes "rtc_wf hack hpet s" "env_of hack hpet e"
  shows "rtc_wf hack hpet (rtc_update_second2 e s)"
proof -
  have t: "rtc_wf hack hpet (x\<lparr>next_second_time := a, second_timer := c\<rparr>) = rtc_wf hack hpet x" for x a c
    by (simp add: rtc_wf_def irq_up_def cmos_def)
  have a: "rtc_wf hack hpet (set_cmos RTC_REG_A v x)" if "rtc_wf hack hpet x" for x v
    using that by (rule wf_set) (simp add: rtc_regs)
  have al: "rtc_wf hack hpet (rtc_irq_raise e (set_cmos RTC_REG_C (cmos x RTC_REG_C OR 0xa0) x))"
    "rtc_wf hack hpet (rtc_irq_raise e (set_cmos RTC_REG_C (cmos x RTC_REG_C OR REG_C_IRQF) x))" if "rtc_wf hack hpet x" for x
    using that by (simp_all add: wf_raise [OF _ assms(2)] REG_C_IRQF_def)
  have u: "rtc_wf hack hpet (set_cmos RTC_REG_C (cmos x RTC_REG_C OR REG_C_UF) x)" if "rtc_wf hack hpet x" for x
    using that by (simp add: wf_or REG_C_UF_def)
  define s1 where "s1 = (if cmos s RTC_REG_B AND REG_B_SET = 0 then rtc_copy_date s else s)"
  define s2 where "s2 = (if cmos s1 RTC_REG_B AND REG_B_AIE \<noteq> 0 \<and> alarm_matches (cmos s1 RTC_SECONDS_ALARM) (tm_sec (current_tm s1)) \<and>
                  alarm_matches (cmos s1 RTC_MINUTES_ALARM) (tm_mon (current_tm s1)) \<and>
                  alarm_matches (cmos s1 RTC_HOURS_ALARM) (tm_hour (current_tm s1))
               then rtc_irq_raise e (set_cmos RTC_REG_C (cmos s1 RTC_REG_C OR 0xa0) s1) else s1)"
  have "rtc_wf hack hpet s1" using assms(1) by (simp add: s1_def wf_copy_date)
  then have "rtc_wf hack hpet s2" by (simp add: s2_def al(1))
  then have s3: "rtc_wf hack hpet (set_cmos RTC_REG_C (cmos s2 RTC_REG_C OR REG_C_UF) s2)" by (rule u)
  show ?thesis
    unfolding rtc_update_second2_def Let_def s1_def [symmetric] s2_def [symmetric] t using s3 al(2) [OF s3] by (auto intro!: a)
qed

lemma wf_reset:
  assumes "rtc_wf hack hpet s" "env_of hack hpet e"
  shows "rtc_wf hack hpet (rtc_reset e s)"
proof -
  have n: "\<not> bit (v AND NOT REG_C_UF AND NOT REG_C_IRQF AND w) 7" for v w
    by (simp add: REG_C_UF_def REG_C_IRQF_def bit_simps)
  show ?thesis using assms
    by (auto simp: rtc_reset_def Let_def rtc_wf_def irq_up_def RTC_REG_C_def RTC_REG_B_def env_of_def n)
qed

lemma wf_created: "rtc_wf hack hpet (rtc_initfn e host year)"
proof -
  let ?z = "\<lparr>cmos_data = replicate 128 0, cmos_index = 0, current_tm = host, base_year = year, rtc_irq = [], sqw_irq = None,
    periodic_timer = None, next_periodic_time = 0, next_second_time = 0, irq_reinject_on_ack_count = 0,
    irq_coalesced = 0, period = 0, coalesced_timer = None, second_timer = None, second_timer2 = None\<rparr>"
  have "rtc_wf hack hpet (set_cmos RTC_REG_D 0x80 (set_cmos RTC_REG_C 0 (set_cmos RTC_REG_B 0x02 (set_cmos RTC_REG_A 0x26 ?z))))"
    by (simp add: rtc_wf_def irq_up_def rtc_regs)
  moreover have "rtc_wf hack hpet (rtc_set_memory a v x)" if "rtc_wf hack hpet x" "a \<noteq> 12" for a v x
    using that by (auto simp: rtc_set_memory_def RTC_REG_C_def intro!: wf_set)
  moreover have "rtc_wf hack hpet (x\<lparr>current_tm := q\<rparr>)" if "rtc_wf hack hpet x" for x q
    using that by (rule wf_cong) (simp_all add: cmos_def)
  moreover have "rtc_wf hack hpet (x\<lparr>next_second_time := a, second_timer2 := c\<rparr>) = rtc_wf hack hpet x" for x a c
    by (simp add: rtc_wf_def irq_up_def cmos_def)
  ultimately show ?thesis
    by (simp add: rtc_initfn_def rtc_set_date_from_host_def rtc_set_date_def Let_def wf_copy_date)
qed

lemma rtc_reach_wf: "rtc_reach hack hpet s \<Longrightarrow> rtc_wf hack hpet s"
  by (induction rule: rtc_reach.induct)
    (rule wf_created wf_periodic wf_coalesced wf_second wf_second2 wf_reset, assumption+ | erule (1) wf_write wf_read | rule wf_created)+


lemma rtc_access:
  "rtc_wf hack hpet s \<Longrightarrow> \<exists>s'. cmos_ioport_write e addr v s = Inr s'"
  "rtc_wf hack hpet s \<Longrightarrow> \<exists>v s'. cmos_ioport_read e addr s = Inr (v, s')"
  by (auto simp: rtc_wf_def cmos_ioport_write_def cmos_ioport_read_def Let_def word_less_nat_alt)

text \<open>
  C19. The interrupt of the clock, over every history of accesses by the guest, ticks of its four timers and resets, with
  or without the re-injection of missed interrupts: no access of the guest is outside the 128 bytes of CMOS memory;
  whenever the interrupt line is up the interrupt flag of register C is set, so a guest that reads the register never sees a
  spurious interrupt; and the guest that polls register C of a clock with no interrupt left to re-inject lowers the line and clears
  the flags. In a machine whose HPET does not take over the interrupts the flag is set only while the line is up.
\<close>

theorem rtc_line:
  assumes "rtc_reach hack hpet s"
  shows "(\<exists>s'. cmos_ioport_write e addr v s = Inr s') \<and> (\<exists>r s'. cmos_ioport_read e addr s = Inr (r, s')) \<and>
    (irq_up s \<longrightarrow> bit (cmos s RTC_REG_C) 7) \<and> (\<not> hpet \<longrightarrow> bit (cmos s RTC_REG_C) 7 = irq_up s) \<and>
    (cmos_index s = 12 \<and> (hack \<longrightarrow> irq_coalesced s = 0) \<longrightarrow>
       (\<exists>s'. cmos_ioport_read e 0x71 s = Inr (ucast (cmos s RTC_REG_C), s') \<and> \<not> irq_up s' \<and> cmos s' RTC_REG_C = 0))"
proof -
  note w = rtc_reach_wf [OF assms]
  have "\<exists>s'. cmos_ioport_read e 0x71 s = Inr (ucast (cmos s RTC_REG_C), s') \<and> \<not> irq_up s' \<and> cmos s' RTC_REG_C = 0"
    if "cmos_index s = 12" "hack \<longrightarrow> irq_coalesced s = 0"
    using w that by (auto simp: rtc_wf_def cmos_ioport_read_def irq_up_def RTC_REG_C_def Let_def)
  moreover have "irq_up s \<longrightarrow> bit (cmos s RTC_REG_C) 7" "\<not> hpet \<longrightarrow> bit (cmos s RTC_REG_C) 7 = irq_up s"
    using w by (auto simp: rtc_wf_def)
  ultimately show ?thesis using rtc_access [OF w] by blast
qed

text \<open>The periodic interrupt enabled by the guest, one tick of it, and register C selected.\<close>

definition ex_tick :: "rtc_error + RTCState" where
  "ex_tick = (case rtc_out ex_env 11 0x42 ex_rtc of Inl err \<Rightarrow> Inl err
     | Inr s \<Rightarrow> cmos_ioport_write ex_env 0x70 12 (rtc_periodic_timer ex_env s))"

lemma ex_tick_reach: "ex_tick = Inr s \<Longrightarrow> rtc_reach False False s"
proof -
  assume "ex_tick = Inr s"
  then obtain a b where w: "cmos_ioport_write ex_env 0x70 11 ex_rtc = Inr a" "cmos_ioport_write ex_env 0x71 0x42 a = Inr b"
    "cmos_ioport_write ex_env 0x70 12 (rtc_periodic_timer ex_env b) = Inr s"
    by (auto simp: ex_tick_def rtc_out_def bindR_def split: sum.splits)
  have env: "env_of False False ex_env" by (simp add: env_of_def ex_env_def)
  have "rtc_reach False False ex_rtc" unfolding ex_rtc_def by (rule rtc_reach.created)
  from rtc_reach.periodic [OF rtc_reach.outb [OF rtc_reach.outb [OF this env w(1)] env w(2)] env]
  show ?thesis by (rule rtc_reach.outb [OF _ env w(3)])
qed

theorem rtc_line_witness:
  "\<exists>s s'. ex_tick = Inr s \<and> irq_up s \<and> bit (cmos s RTC_REG_C) 7 \<and>
     cmos_ioport_read ex_env 0x71 s = Inr (0xc0, s') \<and> \<not> irq_up s' \<and> cmos s' RTC_REG_C = 0"
proof -
  have "case ex_tick of Inl _ \<Rightarrow> False | Inr s \<Rightarrow> irq_up s \<and> cmos s RTC_REG_C = 0xc0 \<and> cmos_index s = 12" by code_simp
  then obtain s where s: "ex_tick = Inr s" "irq_up s" "cmos s RTC_REG_C = 0xc0" "cmos_index s = 12" by (auto split: sum.splits)
  from rtc_line [OF ex_tick_reach [OF s(1)], of ex_env] s show ?thesis by auto
qed

section \<open>Saving and loading\<close>

definition tm_codec :: "(tm \<Rightarrow> int) \<Rightarrow> ((int \<Rightarrow> int) \<Rightarrow> tm \<Rightarrow> tm) \<Rightarrow> RTCState codec" where
  "tm_codec rd upd = cp_field be32_bytes (\<lambda>s. word_of_int (rd (current_tm s))) (\<lambda>v s. s\<lparr>current_tm := upd (\<lambda>_. sint v) (current_tm s)\<rparr>)"

definition timer_codec :: "(RTCState \<Rightarrow> timer) \<Rightarrow> (timer \<Rightarrow> RTCState \<Rightarrow> RTCState) \<Rightarrow> RTCState codec" where
  "timer_codec rd wr = cp_field (\<lambda>v. be64_bytes (case v of Some t \<Rightarrow> t | None \<Rightarrow> - 1)) rd wr"

definition rtc_codecs :: "RTCState codec list" where
  "rtc_codecs =
     [cp_field id cmos_data (\<lambda>v s. s\<lparr>cmos_data := v\<rparr>),
      cp_field (\<lambda>v. [v]) cmos_index (\<lambda>v s. s\<lparr>cmos_index := v\<rparr>),
      tm_codec tm_sec tm_sec_update, tm_codec tm_min tm_min_update, tm_codec tm_hour tm_hour_update, tm_codec tm_wday tm_wday_update,
      tm_codec tm_mday tm_mday_update, tm_codec tm_mon tm_mon_update, tm_codec tm_year tm_year_update,
      timer_codec periodic_timer (\<lambda>v s. s\<lparr>periodic_timer := v\<rparr>),
      cp_field be64_bytes next_periodic_time (\<lambda>v s. s\<lparr>next_periodic_time := v\<rparr>),
      cp_field be64_bytes next_second_time (\<lambda>v s. s\<lparr>next_second_time := v\<rparr>),
      timer_codec second_timer (\<lambda>v s. s\<lparr>second_timer := v\<rparr>),
      timer_codec second_timer2 (\<lambda>v s. s\<lparr>second_timer2 := v\<rparr>),
      cp_field be32_bytes irq_coalesced (\<lambda>v s. s\<lparr>irq_coalesced := v\<rparr>),
      cp_field be32_bytes period (\<lambda>v s. s\<lparr>period := v\<rparr>)]"

definition rtc_pair :: "RTCState \<Rightarrow> RTCState \<Rightarrow> bool" where
  "rtc_pair p q \<longleftrightarrow> length (cmos_data p) = 128 \<and> length (cmos_data q) = 128 \<and>
     periodic_timer p \<noteq> Some (- 1) \<and> second_timer p \<noteq> Some (- 1) \<and> second_timer2 p \<noteq> Some (- 1)"

lemma rtc_field_codecs:
  "field_codec rtc_pair (tm_field nm rd upd) (fst (tm_codec rd upd)) (snd (tm_codec rd upd))"
  "field_codec rtc_pair (VMSTATE_TIMER nm periodic_timer (\<lambda>v s. s\<lparr>periodic_timer := v\<rparr>))
     (fst (timer_codec periodic_timer (\<lambda>v s. s\<lparr>periodic_timer := v\<rparr>))) (snd (timer_codec periodic_timer (\<lambda>v s. s\<lparr>periodic_timer := v\<rparr>)))"
  "field_codec rtc_pair (VMSTATE_TIMER nm second_timer (\<lambda>v s. s\<lparr>second_timer := v\<rparr>))
     (fst (timer_codec second_timer (\<lambda>v s. s\<lparr>second_timer := v\<rparr>))) (snd (timer_codec second_timer (\<lambda>v s. s\<lparr>second_timer := v\<rparr>)))"
  "field_codec rtc_pair (VMSTATE_TIMER nm second_timer2 (\<lambda>v s. s\<lparr>second_timer2 := v\<rparr>))
     (fst (timer_codec second_timer2 (\<lambda>v s. s\<lparr>second_timer2 := v\<rparr>))) (snd (timer_codec second_timer2 (\<lambda>v s. s\<lparr>second_timer2 := v\<rparr>)))"
  "field_codec rtc_pair (VMSTATE_BUFFER nm 128 cmos_data (\<lambda>v s. s\<lparr>cmos_data := v\<rparr>))
     (fst (cp_field id cmos_data (\<lambda>v s. s\<lparr>cmos_data := v\<rparr>))) (snd (cp_field id cmos_data (\<lambda>v s. s\<lparr>cmos_data := v\<rparr>)))"
  "field_codec rtc_pair (VMSTATE_UINT8 nm cmos_index (\<lambda>v s. s\<lparr>cmos_index := v\<rparr>))
     (fst (cp_field (\<lambda>v. [v]) cmos_index (\<lambda>v s. s\<lparr>cmos_index := v\<rparr>))) (snd (cp_field (\<lambda>v. [v]) cmos_index (\<lambda>v s. s\<lparr>cmos_index := v\<rparr>)))"
  "field_codec rtc_pair (VMSTATE_INT64 nm next_periodic_time (\<lambda>v s. s\<lparr>next_periodic_time := v\<rparr>))
     (fst (cp_field be64_bytes next_periodic_time (\<lambda>v s. s\<lparr>next_periodic_time := v\<rparr>))) (snd (cp_field be64_bytes next_periodic_time (\<lambda>v s. s\<lparr>next_periodic_time := v\<rparr>)))"
  "field_codec rtc_pair (VMSTATE_INT64 nm next_second_time (\<lambda>v s. s\<lparr>next_second_time := v\<rparr>))
     (fst (cp_field be64_bytes next_second_time (\<lambda>v s. s\<lparr>next_second_time := v\<rparr>))) (snd (cp_field be64_bytes next_second_time (\<lambda>v s. s\<lparr>next_second_time := v\<rparr>)))"
  "field_codec rtc_pair (VMSTATE_UINT32_V nm irq_coalesced (\<lambda>v s. s\<lparr>irq_coalesced := v\<rparr>) ver)
     (fst (cp_field be32_bytes irq_coalesced (\<lambda>v s. s\<lparr>irq_coalesced := v\<rparr>))) (snd (cp_field be32_bytes irq_coalesced (\<lambda>v s. s\<lparr>irq_coalesced := v\<rparr>)))"
  "field_codec rtc_pair (VMSTATE_UINT32_V nm period (\<lambda>v s. s\<lparr>period := v\<rparr>) ver)
     (fst (cp_field be32_bytes period (\<lambda>v s. s\<lparr>period := v\<rparr>))) (snd (cp_field be32_bytes period (\<lambda>v s. s\<lparr>period := v\<rparr>)))"
  unfolding tm_field_def tm_codec_def timer_codec_def cp_field_def fst_conv snd_conv id_def
  by (rule vm_codecs; simp add: rtc_pair_def)+

lemma rtc_versions [simp]: "vf_version (tm_field nm rd upd) = 0" "vf_version (VMSTATE_UINT32_V nm rd32 wr32 ver) = ver"
  by (simp_all add: tm_field_def vm_macro_defs)

lemma rtc_fields: "fields_codec rtc_pair 2 (vmsd_fields (vmstate_rtc e)) rtc_codecs"
  unfolding fields_codec_def vmstate_rtc_def rtc_codecs_def by (simp add: rtc_field_codecs)

text \<open>What a clock takes over from the file; the re-injection of missed interrupts starts again.\<close>

definition loaded_rtc :: "rtc_env \<Rightarrow> RTCState \<Rightarrow> RTCState \<Rightarrow> RTCState" where
  "loaded_rtc e p q =
     (let r = p\<lparr>base_year := base_year q, rtc_irq := rtc_irq q, sqw_irq := sqw_irq q,
        irq_reinject_on_ack_count := irq_reinject_on_ack_count q, coalesced_timer := coalesced_timer q\<rparr>
      in if rtc_td_hack e then rtc_coalesced_timer_update e r else r)"

definition int_tm :: "tm \<Rightarrow> bool" where
  "int_tm t \<longleftrightarrow> (\<forall>x \<in> {tm_sec t, tm_min t, tm_hour t, tm_wday t, tm_mday t, tm_mon t, tm_year t}. - (2 ^ 31) \<le> x \<and> x < 2 ^ 31)"

lemma sint_int: "- (2 ^ 31) \<le> x \<Longrightarrow> x < 2 ^ 31 \<Longrightarrow> sint (word_of_int x :: u32) = x"
  by (simp add: sint_sbintrunc' signed_take_bit_int_eq_self)

lemma rtc_copied:
  assumes "int_tm (current_tm p)"
  shows "cp_all rtc_codecs p q = p\<lparr>base_year := base_year q, rtc_irq := rtc_irq q, sqw_irq := sqw_irq q,
        irq_reinject_on_ack_count := irq_reinject_on_ack_count q, coalesced_timer := coalesced_timer q\<rparr>"
  using assms unfolding cp_all_def rtc_codecs_def tm_codec_def timer_codec_def int_tm_def
  by (cases p, cases q, cases "current_tm p", cases "current_tm q") (simp add: sint_int)

text \<open>
  A snapshot restores the clock: its registers, its date, its timers and the interrupts to re-inject. The count of re-injections is not
  in the file, and the timer of the re-injection is armed anew.
\<close>

theorem rtc_snapshot:
  assumes "rtc_pair p q" "int_tm (current_tm p)"
  shows "\<exists>f f'. vmstate_save_state (vmstate_rtc e) p fopen_new = Inr (p, f) \<and>
    vmstate_load_state (vmstate_rtc e) q 2 (fopen_old (snd (qemu_fclose f))) = Inr (0, loaded_rtc e p q, f')"
proof -
  let ?v = "vmstate_rtc e :: (RTCState, FILE) VMStateDescription"
  have s: "after_save ?v p = p" "vmsd_version ?v = 2" by (simp_all add: after_save_def vmstate_rtc_def)
  have l: "after_load ?v (cp_all rtc_codecs p q) = (0, loaded_rtc e p q)"
    unfolding rtc_copied [OF assms(2)] by (simp add: after_load_def vmstate_rtc_def rtc_post_load_def loaded_rtc_def)
  show ?thesis
    using vmsd_roundtrip [where vmsd = ?v and s = p and t = q and cs = rtc_codecs and R = rtc_pair and r = 0 and t' = "loaded_rtc e p q"]
      rtc_fields assms(1) s l by (simp add: vmstate_rtc_def)
qed

end
