(* ===== verification/PCClock.thy ===== *)
theory PCClock
  imports PC RTC
begin

text \<open>
  The real time clock in the machine of \<open>PC\<close>: its ports beside those of the board and its interrupt on line 8, the first line
  of the slave controller, which reaches the CPU through line 2 of the master.
\<close>

unbundle bit_operations_syntax

section \<open>Lines of the slave\<close>

text \<open>Both controllers wait for line \<open>n\<close> of the slave.\<close>

definition pic_idle :: "nat \<Rightarrow> PicState \<Rightarrow> bool" where
  "pic_idle n s \<longleftrightarrow> irr s = 0 \<and> isr s = 0 \<and> auto_eoi s = 0 \<and> \<not> bit (imr s) n \<and> \<not> bit (elcr s) n \<and> \<not> bit (last_irr s) n"

definition cascade_waits :: "nat \<Rightarrow> PicState2 \<Rightarrow> bool" where
  "cascade_waits n s \<longleftrightarrow> pic_idle 2 (pic0 s) \<and> pic_idle n (pic1 s)"

definition requested :: "nat \<Rightarrow> PicState \<Rightarrow> PicState" where
  "requested n s = s\<lparr>irr := irq_bit n, last_irr := last_irr s OR irq_bit n\<rparr>"

definition acknowledged :: "nat \<Rightarrow> PicState \<Rightarrow> PicState" where
  "acknowledged n s = s\<lparr>irr := 0, isr := irq_bit n\<rparr>"

lemma pulse:
  assumes "n < 8" "\<not> bit (elcr s) n" "\<not> bit (last_irr s) n" "irr s = 0 \<or> irr s = irq_bit n"
  shows "pic_set_irq1 (pic_set_irq1 s n 1) n 0 = s\<lparr>irr := irq_bit n\<rparr>"
proof -
  have "(last_irr s OR irq_bit n) AND NOT (irq_bit n) = last_irr s"
    using assms(3) by (intro bit_eqI) (auto simp: bit_simps irq_bit_def)
  then show ?thesis using assms by (auto simp: pic_set_irq1_def Let_def and_irq_bit)
qed

lemma idle_request: "n < 8 \<Longrightarrow> pic_idle n s \<Longrightarrow> pic_set_irq1 s n 1 = requested n s"
  by (simp add: pic_idle_def requested_def pic_set_irq1_def Let_def and_irq_bit)

lemma request_again: "n < 8 \<Longrightarrow> pic_idle n s \<Longrightarrow> pic_set_irq1 (requested n s) n 1 = requested n s"
  by (simp add: pic_idle_def requested_def pic_set_irq1_def Let_def and_irq_bit bit_simps)

lemma requested_irq: "n < 8 \<Longrightarrow> pic_idle n s \<Longrightarrow> pic_get_irq which (requested n s) = int n"
  "n < 8 \<Longrightarrow> pic_idle n s \<Longrightarrow> pic_get_irq which (s\<lparr>irr := irq_bit n\<rparr>) = int n"
  by (rule get_irq_single; simp add: pic_idle_def requested_def)+

text \<open>A line of the slave is raised, once or again before the acknowledge.\<close>

definition cascade_up :: "nat \<Rightarrow> PicState2 \<Rightarrow> int list \<Rightarrow> PicState2" where
  "cascade_up n s ls = s\<lparr>pic0 := (pic0 s)\<lparr>irr := irq_bit 2\<rparr>, pic1 := requested n (pic1 s), parent_irq := parent_irq s @ ls\<rparr>"

lemma slave_rises:
  assumes "n < 8" "cascade_waits n s"
  shows "i8259_set_irq s (8 + n) 1 = cascade_up n s [1]" "i8259_set_irq (cascade_up n s ls) (8 + n) 1 = cascade_up n s (ls @ [1])"
proof -
  have i: "pic_idle 2 (pic0 s)" "pic_idle n (pic1 s)" using assms(2) by (simp_all add: cascade_waits_def)
  have p: "pic_set_irq1 (pic_set_irq1 (pic0 s) 2 1) 2 0 = (pic0 s)\<lparr>irr := irq_bit 2\<rparr>"
    "pic_set_irq1 (pic_set_irq1 ((pic0 s)\<lparr>irr := irq_bit 2\<rparr>) 2 1) 2 0 = (pic0 s)\<lparr>irr := irq_bit 2\<rparr>"
    using i(1) by (simp_all add: pulse pic_idle_def)
  have d: "(8 + n) div 8 \<noteq> 0" "(8 + n) mod 8 = n" using assms(1) by auto
  note r = requested_irq(1) [OF assms(1) i(2)] requested_irq(2) [OF _ i(1)]
  show "i8259_set_irq s (8 + n) 1 = cascade_up n s [1]"
    using d by (simp add: i8259_set_irq_def idle_request [OF assms(1) i(2)] pic_update_irq_def Let_def r p qemu_set_irq_def cascade_up_def)
  show "i8259_set_irq (cascade_up n s ls) (8 + n) 1 = cascade_up n s (ls @ [1])"
    using d by (simp add: i8259_set_irq_def request_again [OF assms(1) i(2)] pic_update_irq_def Let_def r p qemu_set_irq_def cascade_up_def)
qed

definition cascade_served :: "nat \<Rightarrow> PicState2 \<Rightarrow> int list \<Rightarrow> PicState2" where
  "cascade_served n s ls =
     s\<lparr>pic0 := acknowledged 2 (pic0 s), pic1 := acknowledged n (requested n (pic1 s)), parent_irq := parent_irq s @ ls\<rparr>"

lemma idle_intack:
  assumes "n < 8" "pic_idle n s"
  shows "pic_intack (requested n s) n = acknowledged n (requested n s)" "pic_intack (s\<lparr>irr := irq_bit n\<rparr>) n = acknowledged n s"
  using assms irq_bit_cleared [of n] by (simp_all add: pic_intack_def Let_def pic_idle_def requested_def acknowledged_def and_irq_bit)

lemma cascade_ack:
  assumes "n < 8" "cascade_waits n s"
  shows "pic_read_irq (cascade_up n s ls) = (uint (irq_base (pic1 s)) + int n, cascade_served n s ls)"
proof -
  have i: "pic_idle 2 (pic0 s)" "pic_idle n (pic1 s)" using assms(2) by (simp_all add: cascade_waits_def)
  note r = requested_irq(1) [OF assms(1) i(2)] requested_irq(2) [OF _ i(1)]
  have z: "pic_get_irq which (acknowledged k p) = -1" for which k p by (simp add: get_irq_none acknowledged_def)
  have b: "irq_base (acknowledged n (requested n (pic1 s))) = irq_base (pic1 s)" by (simp add: acknowledged_def requested_def)
  show ?thesis
    using idle_intack [OF assms(1) i(2)] idle_intack(2) [OF _ i(1)]
    by (simp add: pic_read_irq_def cascade_up_def r push_timer_def Let_def pic_update_irq_def z b cascade_served_def)
qed

text \<open>The line falls while it is in service.\<close>

lemma cascade_falls:
  assumes "n < 8" "cascade_waits n s"
  shows "i8259_set_irq (cascade_served n s ls) (8 + n) 0 = (cascade_served n s ls)\<lparr>pic1 := acknowledged n (pic1 s)\<rparr>"
proof -
  have i: "pic_idle 2 (pic0 s)" "pic_idle n (pic1 s)" using assms(2) by (simp_all add: cascade_waits_def)
  have "(last_irr (pic1 s) OR irq_bit n) AND NOT (irq_bit n) = last_irr (pic1 s)"
    using i(2) by (intro bit_eqI) (auto simp: bit_simps irq_bit_def pic_idle_def)
  then have "pic_set_irq1 (acknowledged n (requested n (pic1 s))) n 0 = acknowledged n (pic1 s)"
    using assms(1) i(2) by (simp add: pic_set_irq1_def acknowledged_def requested_def Let_def and_irq_bit pic_idle_def)
  moreover have "pic_get_irq which (acknowledged k p) = -1" for which k p by (simp add: get_irq_none acknowledged_def)
  moreover have "(8 + n) div 8 \<noteq> 0" "(8 + n) mod 8 = n" using assms(1) by auto
  ultimately show ?thesis by (simp add: i8259_set_irq_def pic_update_irq_def Let_def cascade_served_def)
qed

text \<open>The end of interrupt, to either controller.\<close>

lemma eoi:
  assumes "n < 8" "irr (pic0 s) = 0" "irr (pic1 s) = 0" "isr (the_pic s which) = irq_bit n" "addr AND 1 = 0"
  shows "pic_ioport_write which s addr 0x20 = Inr (set_pic s which ((the_pic s which)\<lparr>isr := 0\<rparr>))"
proof -
  let ?p = "the_pic s which"
  have "get_priority ?p (irq_bit n) \<noteq> 8" "(get_priority ?p (irq_bit n) + unat (priority_add ?p)) mod 8 = n"
    using get_priority_irq_bit [OF assms(1), of ?p] by auto
  moreover have "drop_bit 5 (0x20 :: u32) = 1" by code_simp
  ultimately have "pic_ocw2 which s 0x20 = pic_update_irq (set_pic s which (?p\<lparr>isr := 0\<rparr>))"
    using irq_bit_cleared [of n] assms(4) by (simp add: pic_ocw2_def Let_def)
  moreover have "pic_get_irq w (pic0 (set_pic s which (?p\<lparr>isr := 0\<rparr>))) = -1" "pic_get_irq w (pic1 (set_pic s which (?p\<lparr>isr := 0\<rparr>))) = -1" for w
    using assms(2,3) by (cases which; simp add: get_irq_none)+
  ultimately show ?thesis using assms(5) by (simp add: pic_ioport_write_def Let_def pic_update_irq_def)
qed

section \<open>The machine with its clock\<close>

record clock_pc =
  board :: pc
  rtc :: RTCState

text \<open>The clock after an operation: its new calls on line 8 of the board.\<close>

definition rtc_done :: "clock_pc \<Rightarrow> RTCState \<Rightarrow> clock_pc" where
  "rtc_done m s =
     m\<lparr>board := fold (\<lambda>l b. isa_irq_handler b 8 l) (drop (length (rtc_irq (rtc m))) (rtc_irq s)) (board m), rtc := s\<rparr>"

definition cmos_in :: "rtc_env \<Rightarrow> clock_pc IOPortReadFunc" where
  "cmos_in e obj addr m = (case cmos_ioport_read e addr (rtc m) of Inl CmosBounds \<Rightarrow> Inl IO_Crash | Inr (v, s) \<Rightarrow> Inr (v, rtc_done m s))"

definition cmos_out :: "rtc_env \<Rightarrow> clock_pc IOPortWriteFunc" where
  "cmos_out e obj addr val m = (case cmos_ioport_write e addr val (rtc m) of Inl CmosBounds \<Rightarrow> Inl IO_Crash | Inr s \<Rightarrow> Inr (rtc_done m s))"

text \<open>A port of the board in the whole machine.\<close>

fun on_board :: "pc port_op \<Rightarrow> clock_pc port_op" where
  "on_board (RegRead start len sz f x) =
     RegRead start len sz (\<lambda>obj addr m. bindR (f obj addr (board m)) (\<lambda>(v, b). Inr (v, m\<lparr>board := b\<rparr>))) x"
| "on_board (RegWrite start len sz f x) =
     RegWrite start len sz (\<lambda>obj addr v m. bindR (f obj addr v (board m)) (\<lambda>b. Inr (m\<lparr>board := b\<rparr>))) x"
| "on_board (Unassign start len) = Unassign start len"

text \<open>The clock comes before the devices from port \<open>0x92\<close> on.\<close>

definition rtc_ports :: "rtc_env \<Rightarrow> u64 \<Rightarrow> clock_pc port_op list" where
  "rtc_ports e x = [RegWrite 0x70 2 1 (cmos_out e) x, RegRead 0x70 2 1 (cmos_in e) x]"

definition clock_ports :: "rtc_env \<Rightarrow> (device \<Rightarrow> u64) \<Rightarrow> u64 \<Rightarrow> clock_pc port_op list" where
  "clock_ports e at x = map on_board (take 10 (pc_ports at)) @ rtc_ports e x @ map on_board (drop 10 (pc_ports at))"

text \<open>The end of a second, and the acknowledge of the CPU.\<close>

definition pc_second :: "rtc_env \<Rightarrow> clock_pc \<Rightarrow> clock_pc" where
  "pc_second e m = rtc_done m (rtc_update_second2 e (rtc m))"

definition clock_ack :: "clock_pc \<Rightarrow> int \<times> clock_pc" where
  "clock_ack m = (let (v, b) = pc_ack (board m) in (v, m\<lparr>board := b\<rparr>))"

section \<open>What the clock does to its line\<close>

lemma fold_line: "pics (fold (\<lambda>l b. isa_irq_handler b 8 l) ls b) = fold (\<lambda>l p. i8259_set_irq p 8 l) ls (pics b)"
  by (induction ls arbitrary: b) auto

lemma rtc_done_simps [simp]: "rtc (rtc_done m s) = s"
  "rtc_irq s = rtc_irq (rtc m) @ ls \<Longrightarrow> pics (board (rtc_done m s)) = fold (\<lambda>l p. i8259_set_irq p 8 l) ls (pics (board m))"
  by (simp_all add: rtc_done_def fold_line)

lemma raises: "cascade_waits 0 p \<Longrightarrow> fold (\<lambda>l p. i8259_set_irq p 8 l) (replicate k 1) (cascade_up 0 p ls) = cascade_up 0 p (ls @ replicate k 1)"
proof (induction k arbitrary: ls)
  case (Suc k)
  then show ?case using slave_rises(2) [of 0 p] by simp
qed simp

lemma second2_line:
  assumes "length (cmos_data s) = 128" "\<not> hpet_in_legacy_mode e" "bit (cmos s RTC_REG_B) 4"
  defines "s1 \<equiv> rtc_update_second2 e s"
  shows "\<exists>k. rtc_irq s1 = rtc_irq s @ 1 # replicate k 1"
    "bit (cmos s1 RTC_REG_C) 7" "bit (cmos s1 RTC_REG_C) 4" "cmos s1 RTC_REG_B = cmos s RTC_REG_B" "irq_coalesced s1 = irq_coalesced s"
proof -
  define a where "a = (if cmos s RTC_REG_B AND REG_B_SET = 0 then rtc_copy_date s else s)"
  define b where "b = (if cmos a RTC_REG_B AND REG_B_AIE \<noteq> 0 \<and> alarm_matches (cmos a RTC_SECONDS_ALARM) (tm_sec (current_tm a)) \<and>
                  alarm_matches (cmos a RTC_MINUTES_ALARM) (tm_mon (current_tm a)) \<and>
                  alarm_matches (cmos a RTC_HOURS_ALARM) (tm_hour (current_tm a))
               then rtc_irq_raise e (set_cmos RTC_REG_C (cmos a RTC_REG_C OR 0xa0) a) else a)"
  have a: "length (cmos_data a) = 128" "rtc_irq a = rtc_irq s" "cmos a RTC_REG_B = cmos s RTC_REG_B" "irq_coalesced a = irq_coalesced s"
    using assms(1) by (simp_all add: a_def copy_date_encodes encode_tm_def split_beta Let_def rtc_regs)
  have b: "length (cmos_data b) = 128" "cmos b RTC_REG_B = cmos s RTC_REG_B" "irq_coalesced b = irq_coalesced s"
    "\<exists>k. rtc_irq b = rtc_irq s @ replicate k 1"
    using a assms(2) by (auto simp: b_def rtc_regs rtc_irq_raise_def intro: exI [of _ 0] exI [of _ 1])
  have u: "cmos b RTC_REG_B AND REG_B_UIE \<noteq> 0"
    using assms(3) bit_iff_and_push_bit_not_eq_0 [of "cmos b RTC_REG_B" 4] by (simp add: b REG_B_UIE_def)
  define c where "c = set_cmos RTC_REG_C (cmos b RTC_REG_C OR REG_C_UF) b"
  define d where "d = rtc_irq_raise e (set_cmos RTC_REG_C (cmos c RTC_REG_C OR REG_C_IRQF) c)"
  have s1: "s1 = (let s = set_cmos RTC_REG_A (cmos d RTC_REG_A AND NOT REG_A_UIP) d;
       t = next_second_time s + ucast get_ticks_per_sec in s\<lparr>next_second_time := t, second_timer := Some t\<rparr>)"
    using u b(1) unfolding s1_def rtc_update_second2_def a_def [symmetric] Let_def b_def [symmetric] c_def [symmetric]
    by (simp add: d_def c_def rtc_regs)
  have d: "length (cmos_data d) = 128" "cmos d RTC_REG_C = cmos b RTC_REG_C OR REG_C_UF OR REG_C_IRQF" "cmos d RTC_REG_B = cmos s RTC_REG_B"
    "irq_coalesced d = irq_coalesced s" "rtc_irq d = rtc_irq b @ [1]"
    using b assms(2) by (simp_all add: d_def c_def rtc_regs rtc_irq_raise_def or.assoc)
  show "\<exists>k. rtc_irq s1 = rtc_irq s @ 1 # replicate k 1"
    using b(4) d by (auto simp: s1 Let_def replicate_app_Cons_same)
  show "bit (cmos s1 RTC_REG_C) 7" "bit (cmos s1 RTC_REG_C) 4" "cmos s1 RTC_REG_B = cmos s RTC_REG_B" "irq_coalesced s1 = irq_coalesced s"
    using d by (simp_all add: s1 Let_def rtc_regs cmos_def set_cmos_def bit_or_iff REG_C_UF_def REG_C_IRQF_def)
qed

section \<open>The ports of the clock and of the controllers\<close>

lemma writer_skip: "\<forall>p \<in> set ps. \<not> touches j p \<Longrightarrow> writer b j (ps @ qs) = writer b j qs"
proof (induction ps)
  case (Cons p ps)
  then show ?case by (cases p) auto
qed simp

lemma clock_ports_list: "clock_ports e at x =
    map on_board (pic_init1 0x20 0x4d0 Master (at Pic0) @ pic_init1 0xa0 0x4d1 Slave (at Pic1) @
      [RegWrite 0x80 1 1 ioport80_write 0, RegWrite 0xf0 1 1 ioportF0_write 0]) @ rtc_ports e x @
    map on_board [RegRead 0x92 1 1 ioport92_read 0, RegWrite 0x92 1 1 ioport92_write 0,
      RegWrite 0x40 4 1 pit_out_port (at Pit), RegRead 0x40 3 1 pit_in (at Pit),
      RegRead 0x60 1 1 kbd_data_in (at Kbd), RegWrite 0x60 1 1 kbd_data_out (at Kbd),
      RegRead 0x64 1 1 kbd_status_in (at Kbd), RegWrite 0x64 1 1 kbd_command_out (at Kbd)]"
  by (simp add: clock_ports_def pc_ports_def pic_init1_def)

definition clock_used :: "nat set" where
  "clock_used = {0x20, 0xa0, 0x70, 0x71}"

lemma clock_handlers:
  "reader 0 0x71 (rev (clock_ports e at x)) = Some (cmos_in e, x)" "writer 0 0x70 (rev (clock_ports e at x)) = Some (cmos_out e, x)"
  "writer 0 0x20 (rev (clock_ports e at x)) =
     Some (\<lambda>obj addr v m. bindR (pic_out Master obj addr v (board m)) (\<lambda>b. Inr (m\<lparr>board := b\<rparr>)), at Pic0)"
  "writer 0 0xa0 (rev (clock_ports e at x)) =
     Some (\<lambda>obj addr v m. bindR (pic_out Slave obj addr v (board m)) (\<lambda>b. Inr (m\<lparr>board := b\<rparr>)), at Pic1)"
  unfolding clock_ports_list pic_init1_def rtc_ports_def append.simps list.map on_board.simps rev.simps reader.simps writer.simps covers_port
  by (simp_all add: ioport_bsize_def)

lemma clock_opaque:
  assumes "at Pic0 \<noteq> 0" "at Pic1 \<noteq> 0" "x \<noteq> 0" "j \<in> clock_used"
  shows "\<forall>p \<in> set (clock_ports e at x). touches j p \<longrightarrow> op_opaque p \<noteq> Some 0"
  using assms(4) unfolding clock_used_def clock_ports_list pic_init1_def rtc_ports_def append.simps list.map on_board.simps list.set
    ball_simps touches.simps covers_port op_opaque.simps
  by (elim insertE) (simp_all add: assms(1-3))

lemma clock_access:
  assumes "port_run (clock_ports e at x @ others) no_ports = Inr io" "at Pic0 \<noteq> 0" "at Pic1 \<noteq> 0" "x \<noteq> 0"
    and "\<forall>p \<in> set others. \<forall>j \<in> clock_used. \<not> touches j p"
  shows "cpu_inb io 0x71 m = bindR (cmos_in e x 0x71 m) (\<lambda>(v, m). Inr (ucast v, m))" "cpu_outb io 0x70 v m = cmos_out e x 0x70 (ucast v) m"
    "cpu_outb io 0x20 v m = bindR (pic_out Master (at Pic0) 0x20 (ucast v) (board m)) (\<lambda>b. Inr (m\<lparr>board := b\<rparr>))"
    "cpu_outb io 0xa0 v m = bindR (pic_out Slave (at Pic1) 0xa0 (ucast v) (board m)) (\<lambda>b. Inr (m\<lparr>board := b\<rparr>))"
proof -
  have o: "\<forall>p \<in> set (clock_ports e at x @ others). touches j p \<longrightarrow> op_opaque p \<noteq> Some 0" if "j \<in> clock_used" for j
    using clock_opaque [OF assms(2-4) that, of e] assms(5) that by (auto simp del: not_None_eq)
  have u: "unat (0x71 :: u32) \<in> clock_used" "unat (0x70 :: u32) \<in> clock_used" "unat (0x20 :: u32) \<in> clock_used" "unat (0xa0 :: u32) \<in> clock_used"
    by (simp_all add: clock_used_def)
  have r: "reader 0 j (rev (clock_ports e at x @ others)) = reader 0 j (rev (clock_ports e at x))"
    "writer 0 j (rev (clock_ports e at x @ others)) = writer 0 j (rev (clock_ports e at x))" if "j \<in> clock_used" for j
    using assms(5) that by (simp_all add: reader_skip writer_skip)
  note q = entry_answers [OF assms(1) o, of _ 0]
  show "cpu_inb io 0x71 m = bindR (cmos_in e x 0x71 m) (\<lambda>(v, m). Inr (ucast v, m))"
    unfolding cpu_inb_def ioport_read_def using q(1) [OF u(1)] r(1) [OF u(1)] by (simp add: answer_read_def clock_handlers)
  show "cpu_outb io 0x70 v m = cmos_out e x 0x70 (ucast v) m"
    unfolding cpu_outb_def ioport_write_def using q(2) [OF u(2)] r(2) [OF u(2)] by (simp add: answer_write_def clock_handlers)
  show "cpu_outb io 0x20 v m = bindR (pic_out Master (at Pic0) 0x20 (ucast v) (board m)) (\<lambda>b. Inr (m\<lparr>board := b\<rparr>))"
    unfolding cpu_outb_def ioport_write_def using q(2) [OF u(3)] r(2) [OF u(3)] by (simp add: answer_write_def clock_handlers)
  show "cpu_outb io 0xa0 v m = bindR (pic_out Slave (at Pic1) 0xa0 (ucast v) (board m)) (\<lambda>b. Inr (m\<lparr>board := b\<rparr>))"
    unfolding cpu_outb_def ioport_write_def using q(2) [OF u(4)] r(2) [OF u(4)] by (simp add: answer_write_def clock_handlers)
qed

section \<open>From the clock to the guest\<close>

lemma cascade_ends:
  fixes ls :: "int list"
  assumes "n < 8" "cascade_waits n s"
  defines "s1 \<equiv> (cascade_served n s ls)\<lparr>pic1 := acknowledged n (pic1 s)\<rparr>"
  defines "s2 \<equiv> s1\<lparr>pic1 := pic1 s\<rparr>"
  shows "pic_ioport_write Slave s1 0xa0 0x20 = Inr s2" "pic_ioport_write Master s2 0x20 0x20 = Inr (s\<lparr>parent_irq := parent_irq s @ ls\<rparr>)"
proof -
  have i: "irr (pic0 s) = 0" "isr (pic0 s) = 0" "irr (pic1 s) = 0" "isr (pic1 s) = 0"
    using assms(2) by (simp_all add: cascade_waits_def pic_idle_def)
  have z: "(acknowledged k p)\<lparr>isr := 0\<rparr> = p" if "irr p = 0" "isr p = 0" for k and p :: PicState
    using that by (cases p) (simp add: acknowledged_def)
  show "pic_ioport_write Slave s1 0xa0 0x20 = Inr s2"
    using eoi [OF assms(1), of s1 Slave "0xa0"] z [OF i(3,4)] by (simp add: s1_def s2_def cascade_served_def acknowledged_def)
  show "pic_ioport_write Master s2 0x20 0x20 = Inr (s\<lparr>parent_irq := parent_irq s @ ls\<rparr>)"
    using eoi [of 2 s2 Master "0x20"] i z [OF i(1,2)] by (simp add: s1_def s2_def cascade_served_def acknowledged_def)
qed

lemma index_write: "cmos_ioport_write e 0x70 0x0c s = Inr (s\<lparr>cmos_index := 12\<rparr>)"
  by (simp add: cmos_ioport_write_def)

lemma read_c:
  assumes "cmos_index s = 12" "irq_coalesced s = 0"
  shows "cmos_ioport_read e 0x71 s = Inr (ucast (cmos s RTC_REG_C), set_cmos RTC_REG_C 0 (s\<lparr>rtc_irq := rtc_irq s @ [0]\<rparr>))"
  using assms by (simp add: cmos_ioport_read_def Let_def RTC_REG_C_def)

text \<open>The guest handles the interrupt: it reads register C and ends the interrupt at both controllers.\<close>

lemma guest_handles:
  assumes ports: "port_run (clock_ports e at x @ others) no_ports = Inr io" "at Pic0 \<noteq> 0" "at Pic1 \<noteq> 0" "x \<noteq> 0"
      "\<forall>p \<in> set others. \<forall>j \<in> clock_used. \<not> touches j p"
    and pic: "cascade_waits 0 p" "pics (board m2) = cascade_served 0 p ls" and rtc: "rtc m2 = s" "irq_coalesced s = 0"
  defines "t \<equiv> set_cmos RTC_REG_C 0 (s\<lparr>cmos_index := 12, rtc_irq := rtc_irq s @ [0]\<rparr>)"
  shows "\<exists>m3 m4 m5 m6. cpu_outb io 0x70 0x0c m2 = Inr m3 \<and> cpu_inb io 0x71 m3 = Inr (cmos s RTC_REG_C, m4) \<and>
    cpu_outb io 0xa0 0x20 m4 = Inr m5 \<and> cpu_outb io 0x20 0x20 m5 = Inr m6 \<and>
    pics (board m6) = p\<lparr>parent_irq := parent_irq p @ ls\<rparr> \<and> rtc m6 = t"
proof -
  note access = clock_access [OF ports]
  define m3 where "m3 = rtc_done m2 (s\<lparr>cmos_index := 12\<rparr>)"
  have m3: "cpu_outb io 0x70 0x0c m2 = Inr m3" "rtc m3 = s\<lparr>cmos_index := 12\<rparr>" "pics (board m3) = cascade_served 0 p ls"
    using rtc_done_simps(2) [of "s\<lparr>cmos_index := 12\<rparr>" m2 "[]"] by (simp_all add: access cmos_out_def pic rtc index_write m3_def)
  define m4 where "m4 = rtc_done m3 t"
  have rd: "cmos_ioport_read e 0x71 (rtc m3) = Inr (ucast (cmos s RTC_REG_C), t)"
    using read_c [of "rtc m3" e] rtc(2) by (simp add: m3(2) t_def)
  have m4: "cpu_inb io 0x71 m3 = Inr (cmos s RTC_REG_C, m4)" "rtc m4 = t"
    using rd by (simp_all add: access cmos_in_def m4_def ucast_byte)
  have p4: "pics (board m4) = (cascade_served 0 p ls)\<lparr>pic1 := acknowledged 0 (pic1 p)\<rparr>"
    using rtc_done_simps(2) [of t m3 "[0]"] cascade_falls [OF _ pic(1), of ls] by (simp add: m4_def m3 t_def)
  define m5 where "m5 = m4\<lparr>board := (board m4)\<lparr>pics := (pics (board m4))\<lparr>pic1 := pic1 p\<rparr>\<rparr>\<rparr>"
  define m6 where "m6 = m5\<lparr>board := (board m5)\<lparr>pics := p\<lparr>parent_irq := parent_irq p @ ls\<rparr>\<rparr>\<rparr>"
  have "cpu_outb io 0xa0 0x20 m4 = Inr m5" "cpu_outb io 0x20 0x20 m5 = Inr m6"
    using cascade_ends [OF _ pic(1), of ls] by (simp_all add: access pic_out_def p4 m5_def m6_def)
  moreover have "pics (board m6) = p\<lparr>parent_irq := parent_irq p @ ls\<rparr>" "rtc m6 = t" by (simp_all add: m6_def m5_def m4)
  ultimately show ?thesis using m3(1) m4(1) by blast
qed

text \<open>
  C6. The end of a second reaches the guest. When the clock has its update interrupt enabled and both interrupt controllers wait
  for its line, the end of a second raises the line of the CPU (again, when the alarm is due as well); the acknowledge returns
  the first vector of the slave; the guest selects register C and reads that an update interrupt happened; and after the
  end of interrupt to the slave and to the master both controllers are exactly as before, but for the calls on the line of the CPU, the flags of
  the clock are clear and the interrupt stays enabled, so that the next second reaches the guest the same way. This holds with any
  further devices on the bus that stay away from these ports.
\<close>

theorem second_reaches_guest:
  assumes ports: "port_run (clock_ports e at x @ others) no_ports = Inr io" "at Pic0 \<noteq> 0" "at Pic1 \<noteq> 0" "x \<noteq> 0"
      "\<forall>p \<in> set others. \<forall>j \<in> clock_used. \<not> touches j p"
    and clock: "rtc_reach hack False (rtc m)" "env_of hack False e" "irq_coalesced (rtc m) = 0" "bit (cmos (rtc m) RTC_REG_B) 4"
    and pic: "cascade_waits 0 (pics (board m))"
  defines "p \<equiv> pics (board m)" and "m1 \<equiv> pc_second e m"
  shows "\<exists>k m2 m3 v m4 m5 m6. parent_irq (pics (board m1)) = parent_irq p @ 1 # replicate k 1 \<and>
    clock_ack m1 = (uint (irq_base (pic1 p)), m2) \<and>
    cpu_outb io 0x70 0x0c m2 = Inr m3 \<and> cpu_inb io 0x71 m3 = Inr (v, m4) \<and> bit v 7 \<and> bit v 4 \<and>
    cpu_outb io 0xa0 0x20 m4 = Inr m5 \<and> cpu_outb io 0x20 0x20 m5 = Inr m6 \<and>
    pics (board m6) = p\<lparr>parent_irq := parent_irq p @ 1 # replicate k 1\<rparr> \<and>
    rtc_reach hack False (rtc m6) \<and> cmos (rtc m6) RTC_REG_C = 0 \<and> cmos (rtc m6) RTC_REG_B = cmos (rtc m) RTC_REG_B \<and> irq_coalesced (rtc m6) = 0"
proof -
  let ?s = "rtc_update_second2 e (rtc m)"
  have len: "length (cmos_data (rtc m)) = 128" "\<not> hpet_in_legacy_mode e"
    using rtc_reach_wf [OF clock(1)] clock(2) by (simp_all add: rtc_wf_def env_of_def)
  note l = second2_line [OF len clock(4)]
  obtain k where k: "rtc_irq ?s = rtc_irq (rtc m) @ 1 # replicate k 1" using l(1) by blast
  let ?ls = "1 # replicate k 1"
  have p1: "pics (board m1) = cascade_up 0 p ?ls"
    unfolding m1_def pc_second_def rtc_done_simps(2) [OF k]
    using slave_rises(1) [OF _ pic] raises [OF pic, of k "[1]"] by (simp add: p_def)
  define m2 where "m2 = snd (clock_ack m1)"
  have m2: "clock_ack m1 = (uint (irq_base (pic1 p)), m2)" "rtc m2 = ?s" "pics (board m2) = cascade_served 0 p ?ls"
    using cascade_ack [OF _ pic, of ?ls] p1 by (simp_all add: m2_def clock_ack_def pc_ack_def p_def m1_def pc_second_def)
  let ?c = "?s\<lparr>cmos_index := 12\<rparr>" and ?t = "set_cmos RTC_REG_C 0 (?s\<lparr>cmos_index := 12, rtc_irq := rtc_irq ?s @ [0]\<rparr>)"
  note r = rtc_reach.second2 [OF clock(1,2)]
  have t: "rtc_reach hack False ?t"
    using rtc_reach.inb [OF rtc_reach.outb [OF r clock(2) index_write] clock(2)] read_c [of ?c e] l(5) clock(3) by simp
  have "length (cmos_data ?s) = 128" using rtc_reach_wf [OF r] by (simp add: rtc_wf_def)
  then have c: "cmos ?t RTC_REG_C = 0" "cmos ?t RTC_REG_B = cmos (rtc m) RTC_REG_B" "irq_coalesced ?t = 0"
    using l clock(3) by (simp_all add: rtc_regs)
  have "irq_coalesced ?s = 0" using l(5) clock(3) by simp
  from guest_handles [OF ports pic [folded p_def] m2(3,2) this] obtain m3 m4 m5 m6 where
    h: "cpu_outb io 0x70 0x0c m2 = Inr m3" "cpu_inb io 0x71 m3 = Inr (cmos ?s RTC_REG_C, m4)" "cpu_outb io 0xa0 0x20 m4 = Inr m5"
      "cpu_outb io 0x20 0x20 m5 = Inr m6" "pics (board m6) = p\<lparr>parent_irq := parent_irq p @ ?ls\<rparr>" "rtc m6 = ?t" by blast
  have "parent_irq (pics (board m1)) = parent_irq p @ ?ls" by (simp add: p1 cascade_up_def)
  with h t c m2(1) l(2,3) show ?thesis by metis
qed

definition ex_clock_pc :: "rtc_error + clock_pc" where
  "ex_clock_pc = (case rtc_out ex_env 11 0x12 ex_rtc of Inl err \<Rightarrow> Inl err | Inr s \<Rightarrow> Inr \<lparr>board = ex_pc, rtc = s\<rparr>)"

lemma clock_ports_accepted: "\<exists>io. port_run (clock_ports ex_env (\<lambda>_. 1) 1) no_ports = Inr io"
proof -
  have "(case port_run (clock_ports ex_env (\<lambda>_. 1) 1) no_ports of Inl _ \<Rightarrow> False | Inr _ \<Rightarrow> True)"
    by (simp add: clock_ports_list pic_init1_def rtc_ports_def register_ioport_read_def register_ioport_write_def ioport_bsize_def
        port_loop.simps MAX_IOPORTS_def read_step_def write_step_def set_opaque_def no_ports_def)
  then show ?thesis by (simp split: sum.splits)
qed

theorem second_reaches_guest_witness:
  "\<exists>io m m2 m3 v m4. port_run (clock_ports ex_env (\<lambda>_. 1) 1) no_ports = Inr io \<and> ex_clock_pc = Inr m \<and>
     clock_ack (pc_second ex_env m) = (0, m2) \<and> cpu_outb io 0x70 0x0c m2 = Inr m3 \<and> cpu_inb io 0x71 m3 = Inr (v, m4) \<and> bit v 7 \<and> bit v 4"
proof -
  obtain io where io: "port_run (clock_ports ex_env (\<lambda>_. 1) 1) no_ports = Inr io" using clock_ports_accepted by blast
  have "case rtc_out ex_env 11 0x12 ex_rtc of Inl _ \<Rightarrow> False | Inr s \<Rightarrow> irq_coalesced s = 0 \<and> cmos s RTC_REG_B = 0x12" by code_simp
  then obtain s where s: "rtc_out ex_env 11 0x12 ex_rtc = Inr s" "irq_coalesced s = 0" "cmos s RTC_REG_B = 0x12" by (auto split: sum.splits)
  define m where "m = \<lparr>board = ex_pc, rtc = s\<rparr>"
  have m: "ex_clock_pc = Inr m" using s(1) by (simp add: ex_clock_pc_def m_def)
  obtain a where a: "cmos_ioport_write ex_env 0x70 11 ex_rtc = Inr a" "cmos_ioport_write ex_env 0x71 0x12 a = Inr s"
    using s(1) by (auto simp: rtc_out_def bindR_def split: sum.splits)
  have env: "env_of False False ex_env" by (simp add: env_of_def ex_env_def)
  have "rtc_reach False False ex_rtc" unfolding ex_rtc_def by (rule rtc_reach.created)
  then have r: "rtc_reach False False (rtc m)"
    using rtc_reach.outb [OF rtc_reach.outb [OF _ env a(1)] env a(2)] by (simp add: m_def)
  have p: "cascade_waits 0 (pics (board m))" "irq_base (pic1 (pics (board m))) = 0"
    by (simp_all add: m_def ex_pc_parts cascade_waits_def pic_idle_def i8259_init_def zero_pic_def)
  from second_reaches_guest [of ex_env "\<lambda>_. 1" 1 "[]" io False m] io r env p s(2,3) m
  show ?thesis by (simp add: m_def) metis
qed

end
