(* ===== verification/Heap_Lists.thy ===== *)
theory Heap_Lists
  imports VA_Prelude
begin

text \<open>
  Singly linked lists on a heap: a heap maps addresses to objects, and \<open>nxt\<close> reads the link of an object. A segment is
  the list of the addresses from a pointer up to another one. Timers and bottom halves are kept in such lists. The loops over
  them may fail or not end, and are chained by \<open>bindL\<close>.
\<close>

definition bindL :: "('e + 'a) option \<Rightarrow> ('a \<Rightarrow> ('e + 'b) option) \<Rightarrow> ('e + 'b) option" where
  "bindL m f = (case m of None \<Rightarrow> None | Some (Inl e) \<Rightarrow> Some (Inl e) | Some (Inr a) \<Rightarrow> f a)"

fun lseg :: "('a \<Rightarrow> nat option) \<Rightarrow> (nat \<Rightarrow> 'a option) \<Rightarrow> nat option \<Rightarrow> nat list \<Rightarrow> nat option \<Rightarrow> bool" where
  "lseg nxt h p [] r \<longleftrightarrow> p = r"
| "lseg nxt h p (a # as) r \<longleftrightarrow> p = Some a \<and> (case h a of None \<Rightarrow> False | Some t \<Rightarrow> lseg nxt h (nxt t) as r)"

lemma lseg_append: "lseg nxt h p (xs @ ys) r \<longleftrightarrow> (\<exists>m. lseg nxt h p xs m \<and> lseg nxt h m ys r)"
  by (induction xs arbitrary: p) (auto split: option.splits)

lemma lseg_frame: "a \<notin> set xs \<Longrightarrow> lseg nxt (h(a := v)) p xs r = lseg nxt h p xs r"
  by (induction xs arbitrary: p) (auto split: option.splits)

lemma lseg_alloc: "lseg nxt h p xs r \<Longrightarrow> a \<in> set xs \<Longrightarrow> h a \<noteq> None"
  by (induction xs arbitrary: p) (auto split: option.splits)

lemma lseg_last: "lseg nxt h p xs r \<Longrightarrow> xs \<noteq> [] \<Longrightarrow> \<exists>t. h (last xs) = Some t \<and> nxt t = r"
  by (induction xs arbitrary: p) (auto split: option.splits)

lemma lseg_cong: "(\<And>a. a \<in> set xs \<Longrightarrow> map_option nxt (h' a) = map_option nxt (h a)) \<Longrightarrow> lseg nxt h' p xs r = lseg nxt h p xs r"
proof (induction xs arbitrary: p)
  case (Cons a xs)
  from Cons.prems [of a] show ?case using Cons by (cases "h a"; cases "h' a") auto
qed simp

lemma lseg_unique: "lseg nxt h p xs None \<Longrightarrow> lseg nxt h p ys None \<Longrightarrow> xs = ys"
proof (induction xs arbitrary: p ys)
  case Nil then show ?case by (cases ys) auto
next
  case (Cons a xs) then show ?case by (cases ys) (auto split: option.splits)
qed

text \<open>A new link in the last object of a segment.\<close>

lemma lseg_relink:
  "lseg nxt h p xs r \<Longrightarrow> distinct xs \<Longrightarrow> xs \<noteq> [] \<Longrightarrow> nxt t = r' \<Longrightarrow> lseg nxt (h(last xs \<mapsto> t)) p xs r'"
proof (induction xs arbitrary: p)
  case (Cons a xs)
  show ?case
  proof (cases "xs = []")
    case True then show ?thesis using Cons.prems by simp
  next
    case False
    then have "last xs \<noteq> a" using Cons.prems(2) by (auto dest: last_in_set)
    then show ?thesis using Cons False by (auto split: option.splits)
  qed
qed simp

end
