(* ===== verification/Timers.thy ===== *)
theory Timers
  imports Heap_Lists "HOL-Library.Multiset_Order"
begin

text \<open>
  The timers and clocks of the main loop, \<^verbatim>\<open>vl.c\<close>. Each of the three clocks has a linked list of pending timers in the order
  of their expiry; timers live on an explicit heap, and a loop walks a pointer to the cell it may change, the head of a
  list or the link of a timer. The lists are shown to be queues sorted by expiry. The
  handlers of expired timers belong to the devices and are a parameter; the locale \<open>timer_callbacks\<close> says
  what the main loop relies on. The guest's time while the machine is stopped and started again closes the theory.
\<close>

section \<open>Timers\<close>

datatype clock = QEMU_CLOCK_REALTIME | QEMU_CLOCK_VIRTUAL | QEMU_CLOCK_HOST

record QEMUTimer =
  timer_clock :: clock
  expire_time :: u64
  timer_cb :: nat
  timer_opaque :: nat
  timer_next :: "nat option"

text \<open>
  The heap of timers, the heads of the lists, the flags of the alarm of the host, and how often it was armed and
  the main loop was woken.
\<close>

record timers =
  theap :: "nat \<Rightarrow> QEMUTimer option"
  active_timers :: "clock \<Rightarrow> nat option"
  alarm_dynticks :: bool
  alarm_expired :: bool
  use_icount :: bool
  rearmed :: nat
  notified :: nat

datatype timer_error = TimerFault

type_synonym 'a loop = "(timer_error + 'a) option"

datatype slot = Head clock | Next nat

definition read_slot :: "timers \<Rightarrow> slot \<Rightarrow> timer_error + nat option" where
  "read_slot q pt = (case pt of Head c \<Rightarrow> Inr (active_timers q c)
     | Next a \<Rightarrow> (case theap q a of None \<Rightarrow> Inl TimerFault | Some t \<Rightarrow> Inr (timer_next t)))"

definition write_slot :: "timers \<Rightarrow> slot \<Rightarrow> nat option \<Rightarrow> timer_error + timers" where
  "write_slot q pt p = (case pt of Head c \<Rightarrow> Inr (q\<lparr>active_timers := (active_timers q)(c := p)\<rparr>)
     | Next a \<Rightarrow> (case theap q a of None \<Rightarrow> Inl TimerFault
         | Some t \<Rightarrow> Inr (q\<lparr>theap := (theap q)(a \<mapsto> t\<lparr>timer_next := p\<rparr>)\<rparr>)))"

definition qemu_new_timer :: "nat \<Rightarrow> clock \<Rightarrow> nat \<Rightarrow> nat \<Rightarrow> timers \<Rightarrow> timers" where
  "qemu_new_timer a c cb obj q =
     q\<lparr>theap := (theap q)(a \<mapsto> \<lparr>timer_clock = c, expire_time = 0, timer_cb = cb, timer_opaque = obj, timer_next = None\<rparr>)\<rparr>"

definition qemu_free_timer :: "nat \<Rightarrow> timers \<Rightarrow> timer_error + timers" where
  "qemu_free_timer ts q = (if theap q ts = None then Inl TimerFault else Inr (q\<lparr>theap := (theap q)(ts := None)\<rparr>))"

partial_function (option) del_loop :: "nat \<Rightarrow> slot \<Rightarrow> timers \<Rightarrow> timers loop" where
  "del_loop ts pt q =
     (case read_slot q pt of Inl err \<Rightarrow> Some (Inl err)
      | Inr None \<Rightarrow> Some (Inr q)
      | Inr (Some t) \<Rightarrow> if t = ts then Some (bindR (read_slot q (Next t)) (write_slot q pt)) else del_loop ts (Next t) q)"

definition qemu_del_timer :: "nat \<Rightarrow> timers \<Rightarrow> timers loop" where
  "qemu_del_timer ts q = (case theap q ts of None \<Rightarrow> Some (Inl TimerFault) | Some t \<Rightarrow> del_loop ts (Head (timer_clock t)) q)"

partial_function (option) find_slot :: "u64 \<Rightarrow> slot \<Rightarrow> timers \<Rightarrow> slot loop" where
  "find_slot e pt q =
     (case read_slot q pt of Inl err \<Rightarrow> Some (Inl err)
      | Inr None \<Rightarrow> Some (Inr pt)
      | Inr (Some a) \<Rightarrow> (case theap q a of None \<Rightarrow> Some (Inl TimerFault)
          | Some t \<Rightarrow> if sint e < sint (expire_time t) then Some (Inr pt) else find_slot e (Next a) q))"

definition qemu_rearm_alarm_timer :: "timers \<Rightarrow> timers" where
  "qemu_rearm_alarm_timer q = (if alarm_dynticks q then q\<lparr>rearmed := rearmed q + 1\<rparr> else q)"

definition link_timer :: "nat \<Rightarrow> u64 \<Rightarrow> slot \<Rightarrow> timers \<Rightarrow> timer_error + timers" where
  "link_timer ts e pt q =
     (case theap q ts of None \<Rightarrow> Inl TimerFault
      | Some t \<Rightarrow> bindR (read_slot q pt) (\<lambda>p. write_slot
          (q\<lparr>theap := (theap q)(ts \<mapsto> t\<lparr>expire_time := e, timer_next := p\<rparr>)\<rparr>) pt (Some ts)))"

definition wake_for :: "slot \<Rightarrow> timers \<Rightarrow> timers" where
  "wake_for pt q =
     (case pt of Head _ \<Rightarrow> let q = (if \<not> alarm_expired q then qemu_rearm_alarm_timer q else q)
                    in if use_icount q then q\<lparr>notified := notified q + 1\<rparr> else q
      | Next _ \<Rightarrow> q)"

definition qemu_mod_timer :: "nat \<Rightarrow> u64 \<Rightarrow> timers \<Rightarrow> timers loop" where
  "qemu_mod_timer ts e q =
     bindL (qemu_del_timer ts q) (\<lambda>q. case theap q ts of None \<Rightarrow> Some (Inl TimerFault)
       | Some t \<Rightarrow> bindL (find_slot e (Head (timer_clock t)) q) (\<lambda>pt.
           Some (bindR (link_timer ts e pt q) (\<lambda>q. Inr (wake_for pt q)))))"

partial_function (option) pending_loop :: "nat \<Rightarrow> nat option \<Rightarrow> timers \<Rightarrow> bool loop" where
  "pending_loop ts p q =
     (case p of None \<Rightarrow> Some (Inr False)
      | Some a \<Rightarrow> if a = ts then Some (Inr True)
          else (case theap q a of None \<Rightarrow> Some (Inl TimerFault) | Some t \<Rightarrow> pending_loop ts (timer_next t) q))"

definition qemu_timer_pending :: "nat \<Rightarrow> timers \<Rightarrow> bool loop" where
  "qemu_timer_pending ts q =
     (case theap q ts of None \<Rightarrow> Some (Inl TimerFault) | Some t \<Rightarrow> pending_loop ts (active_timers q (timer_clock t)) q)"

definition qemu_timer_expired :: "nat option \<Rightarrow> u64 \<Rightarrow> timers \<Rightarrow> timer_error + bool" where
  "qemu_timer_expired p now q =
     (case p of None \<Rightarrow> Inr False
      | Some a \<Rightarrow> (case theap q a of None \<Rightarrow> Inl TimerFault | Some t \<Rightarrow> Inr (sint (expire_time t) \<le> sint now)))"

text \<open>The first timer taken off its list, before its handler runs.\<close>

definition pop_timer :: "clock \<Rightarrow> nat \<Rightarrow> QEMUTimer \<Rightarrow> timers \<Rightarrow> timers" where
  "pop_timer c ts t q =
     q\<lparr>active_timers := (active_timers q)(c := timer_next t), theap := (theap q)(ts \<mapsto> t\<lparr>timer_next := None\<rparr>)\<rparr>"

partial_function (option) qemu_run_timers ::
  "(nat \<Rightarrow> nat \<Rightarrow> timers \<Rightarrow> 'd \<Rightarrow> (timers \<times> 'd) loop) \<Rightarrow> clock \<Rightarrow> u64 \<Rightarrow> timers \<Rightarrow> 'd \<Rightarrow> (timers \<times> 'd) loop" where
  "qemu_run_timers call c now q d =
     (case active_timers q c of None \<Rightarrow> Some (Inr (q, d))
      | Some ts \<Rightarrow> (case theap q ts of None \<Rightarrow> Some (Inl TimerFault)
          | Some t \<Rightarrow> if sint now < sint (expire_time t) then Some (Inr (q, d))
              else (case call (timer_cb t) (timer_opaque t) (pop_timer c ts t q) d of
                  None \<Rightarrow> None
                | Some (Inl err) \<Rightarrow> Some (Inl err)
                | Some (Inr s) \<Rightarrow> qemu_run_timers call c now (fst s) (snd s))))"

section \<open>The lists as queues\<close>

definition slot_after :: "clock \<Rightarrow> nat list \<Rightarrow> slot" where
  "slot_after c xs = (if xs = [] then Head c else Next (last xs))"

lemma slot_after_snoc [simp]: "slot_after c (xs @ [a]) = Next a"
  by (simp add: slot_after_def)

lemma read_after: "lseg timer_next (theap q) (active_timers q c) xs r \<Longrightarrow> read_slot q (slot_after c xs) = Inr r"
  using lseg_last [of timer_next "theap q" "active_timers q c" xs r] by (cases "xs = []") (auto simp: slot_after_def read_slot_def)

text \<open>A change of links only, in timers of a set and in the head of one list.\<close>

definition erase :: "QEMUTimer \<Rightarrow> QEMUTimer" where
  "erase t = t\<lparr>timer_next := None\<rparr>"

definition relinked :: "clock \<Rightarrow> nat set \<Rightarrow> timers \<Rightarrow> timers \<Rightarrow> bool" where
  "relinked c A q q' \<longleftrightarrow> (\<forall>k. k \<noteq> c \<longrightarrow> active_timers q' k = active_timers q k) \<and> (\<forall>a. a \<notin> A \<longrightarrow> theap q' a = theap q a) \<and>
     (\<forall>a. map_option erase (theap q' a) = map_option erase (theap q a))"

lemma relinked_refl [simp]: "relinked c A q q"
  by (simp add: relinked_def)

lemma relinked_mono: "relinked c A q q' \<Longrightarrow> A \<subseteq> B \<Longrightarrow> relinked c B q q'"
  by (auto simp: relinked_def)

lemma relinked_alloc: "relinked c A q q' \<Longrightarrow> theap q a = Some t \<Longrightarrow> \<exists>r. theap q' a = Some (t\<lparr>timer_next := r\<rparr>)"
  unfolding relinked_def
proof (elim conjE)
  assume "theap q a = Some t" "\<forall>a. map_option erase (theap q' a) = map_option erase (theap q a)"
  then obtain t' where "theap q' a = Some t'" "erase t' = erase t" by (metis option.map_disc_iff option.map_sel option.sel option.exhaust option.distinct(1))
  then show ?thesis by (intro exI [of _ "timer_next t'"]) (cases t, cases t', simp add: erase_def)
qed

lemma lseg_relinked: "relinked c A q q' \<Longrightarrow> set xs \<inter> A = {} \<Longrightarrow> lseg timer_next (theap q') p xs r = lseg timer_next (theap q) p xs r"
  by (rule lseg_cong) (auto simp: relinked_def)

lemma write_after:
  assumes "lseg timer_next (theap q) (active_timers q c) xs r" "distinct xs"
  shows "\<exists>q'. write_slot q (slot_after c xs) r' = Inr q' \<and> lseg timer_next (theap q') (active_timers q' c) xs r' \<and> relinked c (set xs) q q'"
proof (cases "xs = []")
  case False
  then obtain t where t: "theap q (last xs) = Some t" using lseg_last [OF assms(1)] by blast
  show ?thesis using False t lseg_relink [OF assms False, of "t\<lparr>timer_next := r'\<rparr>" r']
    by (auto simp: slot_after_def write_slot_def relinked_def erase_def)
qed (auto simp: slot_after_def write_slot_def relinked_def)

lemma del_loop_spec:
  assumes "lseg timer_next (theap q) (active_timers q c) (xs @ ys) None" "distinct (xs @ ys)" "ts \<notin> set xs"
  shows "\<exists>q'. del_loop ts (slot_after c xs) q = Some (Inr q') \<and> lseg timer_next (theap q') (active_timers q' c) (xs @ remove1 ts ys) None \<and>
    relinked c (set (xs @ ys) - {ts}) q q'"
  using assms
proof (induction ys arbitrary: xs)
  case Nil
  then have "read_slot q (slot_after c xs) = Inr None" by (intro read_after) simp
  then show ?case using Nil by (subst del_loop.simps) simp
next
  case (Cons a ys)
  from Cons.prems(1) obtain t where t: "lseg timer_next (theap q) (active_timers q c) xs (Some a)" "theap q a = Some t" "lseg timer_next (theap q) (timer_next t) ys None"
    by (auto simp: lseg_append split: option.splits)
  note r = read_after [OF t(1)]
  show ?case
  proof (cases "a = ts")
    case True
    obtain q' where q': "write_slot q (slot_after c xs) (timer_next t) = Inr q'" "lseg timer_next (theap q') (active_timers q' c) xs (timer_next t)"
      "relinked c (set xs) q q'" using write_after [OF t(1), of "timer_next t"] Cons.prems(2) by auto
    have "lseg timer_next (theap q') (timer_next t) ys None" using t(3) Cons.prems(2) by (subst lseg_relinked [OF q'(3)]) auto
    moreover have "relinked c (set (xs @ a # ys) - {ts}) q q'" using q'(3) Cons.prems(3) by (rule_tac relinked_mono) auto
    ultimately show ?thesis using True r t(2) q' by (subst del_loop.simps) (auto simp: read_slot_def lseg_append)
  next
    case False
    show ?thesis using Cons.IH [of "xs @ [a]"] Cons.prems False r by (subst del_loop.simps) simp
  qed
qed

text \<open>The queue of a clock: the timers in the list, in the order of their expiry.\<close>

definition expiry :: "timers \<Rightarrow> nat \<Rightarrow> int" where
  "expiry q a = sint (expire_time (the (theap q a)))"

definition timer_queue :: "timers \<Rightarrow> clock \<Rightarrow> nat list \<Rightarrow> bool" where
  "timer_queue q c xs \<longleftrightarrow> lseg timer_next (theap q) (active_timers q c) xs None \<and> distinct xs \<and> sorted (map (expiry q) xs) \<and>
     (\<forall>a \<in> set xs. timer_clock (the (theap q a)) = c)"

lemma relinked_none: "relinked c A q q' \<Longrightarrow> theap q a = None \<Longrightarrow> theap q' a = None"
  by (metis option.map_disc_iff relinked_def)

lemma relinked_same:
  assumes "relinked c A q q'"
  shows "expiry q' = expiry q" "timer_clock (the (theap q' a)) = timer_clock (the (theap q a))"
proof -
  have "expiry q' a = expiry q a \<and> timer_clock (the (theap q' a)) = timer_clock (the (theap q a))" for a
  proof (cases "theap q a")
    case None
    then show ?thesis using relinked_none [OF assms None] by (simp add: expiry_def)
  next
    case (Some t)
    then show ?thesis using relinked_alloc [OF assms Some] by (auto simp: expiry_def)
  qed
  then show "expiry q' = expiry q" "timer_clock (the (theap q' a)) = timer_clock (the (theap q a))" by auto
qed

lemma queue_other:
  assumes "relinked c A q q'" "timer_queue q k xs" "k \<noteq> c" "\<forall>a \<in> A. timer_clock (the (theap q a)) = c"
  shows "timer_queue q' k xs"
proof -
  have "set xs \<inter> A = {}" using assms(2,3,4) by (auto simp: timer_queue_def)
  then show ?thesis using assms(1,2,3) lseg_relinked [OF assms(1)] by (simp add: timer_queue_def relinked_same [OF assms(1)]) (simp add: relinked_def)
qed

lemma queue_unique: "timer_queue q c xs \<Longrightarrow> timer_queue q c ys \<Longrightarrow> xs = ys"
  by (auto simp: timer_queue_def intro: lseg_unique)

text \<open>A family of queues, one for each clock.\<close>

definition timers_ok :: "timers \<Rightarrow> (clock \<Rightarrow> nat list) \<Rightarrow> bool" where
  "timers_ok q X \<longleftrightarrow> (\<forall>c. timer_queue q c (X c))"

lemma not_queued: "timer_queue q c xs \<Longrightarrow> a \<in> set xs \<Longrightarrow> \<exists>t. theap q a = Some t \<and> timer_clock t = c"
  using lseg_alloc [of timer_next "theap q" "active_timers q c" xs None a] by (auto simp: timer_queue_def)

lemma del_timer_spec:
  assumes "timers_ok q X" "theap q ts = Some t"
  shows "\<exists>q'. qemu_del_timer ts q = Some (Inr q') \<and> timers_ok q' (X(timer_clock t := remove1 ts (X (timer_clock t)))) \<and>
    relinked (timer_clock t) (set (X (timer_clock t)) - {ts}) q q'"
proof -
  let ?c = "timer_clock t"
  have x: "timer_queue q ?c (X ?c)" using assms(1) by (simp add: timers_ok_def)
  obtain q' where q': "del_loop ts (Head ?c) q = Some (Inr q')" "lseg timer_next (theap q') (active_timers q' ?c) (remove1 ts (X ?c)) None"
    "relinked ?c (set (X ?c) - {ts}) q q'"
    using x del_loop_spec [of q ?c "[]" "X ?c" ts] by (auto simp: timer_queue_def slot_after_def)
  have "timer_queue q' ?c (remove1 ts (X ?c))"
    using x q'(2) by (auto simp: timer_queue_def relinked_same [OF q'(3)] sorted_map_remove1 dest!: notin_set_remove1 set_remove1_subset [THEN subsetD]
      cong: map_cong)
  moreover have "timer_queue q' k (X k)" if "k \<noteq> ?c" for k
    using assms(1) that x by (intro queue_other [OF q'(3)]) (auto simp: timers_ok_def timer_queue_def)
  ultimately show ?thesis using assms(2) q'(1,3) by (auto simp: timers_ok_def qemu_del_timer_def)
qed

text \<open>Arming a timer: it goes behind the timers that expire no later.\<close>

fun queue_insert :: "(nat \<Rightarrow> int) \<Rightarrow> int \<Rightarrow> nat \<Rightarrow> nat list \<Rightarrow> nat list" where
  "queue_insert f e a [] = [a]"
| "queue_insert f e a (x # l) = (if f x \<le> e then x # queue_insert f e a l else a # x # l)"

lemma queue_insert_split: "queue_insert f e a l = takeWhile (\<lambda>x. f x \<le> e) l @ a # dropWhile (\<lambda>x. f x \<le> e) l"
  by (induction l) auto

lemma set_queue_insert [simp]: "set (queue_insert f e a l) = insert a (set l)"
  by (induction l) auto

lemma distinct_queue_insert: "distinct l \<Longrightarrow> a \<notin> set l \<Longrightarrow> distinct (queue_insert f e a l)"
  by (induction l) auto

lemma queue_insert_sorted: "sorted (map f l) \<Longrightarrow> a \<notin> set l \<Longrightarrow> sorted (map (f(a := e)) (queue_insert f e a l))"
  by (induction l) fastforce+

lemma find_slot_spec:
  assumes "lseg timer_next (theap q) (active_timers q c) (xs @ ys) None"
  shows "find_slot e (slot_after c xs) q = Some (Inr (slot_after c (xs @ takeWhile (\<lambda>a. expiry q a \<le> sint e) ys)))"
  using assms
proof (induction ys arbitrary: xs)
  case Nil
  then show ?case using read_after [of q c xs None] by (subst find_slot.simps) simp
next
  case (Cons a ys)
  then obtain t where t: "lseg timer_next (theap q) (active_timers q c) xs (Some a)" "theap q a = Some t"
    by (auto simp: lseg_append split: option.splits)
  then show ?case using Cons.IH [of "xs @ [a]"] Cons.prems read_after [OF t(1)]
    by (subst find_slot.simps) (simp add: expiry_def)
qed

lemma link_timer_spec:
  assumes "lseg timer_next (theap q) (active_timers q c) (xs @ ys) None" "distinct (xs @ ys)" "ts \<notin> set (xs @ ys)" "theap q ts = Some t"
  shows "\<exists>q' r. link_timer ts e (slot_after c xs) q = Inr q' \<and> lseg timer_next (theap q') (active_timers q' c) (xs @ ts # ys) None \<and>
    relinked c (set xs) (q\<lparr>theap := (theap q)(ts \<mapsto> t\<lparr>expire_time := e, timer_next := r\<rparr>)\<rparr>) q'"
proof -
  obtain r where r: "lseg timer_next (theap q) (active_timers q c) xs r" "lseg timer_next (theap q) r ys None" using assms(1) by (auto simp: lseg_append)
  let ?q = "q\<lparr>theap := (theap q)(ts \<mapsto> t\<lparr>expire_time := e, timer_next := r\<rparr>)\<rparr>"
  have "lseg timer_next (theap ?q) (active_timers ?q c) xs r" using r(1) assms(3) by (simp add: lseg_frame)
  from write_after [OF this, of "Some ts"] obtain q' where q': "write_slot ?q (slot_after c xs) (Some ts) = Inr q'"
    "lseg timer_next (theap q') (active_timers q' c) xs (Some ts)" "relinked c (set xs) ?q q'" using assms(2) by auto
  have "theap q' ts = theap ?q ts" "lseg timer_next (theap q') r ys None"
    using q'(3) assms(2,3) r(2) lseg_relinked [OF q'(3), of ys r None] by (auto simp: relinked_def lseg_frame)
  then have "lseg timer_next (theap q') (active_timers q' c) (xs @ ts # ys) None" using q'(2) by (auto simp: lseg_append)
  then show ?thesis using q'(1,3) assms(4) read_after [OF r(1)] by (auto simp: link_timer_def)
qed

text \<open>The lists and what the timers hold, apart from the links.\<close>

lemma wake_for_same [simp]: "theap (wake_for pt q) = theap q" "active_timers (wake_for pt q) = active_timers q"
  by (simp_all add: wake_for_def qemu_rearm_alarm_timer_def Let_def split: slot.split)

definition rearmed_timer :: "nat \<Rightarrow> u64 \<Rightarrow> timers \<Rightarrow> timers \<Rightarrow> bool" where
  "rearmed_timer ts e q q' \<longleftrightarrow>
     (\<forall>a. map_option erase (theap q' a) = map_option (\<lambda>t. erase (if a = ts then t\<lparr>expire_time := e\<rparr> else t)) (theap q a))"

lemma wake_for_queue [simp]:
  "timer_queue (wake_for pt q) c xs = timer_queue q c xs" "rearmed_timer ts e q (wake_for pt q') = rearmed_timer ts e q q'"
  by (simp_all add: timer_queue_def expiry_def [abs_def] rearmed_timer_def)

lemma queue_update:
  assumes "timer_queue q k xs" "a \<notin> set xs"
  shows "timer_queue (q\<lparr>theap := (theap q)(a := v)\<rparr>) k xs"
proof -
  have m: "map (expiry (q\<lparr>theap := (theap q)(a := v)\<rparr>)) xs = map (expiry q) xs" using assms(2) by (auto simp: expiry_def)
  show ?thesis using assms unfolding timer_queue_def m by (auto simp: lseg_frame)
qed

lemma mod_timer_spec:
  assumes "timers_ok q X" "theap q ts = Some t"
  shows "\<exists>q'. qemu_mod_timer ts e q = Some (Inr q') \<and> rearmed_timer ts e q q' \<and>
    timers_ok q' (X(timer_clock t := queue_insert (expiry q) (sint e) ts (remove1 ts (X (timer_clock t)))))"
proof -
  let ?c = "timer_clock t"
  let ?l = "remove1 ts (X ?c)"
  let ?p = "\<lambda>a. expiry q a \<le> sint e"
  obtain q1 where q1: "qemu_del_timer ts q = Some (Inr q1)" "timers_ok q1 (X(?c := ?l))" "relinked ?c (set (X ?c) - {ts}) q q1"
    using del_timer_spec [OF assms] by blast
  then have l: "timer_queue q1 ?c ?l" by (simp add: timers_ok_def split: if_splits)
  obtain t1 where t1: "theap q1 ts = Some t1" "erase t1 = erase t" "timer_clock t1 = ?c"
    using relinked_alloc [OF q1(3) assms(2)] by (auto simp: erase_def)
  have n: "ts \<notin> set ?l" using assms(1) by (simp add: timers_ok_def timer_queue_def)
  define pt where "pt = slot_after ?c (takeWhile ?p ?l)"
  have f: "find_slot e (Head ?c) q1 = Some (Inr pt)"
    using find_slot_spec [of q1 ?c "[]" ?l e] l by (simp add: timer_queue_def slot_after_def relinked_same [OF q1(3)] pt_def)
  have "lseg timer_next (theap q1) (active_timers q1 ?c) (takeWhile ?p ?l @ dropWhile ?p ?l) None" using l by (simp add: timer_queue_def)
  from link_timer_spec [OF this _ _ t1(1), of e] obtain q2 r where q2: "link_timer ts e pt q1 = Inr q2"
    "lseg timer_next (theap q2) (active_timers q2 ?c) (queue_insert (expiry q) (sint e) ts ?l) None"
    "relinked ?c (set (takeWhile ?p ?l)) (q1\<lparr>theap := (theap q1)(ts \<mapsto> t1\<lparr>expire_time := e, timer_next := r\<rparr>)\<rparr>) q2"
    using l n by (auto simp: timer_queue_def queue_insert_split pt_def)
  have x: "expiry q2 = (expiry q)(ts := sint e)"
    "timer_clock (the (theap q2 a)) = timer_clock (the (theap q1 a))" for a
    using relinked_same [OF q2(3)] relinked_same(1) [OF q1(3)] t1(1) by (auto simp: expiry_def [abs_def] fun_eq_iff)
  have "timer_queue q2 ?c (queue_insert (expiry q) (sint e) ts ?l)"
    using l n q2(2) by (auto simp: timer_queue_def x distinct_queue_insert queue_insert_sorted relinked_same [OF q1(3)] assms(2))
  moreover have "timer_queue q2 k (X k)" if k: "k \<noteq> ?c" for k
  proof -
    have "timer_queue q1 k (X k)" using q1(2) k by (auto simp: timers_ok_def split: if_splits)
    moreover from not_queued [OF this, of ts] have "ts \<notin> set (X k)" using t1 k by auto
    ultimately have "timer_queue (q1\<lparr>theap := (theap q1)(ts \<mapsto> t1\<lparr>expire_time := e, timer_next := r\<rparr>)\<rparr>) k (X k)" by (rule queue_update)
    then show ?thesis using l n k set_takeWhileD by (intro queue_other [OF q2(3)]) (fastforce simp: timer_queue_def)+
  qed
  moreover have "rearmed_timer ts e q q2"
    using q1(3) q2(3) assms(2) t1(1,2) by (auto simp: rearmed_timer_def relinked_def) (cases t1, cases t, simp add: erase_def)
  ultimately show ?thesis using q1(1) q2(1) f t1
    by (auto simp: qemu_mod_timer_def bindL_def timers_ok_def)
qed

section \<open>Running expired timers\<close>

text \<open>
  What the main loop relies on when it runs the expired timers of a clock: the handler of a timer returns, keeps the
  invariant of the devices and of the lists, and arms timers only for times after the one that was due. It may stop others.
\<close>

locale timer_callbacks =
  fixes call :: "nat \<Rightarrow> nat \<Rightarrow> timers \<Rightarrow> 'd \<Rightarrow> (timers \<times> 'd) loop"
    and c :: clock
    and now :: u64
    and inv_d :: "timers \<Rightarrow> 'd \<Rightarrow> bool"
  assumes has_queue: "inv_d q d \<Longrightarrow> \<exists>l. timer_queue q c l"
    and handler: "inv_d q d \<Longrightarrow> timer_queue q c (ts # l) \<Longrightarrow> theap q ts = Some t \<Longrightarrow> sint (expire_time t) \<le> sint now \<Longrightarrow>
      \<exists>q' d'. call (timer_cb t) (timer_opaque t) (pop_timer c ts t q) d = Some (Inr (q', d')) \<and> inv_d q' d' \<and>
        (\<forall>l'. timer_queue q' c l' \<longrightarrow>
          (\<forall>a \<in> set l'. a \<in> set l \<and> expiry q' a = expiry q a \<or> sint (expire_time t) < expiry q' a))"
begin

definition lateness :: "timers \<Rightarrow> nat list \<Rightarrow> nat multiset" where
  "lateness q l = image_mset (\<lambda>a. nat (sint now + 1 - expiry q a)) (mset l)"

lemma lateness_decreases:
  assumes "distinct l'" "distinct l" "expiry q ts \<le> sint now"
    and "\<forall>a \<in> set l'. a \<in> set l \<and> expiry q' a = expiry q a \<or> expiry q ts < expiry q' a"
  shows "lateness q' l' < lateness q (ts # l)"
proof -
  let ?P = "\<lambda>a. a \<in> set l \<and> expiry q' a = expiry q a"
  let ?I = "lateness q' (filter ?P l')"
  have i: "?I = lateness q (filter ?P l')" by (auto simp: lateness_def intro!: image_mset_cong)
  have "mset (filter ?P l') \<subseteq># mset l"
  proof -
    have "mset_set (set (filter ?P l')) \<subseteq># mset_set (set l)" by (rule subset_imp_msubset_mset_set) auto
    then show ?thesis unfolding mset_set_set [OF assms(2)] mset_set_set [OF distinct_filter [OF assms(1)]] .
  qed
  then have "?I \<subseteq># lateness q l" unfolding i unfolding lateness_def by (rule image_mset_subseteq_mono)
  then obtain R where R: "lateness q l = ?I + R" by (auto simp: subset_mset.le_iff_add)
  have "lateness q' l' = ?I + lateness q' (filter (\<lambda>a. \<not> ?P a) l')"
    unfolding lateness_def mset_filter by (simp only: multiset_partition [symmetric] flip: image_mset_union)
  moreover have "lateness q (ts # l) = ?I + (R + {#nat (sint now + 1 - expiry q ts)#})" using R by (simp add: lateness_def)
  moreover have "\<forall>k \<in># lateness q' (filter (\<lambda>a. \<not> ?P a) l'). k < nat (sint now + 1 - expiry q ts)"
    using assms(3,4) by (auto simp: lateness_def)
  ultimately show ?thesis unfolding less_multiset_def by (simp only:) (rule one_step_implies_multp, auto)
qed

lemma run_timers_end:
  assumes "inv_d q d" "timer_queue q c l"
  shows "\<exists>q' d'. qemu_run_timers call c now q d = Some (Inr (q', d')) \<and> inv_d q' d' \<and>
    (\<forall>l' a. timer_queue q' c l' \<longrightarrow> a \<in> set l' \<longrightarrow> sint now < expiry q' a)"
  using assms
proof (induction "lateness q l" arbitrary: q d l rule: less_induct)
  case less
  show ?case
  proof (cases l)
    case Nil
    then have "active_timers q c = None" using less.prems(2) by (simp add: timer_queue_def)
    moreover have "l' = []" if "timer_queue q c l'" for l' using queue_unique [OF that less.prems(2)] Nil by simp
    ultimately show ?thesis using less.prems(1) by (subst qemu_run_timers.simps) fastforce
  next
    case (Cons ts r)
    then obtain t where t: "active_timers q c = Some ts" "theap q ts = Some t"
      using less.prems(2) by (auto simp: timer_queue_def split: option.splits)
    show ?thesis
    proof (cases "sint now < sint (expire_time t)")
      case True
      then have "sint now < expiry q a" if "a \<in> set l" for a
        using that less.prems(2) Cons t(2) by (auto simp: timer_queue_def expiry_def)
      then show ?thesis using True t less.prems queue_unique by (subst qemu_run_timers.simps) fastforce
    next
      case False
      then obtain q' d' where q': "call (timer_cb t) (timer_opaque t) (pop_timer c ts t q) d = Some (Inr (q', d'))" "inv_d q' d'"
        "\<forall>l'. timer_queue q' c l' \<longrightarrow> (\<forall>a \<in> set l'. a \<in> set r \<and> expiry q' a = expiry q a \<or> sint (expire_time t) < expiry q' a)"
        using handler [OF less.prems(1), of ts r t] less.prems(2) Cons t(2) by auto
      obtain l' where l': "timer_queue q' c l'" using has_queue [OF q'(2)] by blast
      have "lateness q' l' < lateness q l" unfolding Cons
        using l' less.prems(2) Cons t(2) False q'(3) by (intro lateness_decreases) (auto simp: timer_queue_def expiry_def)
      from less.hyps [OF this q'(2) l'] show ?thesis using t q'(1) False by (subst qemu_run_timers.simps) auto
    qed
  qed
qed

end

section \<open>Refinement\<close>

lemma pending_loop_spec: "lseg timer_next (theap q) p l None \<Longrightarrow> pending_loop ts p q = Some (Inr (ts \<in> set l))"
proof (induction l arbitrary: p)
  case Nil then show ?case by (subst pending_loop.simps) simp
next
  case (Cons a l) then show ?case by (subst pending_loop.simps) (auto split: option.splits)
qed

lemma pending_spec:
  assumes "timers_ok q X" "theap q ts = Some t"
  shows "qemu_timer_pending ts q = Some (Inr (ts \<in> set (X (timer_clock t))))"
  using assms pending_loop_spec [of q "active_timers q (timer_clock t)" "X (timer_clock t)" ts]
  by (simp add: qemu_timer_pending_def timers_ok_def timer_queue_def)

lemma heap_change_ok: "timers_ok q X \<Longrightarrow> (\<And>c. a \<notin> set (X c)) \<Longrightarrow> timers_ok (q\<lparr>theap := (theap q)(a := v)\<rparr>) X"
  by (simp add: timers_ok_def queue_update)

text \<open>The operations of the devices on the timers, and what they mean for queues of timers and expiry times.\<close>

datatype timer_op = New nat clock nat nat | Mod nat u64 | Del nat | Free nat

fun timer_exec :: "timer_op \<Rightarrow> timers \<Rightarrow> timers loop" where
  "timer_exec (New a c cb obj) q = Some (Inr (qemu_new_timer a c cb obj q))"
| "timer_exec (Mod a e) q = qemu_mod_timer a e q"
| "timer_exec (Del a) q = qemu_del_timer a q"
| "timer_exec (Free a) q = Some (qemu_free_timer a q)"

fun timer_execs :: "timer_op list \<Rightarrow> timers \<Rightarrow> timers loop" where
  "timer_execs [] q = Some (Inr q)"
| "timer_execs (x # xs) q = bindL (timer_exec x q) (timer_execs xs)"

record queues =
  alive :: "nat \<Rightarrow> clock option"
  queued :: "clock \<Rightarrow> (nat \<times> int) list"

definition insert_entry :: "nat \<times> int \<Rightarrow> (nat \<times> int) list \<Rightarrow> (nat \<times> int) list" where
  "insert_entry p l = takeWhile (\<lambda>x. snd x \<le> snd p) l @ p # dropWhile (\<lambda>x. snd x \<le> snd p) l"

definition without :: "nat \<Rightarrow> (nat \<times> int) list \<Rightarrow> (nat \<times> int) list" where
  "without a l = filter (\<lambda>x. fst x \<noteq> a) l"

text \<open>The rules of use are in the specification: a new timer has a new address, a freed one is not pending.\<close>

fun spec_op :: "timer_op \<Rightarrow> queues \<Rightarrow> queues option" where
  "spec_op (New a c cb obj) s = (if alive s a = None then Some (s\<lparr>alive := (alive s)(a \<mapsto> c)\<rparr>) else None)"
| "spec_op (Mod a e) s = (case alive s a of None \<Rightarrow> None
     | Some c \<Rightarrow> Some (s\<lparr>queued := (queued s)(c := insert_entry (a, sint e) (without a (queued s c)))\<rparr>))"
| "spec_op (Del a) s = (case alive s a of None \<Rightarrow> None
     | Some c \<Rightarrow> Some (s\<lparr>queued := (queued s)(c := without a (queued s c))\<rparr>))"
| "spec_op (Free a) s = (case alive s a of None \<Rightarrow> None
     | Some c \<Rightarrow> if a \<in> fst ` set (queued s c) then None else Some (s\<lparr>alive := (alive s)(a := None)\<rparr>))"

fun spec_ops :: "timer_op list \<Rightarrow> queues \<Rightarrow> queues option" where
  "spec_ops [] s = Some s"
| "spec_ops (x # xs) s = Option.bind (spec_op x s) (spec_ops xs)"

definition refines :: "timers \<Rightarrow> queues \<Rightarrow> bool" where
  "refines q s \<longleftrightarrow> timers_ok q (\<lambda>c. map fst (queued s c)) \<and> (\<forall>a. map_option timer_clock (theap q a) = alive s a) \<and>
     (\<forall>c a e. (a, e) \<in> set (queued s c) \<longrightarrow> expiry q a = e)"

lemma remove1_entries: "distinct (map fst l) \<Longrightarrow> remove1 a (map fst l) = map fst (without a l)"
  by (induction l) (auto simp: without_def remove1_idem)

lemma insert_entries: "\<forall>x \<in> set l. f (fst x) = snd x \<Longrightarrow> queue_insert f e a (map fst l) = map fst (insert_entry (a, e) l)"
  by (induction l) (auto simp: insert_entry_def)

lemma set_insert_entry [simp]: "set (insert_entry p l) = insert p (set l)"
proof -
  have "set (takeWhile P l) \<union> set (dropWhile P l) = set l" for P by (metis set_append takeWhile_dropWhile_id)
  then show ?thesis by (auto simp: insert_entry_def)
qed

lemma refines_queue: "refines q s \<Longrightarrow> distinct (map fst (queued s c))"
  "refines q s \<Longrightarrow> (a, e) \<in> set (queued s c) \<Longrightarrow> alive s a = Some c"
proof -
  assume r: "refines q s"
  then have t: "timer_queue q c (map fst (queued s c))" by (simp add: refines_def timers_ok_def)
  then show "distinct (map fst (queued s c))" by (simp add: timer_queue_def)
  assume "(a, e) \<in> set (queued s c)"
  then have "a \<in> set (map fst (queued s c))" by force
  from not_queued [OF t this] obtain u where "theap q a = Some u" "timer_clock u = c" by blast
  moreover have "map_option timer_clock (theap q a) = alive s a" using r by (simp add: refines_def)
  ultimately show "alive s a = Some c" by simp
qed

lemma refines_alive: "refines q s \<Longrightarrow> alive s a = Some c \<Longrightarrow> \<exists>t. theap q a = Some t \<and> timer_clock t = c"
  unfolding refines_def by (metis map_option_eq_Some)

lemma erase_fields [simp]: "timer_clock (erase t) = timer_clock t" "expire_time (erase t) = expire_time t" "timer_cb (erase t) = timer_cb t"
  "timer_opaque (erase t) = timer_opaque t"
  by (simp_all add: erase_def)

lemma relinked_clocks: "relinked c A q q' \<Longrightarrow> map_option timer_clock (theap q' a) = map_option timer_clock (theap q a)"
  by (cases "theap q a") (use relinked_none relinked_alloc in fastforce)+

lemma rearmed_heap:
  assumes "rearmed_timer ts e q q'" "theap q a = Some t"
  obtains t' where "theap q' a = Some t'" "timer_clock t' = timer_clock t" "expire_time t' = (if a = ts then e else expire_time t)"
    "timer_cb t' = timer_cb t" "timer_opaque t' = timer_opaque t"
proof -
  have "map_option erase (theap q' a) = Some (erase (if a = ts then t\<lparr>expire_time := e\<rparr> else t))"
    using assms(2) spec [OF assms(1) [unfolded rearmed_timer_def], of a] by simp
  then obtain t' where t': "theap q' a = Some t'" "erase t' = erase (if a = ts then t\<lparr>expire_time := e\<rparr> else t)" by auto
  show ?thesis using that [OF t'(1)] arg_cong [OF t'(2), of timer_clock] arg_cong [OF t'(2), of expire_time]
    arg_cong [OF t'(2), of timer_cb] arg_cong [OF t'(2), of timer_opaque] by (auto split: if_splits)
qed

lemma rearmed_facts:
  assumes "rearmed_timer ts e q q'" "theap q ts = Some t"
  shows "expiry q' = (expiry q)(ts := sint e)" "map_option timer_clock (theap q' a) = map_option timer_clock (theap q a)"
proof -
  have n: "theap q' a = None" if "theap q a = None" for a
    using spec [OF assms(1) [unfolded rearmed_timer_def], of a] that by simp
  have "expiry q' a = (if a = ts then sint e else expiry q a) \<and> map_option timer_clock (theap q' a) = map_option timer_clock (theap q a)" for a
  proof (cases "theap q a")
    case None then show ?thesis using assms(2) n [OF None] by (auto simp: expiry_def)
  next
    case (Some u) show ?thesis by (rule rearmed_heap [OF assms(1) Some]) (simp add: expiry_def Some)
  qed
  then show "expiry q' = (expiry q)(ts := sint e)" "map_option timer_clock (theap q' a) = map_option timer_clock (theap q a)" by auto
qed

lemma spec_op_refined:
  assumes r: "refines q s" and s: "spec_op x s = Some s'"
  shows "\<exists>q'. timer_exec x q = Some (Inr q') \<and> refines q' s'"
proof (cases x)
  case (New a c cb obj)
  then have n: "alive s a = None" "s' = s\<lparr>alive := (alive s)(a \<mapsto> c)\<rparr>" using s by (auto split: if_splits)
  have "a \<notin> set (map fst (queued s k))" for k using refines_queue(2) [OF r] n(1) by force
  then show ?thesis using r n New by (auto simp: refines_def qemu_new_timer_def intro!: heap_change_ok) (force simp: expiry_def)
next
  case (Free a)
  then obtain c where n: "alive s a = Some c" "a \<notin> fst ` set (queued s c)" "s' = s\<lparr>alive := (alive s)(a := None)\<rparr>" using s
    by (auto split: option.splits if_splits)
  have "a \<notin> set (map fst (queued s k))" for k using refines_queue(2) [OF r] n(1,2) by force
  then show ?thesis using r n Free refines_alive [OF r n(1)] by (auto simp: refines_def qemu_free_timer_def intro!: heap_change_ok) (force simp: expiry_def)
next
  case (Del a)
  then obtain c where n: "alive s a = Some c" "s' = s\<lparr>queued := (queued s)(c := without a (queued s c))\<rparr>" using s by (auto split: option.splits)
  obtain t where t: "theap q a = Some t" "timer_clock t = c" using refines_alive [OF r n(1)] by blast
  let ?X = "\<lambda>k. map fst (queued s k)"
  have x: "?X(c := remove1 a (?X c)) = (\<lambda>k. map fst (queued s' k))" using refines_queue(1) [OF r] by (auto simp: n(2) remove1_entries)
  obtain q' where q': "qemu_del_timer a q = Some (Inr q')" "timers_ok q' (\<lambda>k. map fst (queued s' k))" "relinked c (set (?X c) - {a}) q q'"
    using del_timer_spec [of q ?X a t] r t unfolding x [symmetric] by (auto simp: refines_def)
  have "refines q' s'" using q'(2) r relinked_clocks [OF q'(3)] relinked_same(1) [OF q'(3)]
    by (auto simp: refines_def n(2) without_def split: if_splits)
  then show ?thesis using q'(1) Del by auto
next
  case (Mod a e)
  then obtain c where n: "alive s a = Some c" "s' = s\<lparr>queued := (queued s)(c := insert_entry (a, sint e) (without a (queued s c)))\<rparr>" using s
    by (auto split: option.splits)
  obtain t where t: "theap q a = Some t" "timer_clock t = c" using refines_alive [OF r n(1)] by blast
  let ?X = "\<lambda>k. map fst (queued s k)"
  have "queue_insert (expiry q) (sint e) a (remove1 a (?X c)) = map fst (insert_entry (a, sint e) (without a (queued s c)))"
    using r by (subst remove1_entries [OF refines_queue(1) [OF r]], intro insert_entries) (auto simp: refines_def without_def)
  then have x: "?X(c := queue_insert (expiry q) (sint e) a (remove1 a (?X c))) = (\<lambda>k. map fst (queued s' k))" by (auto simp: n(2))
  obtain q' where q': "qemu_mod_timer a e q = Some (Inr q')" "timers_ok q' (\<lambda>k. map fst (queued s' k))" "rearmed_timer a e q q'"
    using mod_timer_spec [of q ?X a t e] r t unfolding x [symmetric] by (auto simp: refines_def)
  have "k = c" if "(a, e') \<in> set (queued s k)" for k e' using refines_queue(2) [OF r that] n(1) by simp
  then have "refines q' s'" using q'(2) r rearmed_facts [OF q'(3) t(1)] by (auto simp: refines_def n(2) without_def split: if_splits)
  then show ?thesis using q'(1) Mod by auto
qed

definition no_timers :: "bool \<Rightarrow> bool \<Rightarrow> timers" where
  "no_timers dynticks icount = \<lparr>theap = Map.empty, active_timers = (\<lambda>_. None), alarm_dynticks = dynticks, alarm_expired = False,
     use_icount = icount, rearmed = 0, notified = 0\<rparr>"

definition no_queues :: queues where
  "no_queues = \<lparr>alive = Map.empty, queued = (\<lambda>_. [])\<rparr>"

lemma spec_ops_refined: "refines q s \<Longrightarrow> spec_ops xs s = Some s' \<Longrightarrow> \<exists>q'. timer_execs xs q = Some (Inr q') \<and> refines q' s'"
proof (induction xs arbitrary: q s)
  case (Cons x xs)
  then obtain s1 where s1: "spec_op x s = Some s1" "spec_ops xs s1 = Some s'" by (auto split: Option.bind_splits)
  from spec_op_refined [OF Cons.prems(1) s1(1)] obtain q1 where "timer_exec x q = Some (Inr q1)" "refines q1 s1" by blast
  then show ?case using Cons.IH [of q1 s1] s1(2) by (auto simp: bindL_def)
qed simp

lemma expired_spec:
  assumes "refines q s"
  shows "qemu_timer_expired (active_timers q c) now q = Inr (\<exists>(a, e) \<in> set (queued s c). e \<le> sint now)"
proof (cases "queued s c")
  case Nil
  then show ?thesis using assms by (auto simp: refines_def timers_ok_def timer_queue_def qemu_timer_expired_def dest!: spec [of _ c])
next
  case (Cons p l)
  obtain a e where p: "p = (a, e)" by (cases p)
  have t: "timer_queue q c (map fst (queued s c))" using assms by (simp add: refines_def timers_ok_def)
  then obtain t where h: "active_timers q c = Some a" "theap q a = Some t" using Cons p
    by (auto simp: timer_queue_def split: option.splits)
  have x: "expiry q b = e'" if "(b, e') \<in> set (queued s c)" for b e' using assms that by (auto simp: refines_def)
  have "e = sint (expire_time t)" using x [of a e] Cons p h(2) by (simp add: expiry_def)
  moreover have "e \<le> e'" if "(b, e') \<in> set l" for b e'
    using t that x Cons p by (force simp: timer_queue_def)
  ultimately show ?thesis using Cons p h by (fastforce simp: qemu_timer_expired_def)
qed

text \<open>
  C17. The linked lists of timers are sorted queues. Every sequence of creating, arming, stopping and freeing timers that follows the
  rules of use runs without touching a freed timer and ends, also in its loops over the lists. Then a timer is pending exactly when
  the queue of its clock holds it, with timers of the same expiry in the order they were armed, and the
  test of the first timer tells whether any timer of the clock has expired.
\<close>

theorem timers_refine:
  assumes "spec_ops xs no_queues = Some s"
  shows "\<exists>q. timer_execs xs (no_timers dynticks icount) = Some (Inr q) \<and>
    (\<forall>a c. alive s a = Some c \<longrightarrow> qemu_timer_pending a q = Some (Inr (a \<in> fst ` set (queued s c)))) \<and>
    (\<forall>c. timer_queue q c (map fst (queued s c)) \<and> sorted (map snd (queued s c)) \<and>
       (\<forall>now. qemu_timer_expired (active_timers q c) now q = Inr (\<exists>(a, e) \<in> set (queued s c). e \<le> sint now)))"
proof -
  have "refines (no_timers dynticks icount) no_queues"
    by (simp add: refines_def no_timers_def no_queues_def timers_ok_def timer_queue_def)
  from spec_ops_refined [OF this assms] obtain q where q: "timer_execs xs (no_timers dynticks icount) = Some (Inr q)" "refines q s" by blast
  then have t: "timer_queue q c (map fst (queued s c))" for c by (simp add: refines_def timers_ok_def)
  have m: "map snd (queued s c) = map (expiry q) (map fst (queued s c))" for c using q(2) by (auto simp: refines_def)
  have "sorted (map snd (queued s c))" for c unfolding m using t [of c] unfolding timer_queue_def by blast
  moreover have "qemu_timer_pending a q = Some (Inr (a \<in> fst ` set (queued s c)))" if "alive s a = Some c" for a c
    using refines_alive [OF q(2) that] pending_spec [of q "\<lambda>c. map fst (queued s c)" a] q(2) by (auto simp: refines_def)
  ultimately show ?thesis using q(1) t expired_spec [OF q(2)] by blast
qed

theorem timers_refine_witness:
  "\<exists>q. timer_execs [New 1 QEMU_CLOCK_HOST 0 0, New 2 QEMU_CLOCK_HOST 0 0, Mod 1 50, Mod 2 30, New 3 QEMU_CLOCK_HOST 0 0, Mod 3 30, Mod 1 10, Del 2]
      (no_timers True False) = Some (Inr q) \<and> timer_queue q QEMU_CLOCK_HOST [1, 3] \<and> qemu_timer_pending 2 q = Some (Inr False) \<and>
    qemu_timer_expired (active_timers q QEMU_CLOCK_HOST) 9 q = Inr False \<and> qemu_timer_expired (active_timers q QEMU_CLOCK_HOST) 10 q = Inr True"
proof -
  let ?xs = "[New 1 QEMU_CLOCK_HOST 0 0, New 2 QEMU_CLOCK_HOST 0 0, Mod 1 50, Mod 2 30, New 3 QEMU_CLOCK_HOST 0 0, Mod 3 30, Mod 1 10, Del 2]"
  obtain s where s: "spec_ops ?xs no_queues = Some s" "queued s QEMU_CLOCK_HOST = [(1, 10), (3, 30)]" "alive s 2 = Some QEMU_CLOCK_HOST"
    by (simp add: no_queues_def insert_entry_def without_def)
  obtain q where q: "timer_execs ?xs (no_timers True False) = Some (Inr q)"
    "\<forall>a c. alive s a = Some c \<longrightarrow> qemu_timer_pending a q = Some (Inr (a \<in> fst ` set (queued s c)))"
    "\<forall>c. timer_queue q c (map fst (queued s c)) \<and> sorted (map snd (queued s c)) \<and>
       (\<forall>now. qemu_timer_expired (active_timers q c) now q = Inr (\<exists>(a, e) \<in> set (queued s c). e \<le> sint now))"
    using timers_refine [OF s(1), of True False] by blast
  have "qemu_timer_pending 2 q = Some (Inr False)" using q(2) s by simp
  moreover have "timer_queue q QEMU_CLOCK_HOST [1, 3]"
    "qemu_timer_expired (active_timers q QEMU_CLOCK_HOST) 9 q = Inr False" "qemu_timer_expired (active_timers q QEMU_CLOCK_HOST) 10 q = Inr True"
    using q(3) [rule_format, of QEMU_CLOCK_HOST] s(2) by simp_all
  ultimately show ?thesis using q(1) by blast
qed

section \<open>The time of the guest\<close>

text \<open>
  The clock and the cycle counter the guest sees stand still while the machine is stopped. The readings of the host, its
  monotonic clock and its cycle counter, are arguments; the counter may go backwards after a suspend of the host. When the
  instructions of the guest are counted, their number replaces the cycle counter.
\<close>

record TimersState =
  cpu_ticks_prev :: int
  cpu_ticks_offset :: int
  cpu_clock_offset :: int
  cpu_ticks_enabled :: bool
  dummy :: int

definition cpu_get_ticks :: "int option \<Rightarrow> int \<Rightarrow> TimersState \<Rightarrow> int \<times> TimersState" where
  "cpu_get_ticks icount real_ticks s =
     (case icount of Some n \<Rightarrow> (n, s)
      | None \<Rightarrow>
          if \<not> cpu_ticks_enabled s then (cpu_ticks_offset s, s)
          else let s = (if cpu_ticks_prev s > real_ticks
                        then s\<lparr>cpu_ticks_offset := cpu_ticks_offset s + (cpu_ticks_prev s - real_ticks)\<rparr> else s);
                   s = s\<lparr>cpu_ticks_prev := real_ticks\<rparr>
               in (real_ticks + cpu_ticks_offset s, s))"

definition cpu_get_clock :: "int \<Rightarrow> TimersState \<Rightarrow> int" where
  "cpu_get_clock host s = (if \<not> cpu_ticks_enabled s then cpu_clock_offset s else host + cpu_clock_offset s)"

definition cpu_enable_ticks :: "int \<Rightarrow> int \<Rightarrow> TimersState \<Rightarrow> TimersState" where
  "cpu_enable_ticks real_ticks host s =
     (if \<not> cpu_ticks_enabled s
      then s\<lparr>cpu_ticks_offset := cpu_ticks_offset s - real_ticks, cpu_clock_offset := cpu_clock_offset s - host, cpu_ticks_enabled := True\<rparr>
      else s)"

definition cpu_disable_ticks :: "int option \<Rightarrow> int \<Rightarrow> int \<Rightarrow> TimersState \<Rightarrow> TimersState" where
  "cpu_disable_ticks icount real_ticks host s =
     (if cpu_ticks_enabled s
      then let (t, s) = cpu_get_ticks icount real_ticks s;
               s = s\<lparr>cpu_ticks_offset := t\<rparr>;
               s = s\<lparr>cpu_clock_offset := cpu_get_clock host s\<rparr>
           in s\<lparr>cpu_ticks_enabled := False\<rparr>
      else s)"

text \<open>Events in the life of a machine that does not count instructions, each with the readings of the counter and of the clock of the host.\<close>

datatype guest_event = Start | Stop | ReadTicks

fun guest_step :: "guest_event \<times> int \<times> int \<Rightarrow> TimersState \<Rightarrow> TimersState" where
  "guest_step (Start, r, h) s = cpu_enable_ticks r h s"
| "guest_step (Stop, r, h) s = cpu_disable_ticks None r h s"
| "guest_step (ReadTicks, r, h) s = snd (cpu_get_ticks None r s)"

fun guest_run :: "(guest_event \<times> int \<times> int) list \<Rightarrow> TimersState \<Rightarrow> TimersState" where
  "guest_run [] s = s"
| "guest_run (x # xs) s = guest_run xs (guest_step x s)"

text \<open>The time a machine has run, from its events: \<open>since\<close> is the time of the last start of a running machine.\<close>

fun run_time :: "(guest_event \<times> int \<times> int) list \<Rightarrow> int option \<Rightarrow> int \<Rightarrow> int" where
  "run_time [] since end_time = (case since of None \<Rightarrow> 0 | Some t \<Rightarrow> end_time - t)"
| "run_time ((Start, r, h) # xs) since end_time = run_time xs (case since of None \<Rightarrow> Some h | Some t \<Rightarrow> Some t) end_time"
| "run_time ((Stop, r, h) # xs) since end_time = (case since of None \<Rightarrow> 0 | Some t \<Rightarrow> h - t) + run_time xs None end_time"
| "run_time ((ReadTicks, r, h) # xs) since end_time = run_time xs since end_time"

lemma guest_clock_run:
  "cpu_ticks_enabled s = (since \<noteq> None) \<Longrightarrow>
   cpu_get_clock end_time (guest_run xs s) = (case since of None \<Rightarrow> cpu_clock_offset s | Some t \<Rightarrow> t + cpu_clock_offset s) + run_time xs since end_time"
proof (induction xs arbitrary: s since)
  case Nil
  then show ?case by (cases since) (auto simp: cpu_get_clock_def)
next
  case (Cons x xs)
  obtain e r h where x: "x = (e, r, h)" by (cases x)
  show ?case
  proof (cases e)
    case Start
    then show ?thesis using Cons.IH [of "cpu_enable_ticks r h s" "case since of None \<Rightarrow> Some h | Some t \<Rightarrow> Some t"] Cons.prems x
      by (cases since) (auto simp: cpu_enable_ticks_def)
  next
    case Stop
    then show ?thesis using Cons.IH [of "cpu_disable_ticks None r h s" None] Cons.prems x
      by (cases since) (auto simp: cpu_disable_ticks_def cpu_get_clock_def cpu_get_ticks_def Let_def split: if_splits)
  next
    case ReadTicks
    then show ?thesis using Cons.IH [of "snd (cpu_get_ticks None r s)" since] Cons.prems x
      by (cases since) (auto simp: cpu_get_ticks_def Let_def)
  qed
qed

text \<open>A counter that does not go backwards from a start of the machine to the reading after it.\<close>

fun steady :: "int option \<Rightarrow> (guest_event \<times> int \<times> int) list \<Rightarrow> int \<Rightarrow> bool" where
  "steady lo [] r' \<longleftrightarrow> (case lo of None \<Rightarrow> True | Some b \<Rightarrow> b \<le> r')"
| "steady lo ((e, r, h) # xs) r' \<longleftrightarrow>
     (case lo of None \<Rightarrow> True | Some b \<Rightarrow> b \<le> r) \<and> steady (if e = Start then Some r else None) xs r'"

definition ticks_above :: "int \<Rightarrow> int option \<Rightarrow> TimersState \<Rightarrow> bool" where
  "ticks_above v lo s \<longleftrightarrow> (if cpu_ticks_enabled s
     then v \<le> cpu_ticks_prev s + cpu_ticks_offset s \<or> (case lo of None \<Rightarrow> False | Some b \<Rightarrow> v \<le> b + cpu_ticks_offset s)
     else v \<le> cpu_ticks_offset s)"

lemma ticks_above_read:
  "ticks_above v lo s \<Longrightarrow> (case lo of None \<Rightarrow> True | Some b \<Rightarrow> b \<le> r) \<Longrightarrow> v \<le> fst (cpu_get_ticks None r s) \<and> ticks_above v lo' (snd (cpu_get_ticks None r s))"
  by (auto simp: ticks_above_def cpu_get_ticks_def Let_def split: option.splits if_splits)

lemma ticks_above_step:
  assumes "ticks_above v lo s" "case lo of None \<Rightarrow> True | Some b \<Rightarrow> b \<le> r"
  shows "ticks_above v (if e = Start then Some r else None) (guest_step (e, r, h) s)"
proof (cases e)
  case Start then show ?thesis using assms by (auto simp: ticks_above_def cpu_enable_ticks_def split: option.splits if_splits)
next
  case Stop
  then show ?thesis using ticks_above_read [OF assms, of None] assms(1)
    by (auto simp: cpu_disable_ticks_def split_beta Let_def ticks_above_def)
next
  case ReadTicks then show ?thesis using ticks_above_read [OF assms] by simp
qed

lemma ticks_monotone: "ticks_above v lo s \<Longrightarrow> steady lo xs r \<Longrightarrow> v \<le> fst (cpu_get_ticks None r (guest_run xs s))"
proof (induction xs arbitrary: s lo)
  case Nil then show ?case using ticks_above_read by simp
next
  case (Cons x xs)
  obtain e r' h where "x = (e, r', h)" by (cases x)
  then show ?case using Cons ticks_above_step [of v lo s r' e h] by auto
qed

definition timers_boot :: TimersState where
  "timers_boot = \<lparr>cpu_ticks_prev = 0, cpu_ticks_offset = 0, cpu_clock_offset = 0, cpu_ticks_enabled = False, dummy = 0\<rparr>"



section \<open>The alarm of the host\<close>

text \<open>
  What the host tells: its monotonic clock and its time of day in nanoseconds, and the instruction counter of the guest. The alarm
  is armed for the next deadline; its handler wakes the main loop.
\<close>

record host_time =
  get_clock :: int
  get_clock_realtime :: int
  cpu_get_icount :: int

definition qemu_get_clock :: "host_time \<Rightarrow> bool \<Rightarrow> TimersState \<Rightarrow> clock \<Rightarrow> int" where
  "qemu_get_clock host icount s c = (case c of
       QEMU_CLOCK_REALTIME \<Rightarrow> get_clock host div 1000000
     | QEMU_CLOCK_VIRTUAL \<Rightarrow> if icount then cpu_get_icount host else cpu_get_clock (get_clock host) s
     | QEMU_CLOCK_HOST \<Rightarrow> get_clock_realtime host)"

definition head_expiry :: "timers \<Rightarrow> clock \<Rightarrow> timer_error + int option" where
  "head_expiry q c = (case active_timers q c of None \<Rightarrow> Inr None
     | Some a \<Rightarrow> (case theap q a of None \<Rightarrow> Inl TimerFault | Some t \<Rightarrow> Inr (Some (sint (expire_time t)))))"

definition INT32_MAX :: int where "INT32_MAX = 2147483647"
definition MIN_TIMER_REARM_US :: int where "MIN_TIMER_REARM_US = 250"

definition qemu_next_deadline :: "host_time \<Rightarrow> TimersState \<Rightarrow> timers \<Rightarrow> timer_error + int" where
  "qemu_next_deadline host s q =
     bindR (head_expiry q QEMU_CLOCK_VIRTUAL) (\<lambda>v. bindR (head_expiry q QEMU_CLOCK_HOST) (\<lambda>h.
       let delta = (case v of None \<Rightarrow> INT32_MAX | Some e \<Rightarrow> e - qemu_get_clock host (use_icount q) s QEMU_CLOCK_VIRTUAL);
           delta = (case h of None \<Rightarrow> delta
             | Some e \<Rightarrow> let hdelta = e - qemu_get_clock host (use_icount q) s QEMU_CLOCK_HOST in if hdelta < delta then hdelta else delta)
       in Inr (if delta < 0 then 0 else delta)))"

definition qemu_next_deadline_dyntick :: "host_time \<Rightarrow> TimersState \<Rightarrow> timers \<Rightarrow> timer_error + int" where
  "qemu_next_deadline_dyntick host s q =
     bindR (if use_icount q then Inr INT32_MAX else bindR (qemu_next_deadline host s q) (\<lambda>d. Inr ((d + 999) div 1000))) (\<lambda>delta.
     bindR (head_expiry q QEMU_CLOCK_REALTIME) (\<lambda>r.
       let delta = (case r of None \<Rightarrow> delta
             | Some e \<Rightarrow> let rtdelta = (e - qemu_get_clock host (use_icount q) s QEMU_CLOCK_REALTIME) * 1000
                       in if rtdelta < delta then rtdelta else delta)
       in Inr (if delta < MIN_TIMER_REARM_US then MIN_TIMER_REARM_US else delta)))"

definition host_alarm_handler :: "host_time \<Rightarrow> TimersState \<Rightarrow> timers \<Rightarrow> timer_error + timers" where
  "host_alarm_handler host s q =
     (let expired = (\<lambda>c. bindR (head_expiry q c) (\<lambda>e. Inr (case e of None \<Rightarrow> False | Some e \<Rightarrow> e \<le> qemu_get_clock host (use_icount q) s c)))
      in bindR (if alarm_dynticks q then Inr True
                else bindR (if use_icount q then Inr False else expired QEMU_CLOCK_VIRTUAL) (\<lambda>v. if v then Inr True
                else bindR (expired QEMU_CLOCK_REALTIME) (\<lambda>r. if r then Inr True else expired QEMU_CLOCK_HOST))) (\<lambda>due.
         Inr (if due then q\<lparr>alarm_expired := True, notified := notified q + 1\<rparr> else q)))"

lemma head_expiry_least:
  assumes "timers_ok q X"
  shows "\<exists>r. head_expiry q c = Inr r \<and> (\<forall>a \<in> set (X c). \<exists>e. r = Some e \<and> e \<le> expiry q a)"
proof (cases "X c")
  case Nil
  then show ?thesis using assms by (auto simp: timers_ok_def timer_queue_def head_expiry_def dest!: spec [of _ c])
next
  case (Cons b l)
  have t: "timer_queue q c (X c)" using assms by (simp add: timers_ok_def)
  then obtain t where "active_timers q c = Some b" "theap q b = Some t" using Cons by (auto simp: timer_queue_def split: option.splits)
  then show ?thesis using t Cons by (auto simp: head_expiry_def timer_queue_def expiry_def)
qed



end
