(* ===== verification/RTCTime.thy ===== *)
theory RTCTime
  imports RTC Timers
begin

text \<open>
  The real time clock on the timers of the main loop. Its four timers are linked into the list of the host clock, and their handlers
  arm them again as \<^verbatim>\<open>hw/mc146818rtc.c\<close> does. The clock keeps the time exactly, no matter how late the main loop runs.
\<close>

unbundle bit_operations_syntax

section \<open>The timers of the clock\<close>

record rtc_timers =
  a_periodic :: nat
  a_coalesced :: nat
  a_second :: nat
  a_second2 :: nat

definition set_timer :: "nat \<Rightarrow> u64 option \<Rightarrow> timers \<Rightarrow> timers loop" where
  "set_timer a x q = (case x of None \<Rightarrow> qemu_del_timer a q | Some t \<Rightarrow> qemu_mod_timer a t q)"

text \<open>The handlers by number; a timer that fires is no longer pending.\<close>

definition CB_PERIODIC :: nat where "CB_PERIODIC = 0"
definition CB_COALESCED :: nat where "CB_COALESCED = 1"
definition CB_SECOND :: nat where "CB_SECOND = 2"
definition CB_SECOND2 :: nat where "CB_SECOND2 = 3"

lemmas rtc_cbs = CB_PERIODIC_def CB_COALESCED_def CB_SECOND_def CB_SECOND2_def

definition rtc_call :: "rtc_env \<Rightarrow> rtc_timers \<Rightarrow> nat \<Rightarrow> nat \<Rightarrow> timers \<Rightarrow> RTCState \<Rightarrow> (timers \<times> RTCState) loop" where
  "rtc_call e A cb obj q s =
     (if cb = CB_PERIODIC
      then let s' = rtc_periodic_timer e (s\<lparr>periodic_timer := None\<rparr>)
           in bindL (set_timer (a_periodic A) (periodic_timer s') q) (\<lambda>q.
              bindL (if rtc_td_hack e \<and> cmos s' RTC_REG_B AND REG_B_PIE \<noteq> 0 \<and> \<not> irq_delivered e
                     then set_timer (a_coalesced A) (coalesced_timer s') q else Some (Inr q)) (\<lambda>q. Some (Inr (q, s'))))
      else if cb = CB_COALESCED
      then let s' = rtc_coalesced_timer e (s\<lparr>coalesced_timer := None\<rparr>)
           in bindL (set_timer (a_coalesced A) (coalesced_timer s') q) (\<lambda>q. Some (Inr (q, s')))
      else if cb = CB_SECOND
      then let s' = rtc_update_second (s\<lparr>second_timer := None\<rparr>)
           in bindL (if cmos s RTC_REG_A AND 0x70 \<noteq> 0x20 then set_timer (a_second A) (second_timer s') q
                     else set_timer (a_second2 A) (second_timer2 s') q) (\<lambda>q. Some (Inr (q, s')))
      else if cb = CB_SECOND2
      then let s' = rtc_update_second2 e (s\<lparr>second_timer2 := None\<rparr>)
           in bindL (set_timer (a_second A) (second_timer s') q) (\<lambda>q. Some (Inr (q, s')))
      else Some (Inl TimerFault))"

definition rtc_create :: "rtc_env \<Rightarrow> rtc_timers \<Rightarrow> tm \<Rightarrow> int \<Rightarrow> timers \<Rightarrow> (timers \<times> RTCState) loop" where
  "rtc_create e A host year q =
     (let s = rtc_initfn e host year;
          q = qemu_new_timer (a_periodic A) QEMU_CLOCK_HOST CB_PERIODIC 0 q;
          q = (if rtc_td_hack e then qemu_new_timer (a_coalesced A) QEMU_CLOCK_HOST CB_COALESCED 0 q else q);
          q = qemu_new_timer (a_second A) QEMU_CLOCK_HOST CB_SECOND 0 q;
          q = qemu_new_timer (a_second2 A) QEMU_CLOCK_HOST CB_SECOND2 0 q
      in bindL (set_timer (a_second2 A) (second_timer2 s) q) (\<lambda>q. Some (Inr (q, s))))"

section \<open>Times\<close>

lemma sint_time: "0 \<le> n \<Longrightarrow> n < 2 ^ 63 \<Longrightarrow> sint (word_of_int n :: u64) = n"
  by (simp add: sint_sbintrunc' signed_take_bit_int_eq_self)

lemma uint_time: "0 \<le> sint (x :: u64) \<Longrightarrow> uint x = sint x"
  using sint_lt [of x] by (simp add: uint_sint take_bit_int_eq_self)

lemma and_not_mask: "unat (x AND NOT (push_bit m 1 - 1) :: u64) = unat x div 2 ^ m * 2 ^ m"
proof -
  have "x AND NOT (push_bit m 1 - 1) = x AND NOT (mask m)" by (simp add: mask_eq_exp_minus_1)
  also have "\<dots> = push_bit m (drop_bit m x)" by (rule bit_eqI) (auto simp: bit_simps)
  also have "\<dots> = x - take_bit m x" using bits_ident [of m x] by (simp add: eq_diff_eq)
  also have "unat \<dots> = unat x - unat x mod 2 ^ m"
    by (subst unat_sub) (simp_all add: word_le_nat_alt unsigned_take_bit_eq take_bit_nat_def)
  also have "\<dots> = unat x div 2 ^ m * 2 ^ m" by (simp add: minus_mod_eq_div_mult)
  finally show ?thesis .
qed

definition next_periodic :: "nat \<Rightarrow> u64 \<Rightarrow> u64" where
  "next_periodic m t =
     (let p = push_bit m (1 :: u32); c = muldiv64 t 32768 get_ticks_per_sec
      in muldiv64 ((c AND NOT (ucast p - 1)) + ucast p) get_ticks_per_sec 32768 + 1)"

lemma tick_later:
  assumes "m \<le> 14" "unat t < 2 ^ 62"
  shows "unat t < unat (next_periodic m t)" "unat (next_periodic m t) < 2 ^ 63"
proof -
  let ?p = "ucast (push_bit m 1 :: u32) :: u64"
  define c where "c = muldiv64 t 32768 get_ticks_per_sec"
  have p: "?p = push_bit m 1" using assms(1) by (intro bit_eqI) (auto simp: bit_simps)
  have m: "(2 :: nat) ^ m \<le> 2 ^ 14" using assms(1) by (intro power_increasing) simp_all
  then have "unat (of_nat (2 ^ m) :: u64) = 2 ^ m" by (subst unat_of_nat) (simp add: take_bit_nat_eq_self)
  then have up: "unat ?p = 2 ^ m" unfolding p by simp
  have "unat t * 32768 div 1000000000 < 2 ^ 48" using assms(2) by simp
  then have c: "unat c = unat t * 32768 div 1000000000" by (simp add: c_def unat_muldiv64 get_ticks_per_sec_def)
  define n where "n = (c AND NOT (?p - 1)) + ?p"
  have n1: "unat (c AND NOT (?p - 1)) = unat c div 2 ^ m * 2 ^ m" unfolding p by (rule and_not_mask)
  have n2: "unat c div 2 ^ m * 2 ^ m \<le> unat c" by simp
  have "unat c < 281474976710656" "(2 :: nat) ^ m \<le> 16384" using c \<open>unat t * 32768 div 1000000000 < 2 ^ 48\<close> m by simp_all
  then have "unat c div 2 ^ m * 2 ^ m + 2 ^ m < 18446744073709551616" using n2 by linarith
  then have n: "unat n = unat c div 2 ^ m * 2 ^ m + 2 ^ m" unfolding n_def using n1 up by (subst unat_add_lem [THEN iffD1]) simp_all
  have lo: "unat c < unat n" using n div_mult_mod_eq [of "unat c" "2 ^ m"] mod_less_divisor [of "2 ^ m" "unat c", OF zero_less_power [OF zero_less_numeral]] by linarith
  have hi: "unat n \<le> unat c + 2 ^ 14" using n n2 m by linarith
  have "unat c * 1000000000 \<le> unat t * 32768" unfolding c by (rule div_times_less_eq_dividend)
  then have "unat n * 1000000000 \<le> (unat t + 500000000) * 32768" using hi by simp
  then have "unat n * 1000000000 div 32768 \<le> unat t + 500000000" using div_le_mono [of _ _ 32768] by fastforce
  then have x: "unat n * 1000000000 div 32768 < 9223372036854775807" using assms(2) by simp
  then have r: "unat (next_periodic m t) = unat n * 1000000000 div 32768 + 1"
    unfolding next_periodic_def Let_def c_def [symmetric] n_def [symmetric]
    by (subst unat_add_lem [THEN iffD1]) (simp_all add: unat_muldiv64 get_ticks_per_sec_def)
  show "unat (next_periodic m t) < 2 ^ 63" using r x by simp
  have "unat t * 32768 < (unat c + 1) * 1000000000" unfolding c using dividend_less_div_times [of 1000000000 "unat t * 32768"] by simp
  also have "\<dots> \<le> unat n * 1000000000" using lo by simp
  finally show "unat t < unat (next_periodic m t)" unfolding r by (simp add: less_Suc_eq_le less_eq_div_iff_mult_less_eq)
qed

section \<open>What the handlers do to the clock\<close>

text \<open>A clock that runs: its divider is on and the guest is not setting the date.\<close>

definition clock_runs :: "RTCState \<Rightarrow> bool" where
  "clock_runs s \<longleftrightarrow> length (cmos_data s) = 128 \<and> cmos s RTC_REG_A AND 0x70 = 0x20 \<and> cmos s RTC_REG_B AND REG_B_SET = 0"

lemma uip_divider:
  "(a OR REG_A_UIP) AND 0x70 = a AND 0x70" "(a AND NOT REG_A_UIP) AND 0x70 = a AND (0x70 :: byte)"
  by (simp_all add: REG_A_UIP_def bit.conj_disj_distrib2) (simp add: and.assoc)

lemma timer_fields [simp]:
  "cmos (s\<lparr>second_timer := x\<rparr>) r = cmos s r" "cmos (s\<lparr>second_timer2 := x\<rparr>) r = cmos s r" "cmos (s\<lparr>periodic_timer := x\<rparr>) r = cmos s r"
  "cmos (s\<lparr>next_second_time := y\<rparr>) r = cmos s r" "cmos (s\<lparr>current_tm := z\<rparr>) r = cmos s r"
  by (simp_all add: cmos_def)

lemma times_kept [simp]:
  "next_second_time (set_cmos r v s) = next_second_time s" "next_periodic_time (set_cmos r v s) = next_periodic_time s"
  "next_second_time (rtc_irq_raise e s) = next_second_time s" "next_periodic_time (rtc_irq_raise e s) = next_periodic_time s"
  "current_tm (rtc_irq_raise e s) = current_tm s" "next_second_time (rtc_timer_update e t s) = next_second_time s"
  by (simp_all add: set_cmos_def rtc_irq_raise_def rtc_timer_update_def Let_def)

lemma copy_date_kept:
  "length (cmos_data (rtc_copy_date s)) = length (cmos_data s)" "current_tm (rtc_copy_date s) = current_tm s"
  "next_second_time (rtc_copy_date s) = next_second_time s" "next_periodic_time (rtc_copy_date s) = next_periodic_time s"
  unfolding copy_date_encodes encode_tm_def by (simp_all add: split_beta Let_def)

lemma copy_date_regs:
  assumes "length (cmos_data s) = 128"
  shows "cmos (rtc_copy_date s) RTC_REG_A = cmos s RTC_REG_A" "cmos (rtc_copy_date s) RTC_REG_B = cmos s RTC_REG_B"
  using fold_cmos [OF assms, of "encode_tm (format s) (base_year s) (current_tm s)"]
  unfolding copy_date_encodes encode_regs by (simp_all add: date_regs_eq RTC_REG_A_def RTC_REG_B_def)

lemma second_effect:
  assumes "clock_runs s"
  defines "s' \<equiv> rtc_update_second (s\<lparr>second_timer := None\<rparr>)"
  shows "clock_runs s'" "current_tm s' = rtc_next_second (current_tm s)" "next_second_time s' = next_second_time s"
    "second_timer2 s' = Some (next_second_time s + 10000000)" "next_periodic_time s' = next_periodic_time s"
  using assms by (simp_all add: clock_runs_def rtc_update_second_def Let_def uip_divider RTC_REG_A_def RTC_REG_B_def get_ticks_per_sec_def)

lemma second2_effect:
  fixes e :: rtc_env
  assumes "clock_runs s"
  defines "s' \<equiv> rtc_update_second2 e (s\<lparr>second_timer2 := None\<rparr>)"
  shows "clock_runs s'" "current_tm s' = current_tm s" "next_second_time s' = next_second_time s + 1000000000"
    "second_timer s' = Some (next_second_time s + 1000000000)" "next_periodic_time s' = next_periodic_time s"
proof -
  define c where "c = rtc_copy_date (s\<lparr>second_timer2 := None\<rparr>)"
  have c: "length (cmos_data c) = 128" "cmos c RTC_REG_A = cmos s RTC_REG_A" "cmos c RTC_REG_B = cmos s RTC_REG_B" "current_tm c = current_tm s"
    "next_second_time c = next_second_time s" "next_periodic_time c = next_periodic_time s"
    using assms(1) by (simp_all add: c_def copy_date_kept copy_date_regs clock_runs_def)
  have s: "cmos (s\<lparr>second_timer2 := None\<rparr>) RTC_REG_B AND REG_B_SET = 0" using assms(1) by (simp add: clock_runs_def)
  define i where "i = (if cmos c RTC_REG_B AND REG_B_AIE \<noteq> 0 \<and> alarm_matches (cmos c RTC_SECONDS_ALARM) (tm_sec (current_tm c)) \<and>
                  alarm_matches (cmos c RTC_MINUTES_ALARM) (tm_mon (current_tm c)) \<and>
                  alarm_matches (cmos c RTC_HOURS_ALARM) (tm_hour (current_tm c))
               then rtc_irq_raise e (set_cmos RTC_REG_C (cmos c RTC_REG_C OR 0xa0) c) else c)"
  have i: "length (cmos_data i) = 128" "cmos i RTC_REG_A = cmos s RTC_REG_A" "cmos i RTC_REG_B = cmos s RTC_REG_B" "current_tm i = current_tm s"
    "next_second_time i = next_second_time s" "next_periodic_time i = next_periodic_time s"
    using c by (simp_all add: i_def RTC_REG_A_def RTC_REG_B_def RTC_REG_C_def)
  define w where "w = set_cmos RTC_REG_C (cmos i RTC_REG_C OR REG_C_UF) i"
  define u where "u = (if cmos w RTC_REG_B AND REG_B_UIE \<noteq> 0
               then rtc_irq_raise e (set_cmos RTC_REG_C (cmos w RTC_REG_C OR REG_C_IRQF) w) else w)"
  have u: "length (cmos_data u) = 128" "cmos u RTC_REG_A = cmos s RTC_REG_A" "cmos u RTC_REG_B = cmos s RTC_REG_B" "current_tm u = current_tm s"
    "next_second_time u = next_second_time s" "next_periodic_time u = next_periodic_time s"
    using i by (simp_all add: u_def w_def RTC_REG_A_def RTC_REG_B_def RTC_REG_C_def)
  have s': "s' = (set_cmos RTC_REG_A (cmos u RTC_REG_A AND NOT REG_A_UIP) u)
    \<lparr>next_second_time := next_second_time u + 1000000000, second_timer := Some (next_second_time u + 1000000000)\<rparr>"
    unfolding s'_def rtc_update_second2_def Let_def if_P [OF s] c_def [symmetric] i_def [symmetric] w_def [symmetric] u_def [symmetric]
    by (simp add: get_ticks_per_sec_def)
  show "clock_runs s'" "current_tm s' = current_tm s" "next_second_time s' = next_second_time s + 1000000000"
    "second_timer s' = Some (next_second_time s + 1000000000)" "next_periodic_time s' = next_periodic_time s"
    using u assms(1) by (simp_all add: s' clock_runs_def uip_divider RTC_REG_A_def RTC_REG_B_def)
qed

lemma timer_update_next:
  fixes e :: rtc_env and t :: u64 and s :: RTCState
  defines "s' \<equiv> rtc_timer_update e t s"
  shows "periodic_timer s' = None \<or> (\<exists>m \<le> 14. periodic_timer s' = Some (next_periodic m t) \<and> next_periodic_time s' = next_periodic m t)"
proof -
  define k where "k = unat (cmos s RTC_REG_A AND 0x0f)"
  have "cmos s RTC_REG_A AND 0x0f \<le> 0x0f" by (rule word_and_le1)
  then have "k \<le> 15" by (simp add: word_le_nat_alt k_def)
  then show ?thesis unfolding s'_def rtc_timer_update_def k_def [symmetric] Let_def next_periodic_def
    by (auto intro!: exI [of _ "if k \<le> 2 then 6 + k else k - 1"])
qed

lemma periodic_fields [simp]:
  "periodic_timer (set_cmos r v s) = periodic_timer s" "periodic_timer (rtc_irq_raise e s) = periodic_timer s"
  by (simp_all add: set_cmos_def rtc_irq_raise_def)

lemma periodic_effect:
  fixes e :: rtc_env
  assumes "clock_runs s" "\<not> rtc_td_hack e"
  defines "s' \<equiv> rtc_periodic_timer e (s\<lparr>periodic_timer := None\<rparr>)"
  shows "clock_runs s'" "current_tm s' = current_tm s" "next_second_time s' = next_second_time s"
    "periodic_timer s' = None \<or>
     (\<exists>m \<le> 14. periodic_timer s' = Some (next_periodic m (next_periodic_time s)) \<and> next_periodic_time s' = next_periodic m (next_periodic_time s))"
proof -
  let ?t = "rtc_timer_update e (next_periodic_time s) (s\<lparr>periodic_timer := None\<rparr>)"
  define p where "p = (if cmos ?t RTC_REG_B AND REG_B_PIE \<noteq> 0
    then rtc_irq_raise e (set_cmos RTC_REG_C (cmos ?t RTC_REG_C OR 0xc0) ?t) else ?t)"
  have p: "length (cmos_data p) = 128" "cmos p RTC_REG_A = cmos s RTC_REG_A" "cmos p RTC_REG_B = cmos s RTC_REG_B" "current_tm p = current_tm s"
    "next_second_time p = next_second_time s" "periodic_timer p = periodic_timer ?t" "next_periodic_time p = next_periodic_time ?t"
    using assms(1) by (simp_all add: p_def clock_runs_def RTC_REG_A_def RTC_REG_B_def RTC_REG_C_def)
  have s': "s' = (if cmos p RTC_REG_B AND REG_B_SQWE \<noteq> 0 then p\<lparr>sqw_irq := map_option (\<lambda>ls. ls @ [1]) (sqw_irq p)\<rparr> else p)"
    unfolding s'_def rtc_periodic_timer_def Let_def using assms(2) by (simp add: p_def)
  then show "clock_runs s'" "current_tm s' = current_tm s" "next_second_time s' = next_second_time s"
    using p assms(1) by (simp_all add: clock_runs_def)
  show "periodic_timer s' = None \<or>
     (\<exists>m \<le> 14. periodic_timer s' = Some (next_periodic m (next_periodic_time s)) \<and> next_periodic_time s' = next_periodic m (next_periodic_time s))"
    using timer_update_next [of e "next_periodic_time s" "s\<lparr>periodic_timer := None\<rparr>"] p s' by simp
qed

section \<open>The clock on its timers\<close>

lemma pop_ok:
  assumes "timers_ok q X" "X c = ts # l" "theap q ts = Some t"
  shows "timers_ok (pop_timer c ts t q) (X(c := l))" "expiry (pop_timer c ts t q) = expiry q"
    "map_option erase (theap (pop_timer c ts t q) a) = map_option erase (theap q a)"
proof -
  let ?q = "pop_timer c ts t q"
  have q: "timer_queue q k (X k)" for k using assms(1) by (simp add: timers_ok_def)
  show e: "expiry ?q = expiry q" using assms(3) by (auto simp: expiry_def pop_timer_def)
  show "map_option erase (theap ?q a) = map_option erase (theap q a)" using assms(3) by (simp add: pop_timer_def erase_def)
  have n: "ts \<notin> set (X k)" if "k \<noteq> c" for k
    using q [of c] q [of k] that assms(2) by (auto simp: timer_queue_def)
  have h: "timer_clock (the (theap ?q a)) = timer_clock (the (theap q a))" for a using assms(3) by (simp add: pop_timer_def)
  have "timer_queue ?q c l" using q [of c] assms(2,3) by (auto simp: timer_queue_def e h) (auto simp: pop_timer_def lseg_frame)
  moreover have "timer_queue ?q k (X k)" if "k \<noteq> c" for k
    using q [of k] n [OF that] that by (auto simp: timer_queue_def e h) (auto simp: pop_timer_def lseg_frame)
  ultimately show "timers_ok ?q (X(c := l))" by (simp add: timers_ok_def)
qed

definition is_timer :: "timers \<Rightarrow> nat \<Rightarrow> nat \<Rightarrow> bool" where
  "is_timer q a cb \<longleftrightarrow> (case theap q a of None \<Rightarrow> False | Some t \<Rightarrow> timer_clock t = QEMU_CLOCK_HOST \<and> timer_cb t = cb)"

lemma is_timer_erase: "map_option erase (theap q' a) = map_option erase (theap q a) \<Longrightarrow> is_timer q' a cb = is_timer q a cb"
  unfolding is_timer_def by (cases "theap q a"; cases "theap q' a") (auto dest: arg_cong [of _ _ timer_clock] arg_cong [of _ _ timer_cb])

lemma set_timer_spec:
  assumes "timers_ok q X" "is_timer q a cb"
  shows "\<exists>q' X'. set_timer a x q = Some (Inr q') \<and> timers_ok q' X' \<and>
    set (X' QEMU_CLOCK_HOST) = (if x = None then set (X QEMU_CLOCK_HOST) - {a} else insert a (set (X QEMU_CLOCK_HOST))) \<and>
    expiry q' = (case x of None \<Rightarrow> expiry q | Some e \<Rightarrow> (expiry q)(a := sint e)) \<and> (\<forall>b cb. is_timer q' b cb = is_timer q b cb)"
proof -
  obtain t where t: "theap q a = Some t" "timer_clock t = QEMU_CLOCK_HOST" using assms(2) by (auto simp: is_timer_def split: option.splits)
  have d: "distinct (X QEMU_CLOCK_HOST)" using assms(1) by (simp add: timers_ok_def timer_queue_def)
  show ?thesis
  proof (cases x)
    case None
    obtain q' where q': "qemu_del_timer a q = Some (Inr q')" "timers_ok q' (X(QEMU_CLOCK_HOST := remove1 a (X QEMU_CLOCK_HOST)))"
      "relinked QEMU_CLOCK_HOST (set (X QEMU_CLOCK_HOST) - {a}) q q'" using del_timer_spec [OF assms(1) t(1)] t(2) by auto
    have "is_timer q' b cb = is_timer q b cb" for b cb using q'(3) by (intro is_timer_erase) (simp add: relinked_def)
    then show ?thesis using q' None d relinked_same(1) [OF q'(3)]
      by (intro exI [of _ q'] exI [of _ "X(QEMU_CLOCK_HOST := remove1 a (X QEMU_CLOCK_HOST))"]) (simp add: set_timer_def)
  next
    case (Some e)
    obtain q' where q': "qemu_mod_timer a e q = Some (Inr q')" "rearmed_timer a e q q'"
      "timers_ok q' (X(QEMU_CLOCK_HOST := queue_insert (expiry q) (sint e) a (remove1 a (X QEMU_CLOCK_HOST))))"
      using mod_timer_spec [OF assms(1) t(1), of e] t(2) by auto
    have "is_timer q' b cb = is_timer q b cb" for b cb
    proof (cases "theap q b")
      case None
      then have "theap q' b = None" using spec [OF q'(2) [unfolded rearmed_timer_def], of b] by simp
      then show ?thesis using None by (simp add: is_timer_def)
    next
      case (Some u) show ?thesis by (rule rearmed_heap [OF q'(2) Some]) (simp add: is_timer_def Some)
    qed
    then show ?thesis using q' Some d rearmed_facts(1) [OF q'(2) t(1)]
      by (intro exI [of _ q'] exI [of _ "X(QEMU_CLOCK_HOST := queue_insert (expiry q) (sint e) a (remove1 a (X QEMU_CLOCK_HOST)))"])
        (auto simp: set_timer_def)
  qed
qed

text \<open>
  The state between the runs of the main loop, for a clock whose first second ends at time \<open>start\<close> and that showed \<open>date\<close> before. Either the timer
  of the next second is pending, or the clock is between the change of the date and the end of the update cycle.
\<close>

definition rtc_phase :: "rtc_timers \<Rightarrow> int \<Rightarrow> int \<Rightarrow> int \<Rightarrow> timers \<Rightarrow> RTCState \<Rightarrow> nat set \<Rightarrow> int \<Rightarrow> bool" where
  "rtc_phase A start date now q s L k \<longleftrightarrow> (let n = start + k * 1000000000 in
     next_second_time s = word_of_int n \<and>
     (a_second A \<in> L \<and> a_second2 A \<notin> L \<and> 0 \<le> k \<and> expiry q (a_second A) = n \<and> second_number (current_tm s) = date + k \<and>
        (k = 0 \<or> n - 1000000000 \<le> now) \<or>
      a_second2 A \<in> L \<and> a_second A \<notin> L \<and> - 1 \<le> k \<and> n \<le> expiry q (a_second2 A) \<and> expiry q (a_second2 A) \<le> n + 10000000 \<and>
        second_number (current_tm s) = date + k + 1 \<and> (k = - 1 \<or> n \<le> now)))"

definition rtc_inv :: "rtc_env \<Rightarrow> rtc_timers \<Rightarrow> int \<Rightarrow> int \<Rightarrow> int \<Rightarrow> timers \<Rightarrow> RTCState \<Rightarrow> bool" where
  "rtc_inv e A start date now q s \<longleftrightarrow>
     \<not> rtc_td_hack e \<and> 1000000000 \<le> start \<and> 0 \<le> now \<and> now < 2 ^ 61 \<and> distinct [a_periodic A, a_second A, a_second2 A] \<and>
     is_timer q (a_periodic A) CB_PERIODIC \<and> is_timer q (a_second A) CB_SECOND \<and> is_timer q (a_second2 A) CB_SECOND2 \<and>
     clock_runs s \<and> valid_tm (current_tm s) \<and>
     (\<exists>X k. timers_ok q X \<and> set (X QEMU_CLOCK_HOST) \<subseteq> {a_periodic A, a_second A, a_second2 A} \<and>
        (a_periodic A \<in> set (X QEMU_CLOCK_HOST) \<longrightarrow> 0 \<le> expiry q (a_periodic A) \<and> expiry q (a_periodic A) = sint (next_periodic_time s)) \<and>
        rtc_phase A start date now q s (set (X QEMU_CLOCK_HOST)) k)"

text \<open>
  A timer that fires and the timer its handler sets: the list without the first, what was known of the rest, and the list
  after the handler.
\<close>

abbreviation popped :: "timers \<Rightarrow> nat \<Rightarrow> QEMUTimer \<Rightarrow> timers" where
  "popped q ts t \<equiv> pop_timer QEMU_CLOCK_HOST ts t q"

definition after_fire :: "timers \<Rightarrow> nat list \<Rightarrow> int \<Rightarrow> timers \<Rightarrow> bool" where
  "after_fire q l e q' \<longleftrightarrow>
     (\<forall>l'. timer_queue q' QEMU_CLOCK_HOST l' \<longrightarrow> (\<forall>a \<in> set l'. a \<in> set l \<and> expiry q' a = expiry q a \<or> e < expiry q' a))"

lemma fire_and_set:
  assumes "timers_ok q Y" "Y QEMU_CLOCK_HOST = ts # l" "theap q ts = Some t" "is_timer q b cb" "b \<notin> set l"
    "\<And>y. x = Some y \<Longrightarrow> sint (expire_time t) < sint y"
  shows "\<exists>q' X'. set_timer b x (popped q ts t) = Some (Inr q') \<and> timers_ok q' X' \<and>
    set (X' QEMU_CLOCK_HOST) = (if x = None then set l else insert b (set l)) \<and>
    expiry q' = (case x of None \<Rightarrow> expiry q | Some y \<Rightarrow> (expiry q)(b := sint y)) \<and> (\<forall>a cb. is_timer q' a cb = is_timer q a cb) \<and>
    after_fire q l (sint (expire_time t)) q'"
proof -
  note p = pop_ok [OF assms(1-3)] 
  have m: "is_timer (popped q ts t) a cb = is_timer q a cb" for a cb by (rule is_timer_erase [OF p(3)])
  have d: "set l - {b} = set l" using assms(5) by blast
  obtain q' X' where q': "set_timer b x (popped q ts t) = Some (Inr q')" "timers_ok q' X'"
    "set (X' QEMU_CLOCK_HOST) = (if x = None then set l else insert b (set l))"
    "expiry q' = (case x of None \<Rightarrow> expiry q | Some y \<Rightarrow> (expiry q)(b := sint y))" "\<forall>a cb. is_timer q' a cb = is_timer q a cb"
    using set_timer_spec [OF p(1), of b cb x, unfolded m p(2) fun_upd_same d, OF assms(4)] by blast
  have "l' = X' QEMU_CLOCK_HOST" if "timer_queue q' QEMU_CLOCK_HOST l'" for l'
    using that q'(2) by (intro queue_unique) (auto simp: timers_ok_def)
  then have "after_fire q l (sint (expire_time t)) q'" using q'(3,4) assms(5,6) by (auto simp: after_fire_def split: option.splits)
  then show ?thesis using q' by blast
qed

lemma rtc_inv_queue:
  assumes "rtc_inv e A start date now q s" "timer_queue q QEMU_CLOCK_HOST (ts # l)"
  obtains Y k where "timers_ok q Y" "Y QEMU_CLOCK_HOST = ts # l" "ts \<notin> set l" "insert ts (set l) \<subseteq> {a_periodic A, a_second A, a_second2 A}"
    "a_periodic A \<in> insert ts (set l) \<longrightarrow> 0 \<le> expiry q (a_periodic A) \<and> expiry q (a_periodic A) = sint (next_periodic_time s)"
    "rtc_phase A start date now q s (insert ts (set l)) k"
proof -
  obtain Y k where Y: "timers_ok q Y" "set (Y QEMU_CLOCK_HOST) \<subseteq> {a_periodic A, a_second A, a_second2 A}"
    "a_periodic A \<in> set (Y QEMU_CLOCK_HOST) \<longrightarrow> 0 \<le> expiry q (a_periodic A) \<and> expiry q (a_periodic A) = sint (next_periodic_time s)"
    "rtc_phase A start date now q s (set (Y QEMU_CLOCK_HOST)) k"
    using assms(1) unfolding rtc_inv_def by blast
  have l: "Y QEMU_CLOCK_HOST = ts # l" using Y(1) assms(2) by (intro queue_unique) (auto simp: timers_ok_def)
  have "ts \<notin> set l" using assms(2) by (simp add: timer_queue_def)
  then show ?thesis using Y that [of Y k] unfolding l list.set by blast
qed

lemma rtc_invD:
  assumes "rtc_inv e A start date now q s"
  shows "clock_runs s" "valid_tm (current_tm s)" "\<not> rtc_td_hack e" "1000000000 \<le> start" "0 \<le> now" "now < 2 ^ 61"
    "distinct [a_periodic A, a_second A, a_second2 A]" "is_timer q (a_periodic A) CB_PERIODIC" "is_timer q (a_second A) CB_SECOND" "is_timer q (a_second2 A) CB_SECOND2"
  using assms by (simp_all add: rtc_inv_def)

lemma second_fires:
  assumes "rtc_inv e A start date now q s" "timer_queue q QEMU_CLOCK_HOST (a_second A # l)" "theap q (a_second A) = Some t"
    "sint (expire_time t) \<le> now"
  shows "\<exists>q' s'. rtc_call e A CB_SECOND obj (popped q (a_second A) t) s = Some (Inr (q', s')) \<and> rtc_inv e A start date now q' s' \<and>
    after_fire q l (sint (expire_time t)) q'"
proof -
  let ?s = "rtc_update_second (s\<lparr>second_timer := None\<rparr>)"
  obtain Y k where f: "timers_ok q Y" "Y QEMU_CLOCK_HOST = a_second A # l" "a_second A \<notin> set l" "insert (a_second A) (set l) \<subseteq> {a_periodic A, a_second A, a_second2 A}"
    "a_periodic A \<in> insert (a_second A) (set l) \<longrightarrow> 0 \<le> expiry q (a_periodic A) \<and> expiry q (a_periodic A) = sint (next_periodic_time s)"
    "rtc_phase A start date now q s (insert (a_second A) (set l)) k" using rtc_inv_queue [OF assms(1,2)] by blast
  note i = rtc_invD [OF assms(1)]
  note s = second_effect [OF i(1)]
  define n where "n = start + k * 1000000000"
  have ph: "next_second_time s = word_of_int n" "a_second2 A \<notin> set l" "0 \<le> k" "sint (expire_time t) = n" "second_number (current_tm s) = date + k"
    using f(6) i(7) assms(3) by (auto simp: rtc_phase_def Let_def n_def expiry_def)
  have n: "0 \<le> n" "n \<le> now" using ph(3,4) i(4) assms(4) by (auto simp: n_def)
  have "second_timer2 ?s = Some (word_of_int (n + 10000000))" using s(4) ph(1) by (simp add: wi_hom_add [symmetric])
  moreover have "sint (word_of_int (n + 10000000) :: u64) = n + 10000000" using n i(6) by (intro sint_time) simp_all
  ultimately obtain q' X' where q': "set_timer (a_second2 A) (second_timer2 ?s) (popped q (a_second A) t) = Some (Inr q')" "timers_ok q' X'"
    "set (X' QEMU_CLOCK_HOST) = insert (a_second2 A) (set l)" "expiry q' = (expiry q)(a_second2 A := n + 10000000)"
    "\<forall>b cb. is_timer q' b cb = is_timer q b cb" "after_fire q l (sint (expire_time t)) q'"
    using fire_and_set [OF f(1,2) assms(3) i(10) ph(2), of "second_timer2 ?s"] ph(4) by auto
  have "rtc_phase A start date now q' ?s (set (X' QEMU_CLOCK_HOST)) k"
    using ph n i(7) q'(3,4) s f(3) next_second_step(2) [OF i(2)] by (simp add: rtc_phase_def Let_def n_def [symmetric])
  then have "rtc_inv e A start date now q' ?s"
    using i q' s f(4,5) next_second_step(1) [OF i(2)] by (auto simp: rtc_inv_def intro!: exI [of _ X'] exI [of _ k])
  moreover have "rtc_call e A CB_SECOND obj (popped q (a_second A) t) s = Some (Inr (q', ?s))"
    using q'(1) i(1) by (simp add: rtc_call_def rtc_cbs bindL_def clock_runs_def)
  ultimately show ?thesis using q'(6) by blast
qed

lemma second2_fires:
  assumes "rtc_inv e A start date now q s" "timer_queue q QEMU_CLOCK_HOST (a_second2 A # l)" "theap q (a_second2 A) = Some t"
    "sint (expire_time t) \<le> now"
  shows "\<exists>q' s'. rtc_call e A CB_SECOND2 obj (popped q (a_second2 A) t) s = Some (Inr (q', s')) \<and> rtc_inv e A start date now q' s' \<and>
    after_fire q l (sint (expire_time t)) q'"
proof -
  let ?s = "rtc_update_second2 e (s\<lparr>second_timer2 := None\<rparr>)"
  obtain Y k where f: "timers_ok q Y" "Y QEMU_CLOCK_HOST = a_second2 A # l" "a_second2 A \<notin> set l" "insert (a_second2 A) (set l) \<subseteq> {a_periodic A, a_second A, a_second2 A}"
    "a_periodic A \<in> insert (a_second2 A) (set l) \<longrightarrow> 0 \<le> expiry q (a_periodic A) \<and> expiry q (a_periodic A) = sint (next_periodic_time s)"
    "rtc_phase A start date now q s (insert (a_second2 A) (set l)) k" using rtc_inv_queue [OF assms(1,2)] by blast
  note i = rtc_invD [OF assms(1)]
  note s = second2_effect [OF i(1), of e]
  define n where "n = start + k * 1000000000"
  have ph: "next_second_time s = word_of_int n" "a_second A \<notin> set l" "- 1 \<le> k" "n \<le> sint (expire_time t)" "sint (expire_time t) \<le> n + 10000000"
    "second_number (current_tm s) = date + k + 1"
    using f(6) i(7) assms(3) by (auto simp: rtc_phase_def Let_def n_def expiry_def)
  have n: "0 \<le> n" "n \<le> now" using ph(3,4) i(4) assms(4) by (auto simp: n_def)
  have w: "next_second_time s + 1000000000 = word_of_int (n + 1000000000)" using ph(1) by (simp add: wi_hom_add [symmetric])
  moreover have "sint (word_of_int (n + 1000000000) :: u64) = n + 1000000000" using n i(6) by (intro sint_time) simp_all
  ultimately obtain q' X' where q': "set_timer (a_second A) (second_timer ?s) (popped q (a_second2 A) t) = Some (Inr q')" "timers_ok q' X'"
    "set (X' QEMU_CLOCK_HOST) = insert (a_second A) (set l)" "expiry q' = (expiry q)(a_second A := n + 1000000000)"
    "\<forall>b cb. is_timer q' b cb = is_timer q b cb" "after_fire q l (sint (expire_time t)) q'"
    using fire_and_set [OF f(1,2) assms(3) i(9) ph(2), of "second_timer ?s"] ph(5) s(4) by auto
  have "n + 1000000000 = start + (k + 1) * 1000000000" by (simp add: n_def algebra_simps)
  then have "rtc_phase A start date now q' ?s (set (X' QEMU_CLOCK_HOST)) (k + 1)"
    using ph n i(7) q'(3,4) s w f(3) by (simp add: rtc_phase_def Let_def)
  then have "rtc_inv e A start date now q' ?s"
    using i q' s f(4,5) by (auto simp: rtc_inv_def intro!: exI [of _ X'] exI [of _ "k + 1"])
  moreover have "rtc_call e A CB_SECOND2 obj (popped q (a_second2 A) t) s = Some (Inr (q', ?s))"
    using q'(1) by (simp add: rtc_call_def rtc_cbs bindL_def)
  ultimately show ?thesis using q'(6) by blast
qed

lemma phase_cong:
  "rtc_phase A start date now q s L k \<Longrightarrow> (a_second A \<in> L') = (a_second A \<in> L) \<Longrightarrow> (a_second2 A \<in> L') = (a_second2 A \<in> L) \<Longrightarrow>
   expiry q' (a_second A) = expiry q (a_second A) \<Longrightarrow> expiry q' (a_second2 A) = expiry q (a_second2 A) \<Longrightarrow>
   next_second_time s' = next_second_time s \<Longrightarrow> current_tm s' = current_tm s \<Longrightarrow> rtc_phase A start date now q' s' L' k"
  by (simp add: rtc_phase_def)

lemma sint_next_periodic:
  assumes "m \<le> 14" "0 \<le> sint t" "sint t < 2 ^ 61"
  shows "sint t < sint (next_periodic m t)"
proof -
  have u: "int (unat t) = sint t" using uint_time [OF assms(2)] by simp
  then have "int (unat t) < int (2 ^ 62)" using assms(3) by simp
  then have "unat t < 2 ^ 62" by (simp only: of_nat_less_iff)
  note l = tick_later [OF assms(1) this]
  have "int (unat (next_periodic m t)) < int (2 ^ 63)" using l(2) by (simp only: of_nat_less_iff)
  then have "sint (next_periodic m t) = int (unat (next_periodic m t))" using sint_time [of "int (unat (next_periodic m t))"] by simp
  then show ?thesis using l(1) u by linarith
qed

lemma periodic_fires:
  assumes "rtc_inv e A start date now q s" "timer_queue q QEMU_CLOCK_HOST (a_periodic A # l)" "theap q (a_periodic A) = Some t"
    "sint (expire_time t) \<le> now"
  shows "\<exists>q' s'. rtc_call e A CB_PERIODIC obj (popped q (a_periodic A) t) s = Some (Inr (q', s')) \<and> rtc_inv e A start date now q' s' \<and>
    after_fire q l (sint (expire_time t)) q'"
proof -
  let ?s = "rtc_periodic_timer e (s\<lparr>periodic_timer := None\<rparr>)"
  obtain Y k where f: "timers_ok q Y" "Y QEMU_CLOCK_HOST = a_periodic A # l" "a_periodic A \<notin> set l" "insert (a_periodic A) (set l) \<subseteq> {a_periodic A, a_second A, a_second2 A}"
    "a_periodic A \<in> insert (a_periodic A) (set l) \<longrightarrow> 0 \<le> expiry q (a_periodic A) \<and> expiry q (a_periodic A) = sint (next_periodic_time s)"
    "rtc_phase A start date now q s (insert (a_periodic A) (set l)) k" using rtc_inv_queue [OF assms(1,2)] by blast
  note i = rtc_invD [OF assms(1)]
  note s = periodic_effect [OF i(1,3)]
  have e: "sint (expire_time t) = sint (next_periodic_time s)" "0 \<le> sint (next_periodic_time s)" "sint (next_periodic_time s) < 2 ^ 61"
    using f(5) assms(3,4) i(6) by (simp_all add: expiry_def)
  have y: "sint (next_periodic_time s) < sint y \<and> y = next_periodic_time ?s" if "periodic_timer ?s = Some y" for y
    using s(4) that sint_next_periodic [OF _ e(2,3)] by auto
  then obtain q' X' where q': "set_timer (a_periodic A) (periodic_timer ?s) (popped q (a_periodic A) t) = Some (Inr q')" "timers_ok q' X'"
    "set (X' QEMU_CLOCK_HOST) = (if periodic_timer ?s = None then set l else insert (a_periodic A) (set l))"
    "expiry q' = (case periodic_timer ?s of None \<Rightarrow> expiry q | Some y \<Rightarrow> (expiry q)(a_periodic A := sint y))"
    "\<forall>b cb. is_timer q' b cb = is_timer q b cb" "after_fire q l (sint (expire_time t)) q'"
    using fire_and_set [OF f(1,2) assms(3) i(8) f(3), of "periodic_timer ?s"] e(1) by auto
  have "rtc_phase A start date now q' ?s (set (X' QEMU_CLOCK_HOST)) k"
    using i(7) q'(3,4) s(2,3) by (intro phase_cong [OF f(6)]) (auto split: option.splits)
  moreover have "a_periodic A \<in> set (X' QEMU_CLOCK_HOST) \<longrightarrow> 0 \<le> expiry q' (a_periodic A) \<and> expiry q' (a_periodic A) = sint (next_periodic_time ?s)"
    using q'(3,4) y e(2) f(3) by (fastforce split: option.splits if_splits)
  moreover have "set (X' QEMU_CLOCK_HOST) \<subseteq> {a_periodic A, a_second A, a_second2 A}" using q'(3) f(4) by auto
  ultimately have "rtc_inv e A start date now q' ?s" using i q'(2,5) s(1,2) unfolding rtc_inv_def by auto
  moreover have "rtc_call e A CB_PERIODIC obj (popped q (a_periodic A) t) s = Some (Inr (q', ?s))"
    using q'(1) i(3) by (simp add: rtc_call_def rtc_cbs bindL_def)
  ultimately show ?thesis using q'(6) by blast
qed

text \<open>The clock keeps the promise of the timers; its handlers arm them only for later.\<close>

interpretation rtc: timer_callbacks "rtc_call e A" QEMU_CLOCK_HOST now "rtc_inv e A start date (sint now)" for e A now start date
proof
  fix q s
  assume "rtc_inv e A start date (sint now) q s"
  then show "\<exists>l. timer_queue q QEMU_CLOCK_HOST l" by (auto simp: rtc_inv_def timers_ok_def)
next
  fix q s ts l t
  assume h: "rtc_inv e A start date (sint now) q s" "timer_queue q QEMU_CLOCK_HOST (ts # l)" "theap q ts = Some t" "sint (expire_time t) \<le> sint now"
  have "ts \<in> {a_periodic A, a_second A, a_second2 A}" using rtc_inv_queue [OF h(1,2)] by blast
  moreover have "is_timer q (a_periodic A) CB_PERIODIC" "is_timer q (a_second A) CB_SECOND" "is_timer q (a_second2 A) CB_SECOND2"
    using rtc_invD [OF h(1)] by simp_all
  ultimately consider "ts = a_periodic A" "timer_cb t = CB_PERIODIC" | "ts = a_second A" "timer_cb t = CB_SECOND" | "ts = a_second2 A" "timer_cb t = CB_SECOND2"
    using h(3) by (auto simp: is_timer_def)
  then show "\<exists>q' s'. rtc_call e A (timer_cb t) (timer_opaque t) (popped q ts t) s = Some (Inr (q', s')) \<and> rtc_inv e A start date (sint now) q' s' \<and>
    (\<forall>l'. timer_queue q' QEMU_CLOCK_HOST l' \<longrightarrow> (\<forall>a \<in> set l'. a \<in> set l \<and> expiry q' a = expiry q a \<or> sint (expire_time t) < expiry q' a))"
    using h periodic_fires second_fires second2_fires unfolding after_fire_def by cases metis+
qed

section \<open>The clock keeps the time\<close>

definition seconds_passed :: "int \<Rightarrow> int \<Rightarrow> int" where
  "seconds_passed start now = (if now < start then 0 else (now - start) div 1000000000 + 1)"

lemma seconds_eq: "start + (k - 1) * 1000000000 \<le> now \<or> k = 0 \<Longrightarrow> now < start + k * 1000000000 \<Longrightarrow> 0 \<le> k \<Longrightarrow> seconds_passed start now = k"
proof -
  assume a: "start + (k - 1) * 1000000000 \<le> now \<or> k = 0" "now < start + k * 1000000000" "0 \<le> k"
  show "seconds_passed start now = k"
  proof (cases "k = 0")
    case False
    then have "(now - start) div 1000000000 = k - 1" using a by (intro int_div_pos_eq [of _ _ _ "now - start - (k - 1) * 1000000000"]) auto
    then show ?thesis using a False by (auto simp: seconds_passed_def)
  qed (use a in \<open>simp add: seconds_passed_def\<close>)
qed

lemma rtc_inv_later: "rtc_inv e A start date t q s \<Longrightarrow> t \<le> now \<Longrightarrow> now < 2 ^ 61 \<Longrightarrow> \<not> rtc_td_hack e' \<Longrightarrow> rtc_inv e' A start date now q s"
  unfolding rtc_inv_def rtc_phase_def Let_def by force

lemma rtc_inv_date:
  assumes "rtc_inv e A start date now q s" "\<And>l a. timer_queue q QEMU_CLOCK_HOST l \<Longrightarrow> a \<in> set l \<Longrightarrow> now < expiry q a"
  shows "second_number (current_tm s) = date + seconds_passed start now"
proof -
  obtain X k where X: "timers_ok q X" "rtc_phase A start date now q s (set (X QEMU_CLOCK_HOST)) k" using assms(1) by (auto simp: rtc_inv_def)
  then have l: "now < expiry q a" if "a \<in> set (X QEMU_CLOCK_HOST)" for a using assms(2) that by (auto simp: timers_ok_def)
  from X(2) show ?thesis unfolding rtc_phase_def Let_def
  proof (elim conjE disjE)
    assume h: "a_second A \<in> set (X QEMU_CLOCK_HOST)" "expiry q (a_second A) = start + k * 1000000000" "0 \<le> k" "second_number (current_tm s) = date + k"
      "start + k * 1000000000 - 1000000000 \<le> now"
    then show ?thesis using l [OF h(1)] seconds_eq [of start k now] by (simp add: algebra_simps)
  next
    assume h: "a_second A \<in> set (X QEMU_CLOCK_HOST)" "expiry q (a_second A) = start + k * 1000000000" "0 \<le> k" "second_number (current_tm s) = date + k" "k = 0"
    then show ?thesis using l [OF h(1)] seconds_eq [of start k now] by simp
  next
    assume h: "a_second2 A \<in> set (X QEMU_CLOCK_HOST)" "expiry q (a_second2 A) \<le> start + k * 1000000000 + 10000000" "- 1 \<le> k"
      "second_number (current_tm s) = date + k + 1" "k = - 1"
    then show ?thesis using l [OF h(1)] seconds_eq [of start "k + 1" now] by simp
  next
    assume h: "a_second2 A \<in> set (X QEMU_CLOCK_HOST)" "expiry q (a_second2 A) \<le> start + k * 1000000000 + 10000000" "- 1 \<le> k"
      "second_number (current_tm s) = date + k + 1" "start + k * 1000000000 \<le> now"
    then show ?thesis using l [OF h(1)] seconds_eq [of start "k + 1" now] by (simp add: algebra_simps)
  qed
qed

text \<open>The main loop wakes up at some times and runs the timers of the host clock.\<close>

fun rtc_wakeups :: "rtc_timers \<Rightarrow> (rtc_env \<times> u64) list \<Rightarrow> timers \<times> RTCState \<Rightarrow> (timers \<times> RTCState) loop" where
  "rtc_wakeups A [] qs = Some (Inr qs)"
| "rtc_wakeups A ((e, now) # ws) qs = bindL (qemu_run_timers (rtc_call e A) QEMU_CLOCK_HOST now (fst qs) (snd qs)) (rtc_wakeups A ws)"

lemma wakeups_keep_time:
  assumes "rtc_inv e A start date t q s" "sorted (t # map (sint \<circ> snd) ws)" "\<forall>(e, now) \<in> set ws. \<not> rtc_td_hack e \<and> sint now < 2 ^ 61" "ws \<noteq> []"
  shows "\<exists>q' s'. rtc_wakeups A ws (q, s) = Some (Inr (q', s')) \<and> valid_tm (current_tm s') \<and>
    second_number (current_tm s') = date + seconds_passed start (sint (snd (last ws)))"
  using assms
proof (induction ws arbitrary: e t q s)
  case (Cons w ws)
  obtain e1 now where w: "w = (e1, now)" by (cases w)
  have "rtc_inv e1 A start date (sint now) q s" using Cons.prems w by (intro rtc_inv_later [OF Cons.prems(1)]) auto
  from rtc.run_timers_end [OF this] rtc.has_queue [OF this] obtain q1 s1 where r: "qemu_run_timers (rtc_call e1 A) QEMU_CLOCK_HOST now q s = Some (Inr (q1, s1))"
    "rtc_inv e1 A start date (sint now) q1 s1" "\<And>l a. timer_queue q1 QEMU_CLOCK_HOST l \<Longrightarrow> a \<in> set l \<Longrightarrow> sint now < expiry q1 a" by blast
  show ?case
  proof (cases "ws = []")
    case True then show ?thesis using r rtc_inv_date [OF r(2,3)] rtc_invD(2) [OF r(2)] w by (simp add: bindL_def)
  next
    case False
    then show ?thesis using Cons.IH [OF r(2)] Cons.prems w r(1) by (simp add: bindL_def)
  qed
qed simp

lemma memory_kept:
  "a \<noteq> 10 \<Longrightarrow> a \<noteq> 11 \<Longrightarrow> clock_runs (rtc_set_memory a v s) = clock_runs s" "current_tm (rtc_set_memory a v s) = current_tm s"
  by (auto simp: rtc_set_memory_def clock_runs_def RTC_REG_A_def RTC_REG_B_def nat_eq_iff)

lemma created_clock:
  "clock_runs (rtc_initfn e host year)" "current_tm (rtc_initfn e host year) = host"
  "next_second_time (rtc_initfn e host year) = rtc_clock e + 990000000" "second_timer2 (rtc_initfn e host year) = Some (rtc_clock e + 990000000)"
proof -
  define z where "z = set_cmos RTC_REG_D 0x80 (set_cmos RTC_REG_C 0 (set_cmos RTC_REG_B 0x02 (set_cmos RTC_REG_A 0x26
    \<lparr>cmos_data = replicate 128 0, cmos_index = 0, current_tm = host, base_year = year, rtc_irq = [], sqw_irq = None,
     periodic_timer = None, next_periodic_time = 0, next_second_time = 0, irq_reinject_on_ack_count = 0,
     irq_coalesced = 0, period = 0, coalesced_timer = None, second_timer = None, second_timer2 = None\<rparr>)))"
  define d where "d = rtc_set_date_from_host host z"
  have "clock_runs z" by (simp add: z_def clock_runs_def RTC_REG_A_def RTC_REG_B_def RTC_REG_C_def RTC_REG_D_def REG_B_SET_def)
  then have "clock_runs (rtc_set_date host z)" using copy_date_regs [of "z\<lparr>current_tm := host\<rparr>"] by (simp add: clock_runs_def rtc_set_date_def copy_date_kept)
  then have d: "clock_runs d" "current_tm d = host"
    by (simp_all add: d_def rtc_set_date_from_host_def Let_def memory_kept)
      (simp add: rtc_set_date_def copy_date_kept)
  have i: "rtc_initfn e host year = d\<lparr>next_second_time := rtc_clock e + 990000000, second_timer2 := Some (rtc_clock e + 990000000)\<rparr>"
    by (simp add: rtc_initfn_def d_def z_def Let_def get_ticks_per_sec_def)
  show "clock_runs (rtc_initfn e host year)" "current_tm (rtc_initfn e host year) = host"
    "next_second_time (rtc_initfn e host year) = rtc_clock e + 990000000" "second_timer2 (rtc_initfn e host year) = Some (rtc_clock e + 990000000)"
    using d by (simp_all add: i clock_runs_def)
qed

lemma create_inv:
  assumes "\<not> rtc_td_hack e" "0 \<le> sint (rtc_clock e)" "sint (rtc_clock e) < 2 ^ 61" "valid_tm host" "distinct [a_periodic A, a_second A, a_second2 A]"
  shows "\<exists>q s. rtc_create e A host year (no_timers dynticks icount) = Some (Inr (q, s)) \<and>
    rtc_inv e A (sint (rtc_clock e) + 1990000000) (second_number host) 0 q s"
proof -
  let ?s = "rtc_initfn e host year"
  define q where "q = qemu_new_timer (a_second2 A) QEMU_CLOCK_HOST CB_SECOND2 0 (qemu_new_timer (a_second A) QEMU_CLOCK_HOST CB_SECOND 0
    (qemu_new_timer (a_periodic A) QEMU_CLOCK_HOST CB_PERIODIC 0 (no_timers dynticks icount)))"
  have ok: "timers_ok q (\<lambda>_. [])" by (simp add: q_def qemu_new_timer_def no_timers_def timers_ok_def timer_queue_def)
  have is_t: "is_timer q (a_periodic A) CB_PERIODIC" "is_timer q (a_second A) CB_SECOND" "is_timer q (a_second2 A) CB_SECOND2"
    using assms(5) by (simp_all add: q_def qemu_new_timer_def is_timer_def)
  have w: "rtc_clock e + 990000000 = word_of_int (sint (rtc_clock e) + 990000000)" by (simp add: wi_hom_add [symmetric])
  have n: "sint (rtc_clock e + 990000000) = sint (rtc_clock e) + 990000000" unfolding w using assms(2,3) by (intro sint_time) simp_all
  obtain q' X' where q': "set_timer (a_second2 A) (second_timer2 ?s) q = Some (Inr q')" "timers_ok q' X'" "set (X' QEMU_CLOCK_HOST) = {a_second2 A}"
    "expiry q' (a_second2 A) = sint (rtc_clock e) + 990000000" "\<forall>b cb. is_timer q' b cb = is_timer q b cb"
    using set_timer_spec [OF ok is_t(3), of "second_timer2 ?s"] n created_clock(4) [of e host year] by auto
  have "rtc_phase A (sint (rtc_clock e) + 1990000000) (second_number host) 0 q' ?s (set (X' QEMU_CLOCK_HOST)) (- 1)"
    using q'(3,4) assms(5) w by (simp add: rtc_phase_def Let_def created_clock)
  then have "rtc_inv e A (sint (rtc_clock e) + 1990000000) (second_number host) 0 q' ?s"
    using assms is_t q' created_clock [of e host year] by (auto simp: rtc_inv_def intro!: exI [of _ X'])
  then show ?thesis using q'(1) assms(1) by (auto simp: rtc_create_def q_def Let_def bindL_def)
qed

text \<open>
  C16. The clock keeps the time. Created with the date of the host and left alone by the guest, it shows after every run of the timers
  exactly the date a whole number of seconds later, one for each full second since the first of them ended, 1.99 seconds after the
  creation. This holds however irregularly and late the main loop wakes up: each run ends and makes up for all the
  seconds that were missed.
\<close>

theorem rtc_keeps_time:
  assumes "\<not> rtc_td_hack e" "0 \<le> sint (rtc_clock e)" "sint (rtc_clock e) < 2 ^ 61" "valid_tm host"
    and "distinct [a_periodic A, a_second A, a_second2 A]"
    and "sorted (0 # map (sint \<circ> snd) ws)" "\<forall>(e, now) \<in> set ws. \<not> rtc_td_hack e \<and> sint now < 2 ^ 61" "ws \<noteq> []"
  shows "\<exists>q s. bindL (rtc_create e A host year (no_timers dynticks icount)) (rtc_wakeups A ws) = Some (Inr (q, s)) \<and> valid_tm (current_tm s) \<and>
    second_number (current_tm s) = second_number host + seconds_passed (sint (rtc_clock e) + 1990000000) (sint (snd (last ws)))"
  using create_inv [OF assms(1-5), of year dynticks icount] wakeups_keep_time [OF _ assms(6-8)] by (fastforce simp: bindL_def)

theorem rtc_keeps_time_witness:
  "\<exists>q s. bindL (rtc_create ex_env \<lparr>a_periodic = 1, a_coalesced = 2, a_second = 3, a_second2 = 4\<rparr> ex_tm 2000 (no_timers True False))
       (rtc_wakeups \<lparr>a_periodic = 1, a_coalesced = 2, a_second = 3, a_second2 = 4\<rparr> [(ex_env, 70), (ex_env, 1500000000), (ex_env, 86401990000005)]) = Some (Inr (q, s)) \<and>
    valid_tm (current_tm s) \<and> second_number (current_tm s) = second_number ex_tm + 86401"
  using rtc_keeps_time [of ex_env ex_tm "\<lparr>a_periodic = 1, a_coalesced = 2, a_second = 3, a_second2 = 4\<rparr>"
      "[(ex_env, 70), (ex_env, 1500000000), (ex_env, 86401990000005)]" 2000 True False]
  by (simp add: ex_env_def ex_tm_def valid_tm_def month_days_def leap_def seconds_passed_def)

end
