(* ===== verification/Async.thy ===== *)
theory Async
  imports Heap_Lists
begin

text \<open>
  Bottom halves, \<^verbatim>\<open>async.c\<close>: work that handlers of devices leave to the main loop. Each context of the stack of contexts has a linked list
  of bottom halves, the newest first. A poll runs those that are scheduled and then frees those that
  were deleted. The functions that run are a parameter; they may create, schedule, cancel and delete bottom halves.
\<close>

section \<open>Contexts and bottom halves\<close>

record QEMUBH =
  bh_cb :: nat
  bh_opaque :: nat
  scheduled :: bool
  idle :: bool
  deleted :: bool
  bh_next :: "nat option"

record AsyncContext =
  ctx_id :: int
  first_bh :: "nat option"

record async =
  bheap :: "nat \<Rightarrow> QEMUBH option"
  async_context :: AsyncContext
  parents :: "AsyncContext list"
  woken :: nat

datatype async_error = BhFault | NoContext

type_synonym 'd bh_call = "nat \<Rightarrow> nat \<Rightarrow> async \<Rightarrow> 'd \<Rightarrow> (async_error + async \<times> 'd) option"

definition async_context_push :: "async \<Rightarrow> async" where
  "async_context_push s = s\<lparr>async_context := \<lparr>ctx_id = ctx_id (async_context s) + 1, first_bh = None\<rparr>, parents := async_context s # parents s\<rparr>"

definition get_async_context_id :: "async \<Rightarrow> int" where
  "get_async_context_id s = ctx_id (async_context s)"

definition set_first :: "nat option \<Rightarrow> async \<Rightarrow> async" where
  "set_first p s = s\<lparr>async_context := (async_context s)\<lparr>first_bh := p\<rparr>\<rparr>"

definition qemu_bh_new :: "nat \<Rightarrow> nat \<Rightarrow> nat \<Rightarrow> async \<Rightarrow> async" where
  "qemu_bh_new a cb obj s =
     set_first (Some a) (s\<lparr>bheap := (bheap s)(a \<mapsto> \<lparr>bh_cb = cb, bh_opaque = obj, scheduled = False, idle = False, deleted = False,
       bh_next = first_bh (async_context s)\<rparr>)\<rparr>)"

definition on_bh :: "nat \<Rightarrow> (QEMUBH \<Rightarrow> QEMUBH) \<Rightarrow> async \<Rightarrow> async_error + async" where
  "on_bh a f s = (case bheap s a of None \<Rightarrow> Inl BhFault | Some b \<Rightarrow> Inr (s\<lparr>bheap := (bheap s)(a \<mapsto> f b)\<rparr>))"

definition qemu_bh_schedule_idle :: "nat \<Rightarrow> async \<Rightarrow> async_error + async" where
  "qemu_bh_schedule_idle a s = on_bh a (\<lambda>b. if scheduled b then b else b\<lparr>scheduled := True, idle := True\<rparr>) s"

definition qemu_bh_schedule :: "nat \<Rightarrow> async \<Rightarrow> async_error + async" where
  "qemu_bh_schedule a s =
     (case bheap s a of None \<Rightarrow> Inl BhFault
      | Some b \<Rightarrow> if scheduled b then Inr s
          else Inr (s\<lparr>bheap := (bheap s)(a \<mapsto> b\<lparr>scheduled := True, idle := False\<rparr>), woken := woken s + 1\<rparr>))"

definition qemu_bh_cancel :: "nat \<Rightarrow> async \<Rightarrow> async_error + async" where
  "qemu_bh_cancel a s = on_bh a (\<lambda>b. b\<lparr>scheduled := False\<rparr>) s"

definition qemu_bh_delete :: "nat \<Rightarrow> async \<Rightarrow> async_error + async" where
  "qemu_bh_delete a s = on_bh a (\<lambda>b. b\<lparr>scheduled := False, deleted := True\<rparr>) s"

section \<open>Polling\<close>

text \<open>After the function of a bottom half has returned, its link is read: a fault when it was freed meanwhile.\<close>

partial_function (option) poll_loop :: "'d bh_call \<Rightarrow> nat option \<Rightarrow> bool \<Rightarrow> async \<Rightarrow> 'd \<Rightarrow> (async_error + bool \<times> async \<times> 'd) option" where
  "poll_loop call p ret s d =
     (case p of None \<Rightarrow> Some (Inr (ret, s, d))
      | Some a \<Rightarrow> (case bheap s a of None \<Rightarrow> Some (Inl BhFault)
          | Some b \<Rightarrow>
              if \<not> deleted b \<and> scheduled b
              then (case call (bh_cb b) (bh_opaque b) (s\<lparr>bheap := (bheap s)(a \<mapsto> b\<lparr>scheduled := False, idle := False\<rparr>)\<rparr>) d of
                  None \<Rightarrow> None
                | Some (Inl err) \<Rightarrow> Some (Inl err)
                | Some (Inr (s, d)) \<Rightarrow> (case bheap s a of None \<Rightarrow> Some (Inl BhFault)
                    | Some b' \<Rightarrow> poll_loop call (bh_next b') (ret \<or> \<not> idle b) s d))
              else poll_loop call (bh_next b) ret s d))"

datatype bh_slot = FirstBh | NextBh nat

definition read_bh :: "async \<Rightarrow> bh_slot \<Rightarrow> async_error + nat option" where
  "read_bh s pt = (case pt of FirstBh \<Rightarrow> Inr (first_bh (async_context s))
     | NextBh a \<Rightarrow> (case bheap s a of None \<Rightarrow> Inl BhFault | Some b \<Rightarrow> Inr (bh_next b)))"

definition write_bh :: "async \<Rightarrow> bh_slot \<Rightarrow> nat option \<Rightarrow> async_error + async" where
  "write_bh s pt p = (case pt of FirstBh \<Rightarrow> Inr (set_first p s) | NextBh a \<Rightarrow> on_bh a (\<lambda>b. b\<lparr>bh_next := p\<rparr>) s)"

partial_function (option) sweep_loop :: "bh_slot \<Rightarrow> async \<Rightarrow> (async_error + async) option" where
  "sweep_loop pt s =
     (case read_bh s pt of Inl err \<Rightarrow> Some (Inl err)
      | Inr None \<Rightarrow> Some (Inr s)
      | Inr (Some a) \<Rightarrow> (case bheap s a of None \<Rightarrow> Some (Inl BhFault)
          | Some b \<Rightarrow>
              if deleted b
              then (case write_bh s pt (bh_next b) of Inl err \<Rightarrow> Some (Inl err)
                    | Inr s \<Rightarrow> sweep_loop pt (s\<lparr>bheap := (bheap s)(a := None)\<rparr>))
              else sweep_loop (NextBh a) s))"

definition qemu_bh_poll :: "'d bh_call \<Rightarrow> async \<Rightarrow> 'd \<Rightarrow> (async_error + bool \<times> async \<times> 'd) option" where
  "qemu_bh_poll call s d =
     bindL (poll_loop call (first_bh (async_context s)) False s d) (\<lambda>(ret, s, d).
       bindL (sweep_loop FirstBh s) (\<lambda>s. Some (Inr (ret, s, d))))"

partial_function (option) flush_loop :: "'d bh_call \<Rightarrow> async \<Rightarrow> 'd \<Rightarrow> (async_error + async \<times> 'd) option" where
  "flush_loop call s d =
     (case qemu_bh_poll call s d of None \<Rightarrow> None
      | Some (Inl err) \<Rightarrow> Some (Inl err)
      | Some (Inr (ret, s, d)) \<Rightarrow> if ret then flush_loop call s d else Some (Inr (s, d)))"

text \<open>Leaving a context; \<open>a\<close> is the address of the bottom half that will run the completions queued meanwhile, \<open>cb\<close> its function.\<close>

definition async_context_pop :: "'d bh_call \<Rightarrow> nat \<Rightarrow> nat \<Rightarrow> async \<Rightarrow> 'd \<Rightarrow> (async_error + async \<times> 'd) option" where
  "async_context_pop call a cb s d =
     bindL (flush_loop call s d) (\<lambda>(s, d). case parents s of [] \<Rightarrow> Some (Inl NoContext)
       | c # cs \<Rightarrow> Some (bindR (qemu_bh_schedule a (qemu_bh_new a cb a (s\<lparr>async_context := c, parents := cs\<rparr>))) (\<lambda>s. Inr (s, d))))"

partial_function (option) timeout_loop :: "async \<Rightarrow> nat option \<Rightarrow> int \<Rightarrow> (async_error + int) option" where
  "timeout_loop s p timeout =
     (case p of None \<Rightarrow> Some (Inr timeout)
      | Some a \<Rightarrow> (case bheap s a of None \<Rightarrow> Some (Inl BhFault)
          | Some b \<Rightarrow> if \<not> deleted b \<and> scheduled b
              then if idle b then timeout_loop s (bh_next b) (if 10 < timeout then 10 else timeout) else Some (Inr 0)
              else timeout_loop s (bh_next b) timeout))"

definition qemu_bh_update_timeout :: "async \<Rightarrow> int \<Rightarrow> (async_error + int) option" where
  "qemu_bh_update_timeout s timeout = timeout_loop s (first_bh (async_context s)) timeout"

section \<open>What a poll does\<close>

text \<open>The operations a function performs on bottom halves, and the functions as scripts of such operations on the state of the devices.\<close>

datatype bh_op = BhNew nat nat nat | BhSchedule nat | BhScheduleIdle nat | BhCancel nat | BhDelete nat

fun bh_exec :: "bh_op \<Rightarrow> async \<Rightarrow> async_error + async" where
  "bh_exec (BhNew a cb obj) s = Inr (qemu_bh_new a cb obj s)"
| "bh_exec (BhSchedule a) s = qemu_bh_schedule a s"
| "bh_exec (BhScheduleIdle a) s = qemu_bh_schedule_idle a s"
| "bh_exec (BhCancel a) s = qemu_bh_cancel a s"
| "bh_exec (BhDelete a) s = qemu_bh_delete a s"

fun bh_execs :: "bh_op list \<Rightarrow> async \<Rightarrow> async_error + async" where
  "bh_execs [] s = Inr s"
| "bh_execs (x # xs) s = bindR (bh_exec x s) (bh_execs xs)"

definition scripted :: "(nat \<Rightarrow> nat \<Rightarrow> 'd \<Rightarrow> bh_op list \<times> 'd) \<Rightarrow> 'd bh_call" where
  "scripted script cb obj s d = (case script cb obj d of (ops, d') \<Rightarrow> Some (bindR (bh_execs ops s) (\<lambda>s. Inr (s, d'))))"

text \<open>The abstract state: the bottom halves of the context in their order, and what is known of all of them.\<close>

record bh_state =
  order :: "nat list"
  info :: "nat \<Rightarrow> QEMUBH option"

definition unlinked :: "QEMUBH \<Rightarrow> QEMUBH" where
  "unlinked b = b\<lparr>bh_next := None\<rparr>"

definition on_info :: "nat \<Rightarrow> (QEMUBH \<Rightarrow> QEMUBH) \<Rightarrow> bh_state \<Rightarrow> bh_state option" where
  "on_info a f t = map_option (\<lambda>b. t\<lparr>info := (info t)(a \<mapsto> f b)\<rparr>) (info t a)"

text \<open>A new bottom half has a new address; the other operations need one that was not freed.\<close>

fun bh_spec :: "bh_op \<Rightarrow> bh_state \<Rightarrow> bh_state option" where
  "bh_spec (BhNew a cb obj) t = (if info t a = None
     then Some \<lparr>order = a # order t, info = (info t)(a \<mapsto> \<lparr>bh_cb = cb, bh_opaque = obj, scheduled = False, idle = False, deleted = False, bh_next = None\<rparr>)\<rparr>
     else None)"
| "bh_spec (BhSchedule a) t = on_info a (\<lambda>b. if scheduled b then b else b\<lparr>scheduled := True, idle := False\<rparr>) t"
| "bh_spec (BhScheduleIdle a) t = on_info a (\<lambda>b. if scheduled b then b else b\<lparr>scheduled := True, idle := True\<rparr>) t"
| "bh_spec (BhCancel a) t = on_info a (\<lambda>b. b\<lparr>scheduled := False\<rparr>) t"
| "bh_spec (BhDelete a) t = on_info a (\<lambda>b. b\<lparr>scheduled := False, deleted := True\<rparr>) t"

fun bh_specs :: "bh_op list \<Rightarrow> bh_state \<Rightarrow> bh_state option" where
  "bh_specs [] t = Some t"
| "bh_specs (x # xs) t = Option.bind (bh_spec x t) (bh_specs xs)"

text \<open>
  A poll as it is meant: the bottom halves that are there at its beginning, in their order; each one that is scheduled when its turn comes runs
  once, and runs again in a later poll only if it was scheduled again. At the end the deleted ones are gone.
\<close>

fun spec_run :: "(nat \<Rightarrow> nat \<Rightarrow> 'd \<Rightarrow> bh_op list \<times> 'd) \<Rightarrow> nat list \<Rightarrow> bool \<Rightarrow> bh_state \<Rightarrow> 'd \<Rightarrow> (bool \<times> bh_state \<times> 'd) option" where
  "spec_run script [] ret t d = Some (ret, t, d)"
| "spec_run script (a # as) ret t d =
     (case info t a of None \<Rightarrow> None
      | Some b \<Rightarrow> if \<not> deleted b \<and> scheduled b
          then (case script (bh_cb b) (bh_opaque b) d of (ops, d') \<Rightarrow>
             Option.bind (bh_specs ops (t\<lparr>info := (info t)(a \<mapsto> b\<lparr>scheduled := False, idle := False\<rparr>)\<rparr>)) (\<lambda>t.
               spec_run script as (ret \<or> \<not> idle b) t d'))
          else spec_run script as ret t d)"

definition gone :: "bh_state \<Rightarrow> nat \<Rightarrow> bool" where
  "gone t a \<longleftrightarrow> (case info t a of None \<Rightarrow> False | Some b \<Rightarrow> deleted b)"

definition spec_sweep :: "bh_state \<Rightarrow> bh_state" where
  "spec_sweep t = \<lparr>order = filter (\<lambda>a. \<not> gone t a) (order t), info = (\<lambda>a. if a \<in> set (order t) \<and> gone t a then None else info t a)\<rparr>"

definition spec_poll :: "(nat \<Rightarrow> nat \<Rightarrow> 'd \<Rightarrow> bh_op list \<times> 'd) \<Rightarrow> bh_state \<Rightarrow> 'd \<Rightarrow> (bool \<times> bh_state \<times> 'd) option" where
  "spec_poll script t d = map_option (\<lambda>(ret, t, d). (ret, spec_sweep t, d)) (spec_run script (order t) False t d)"

definition represents :: "async \<Rightarrow> bh_state \<Rightarrow> bool" where
  "represents s t \<longleftrightarrow> lseg bh_next (bheap s) (first_bh (async_context s)) (order t) None \<and> distinct (order t) \<and>
     (\<forall>a. map_option unlinked (bheap s a) = info t a)"

lemma unlinked_fields [simp]:
  "bh_cb (unlinked b) = bh_cb b" "bh_opaque (unlinked b) = bh_opaque b" "scheduled (unlinked b) = scheduled b" "idle (unlinked b) = idle b"
  "deleted (unlinked b) = deleted b"
  by (simp_all add: unlinked_def)

lemma unlinked_updates:
  "(unlinked b)\<lparr>scheduled := x\<rparr> = unlinked (b\<lparr>scheduled := x\<rparr>)" "(unlinked b)\<lparr>idle := x\<rparr> = unlinked (b\<lparr>idle := x\<rparr>)"
  "(unlinked b)\<lparr>deleted := x\<rparr> = unlinked (b\<lparr>deleted := x\<rparr>)"
  by (simp_all add: unlinked_def)

lemma represents_info: "represents s t \<Longrightarrow> info t a = map_option unlinked (bheap s a)"
  by (simp add: represents_def)

lemma represents_on:
  assumes "represents s t" "bheap s a = Some b" "bh_next b' = bh_next b"
  shows "represents (s\<lparr>bheap := (bheap s)(a \<mapsto> b'), woken := n\<rparr>) (t\<lparr>info := (info t)(a \<mapsto> unlinked b')\<rparr>)"
    "represents (s\<lparr>bheap := (bheap s)(a \<mapsto> b')\<rparr>) (t\<lparr>info := (info t)(a \<mapsto> unlinked b')\<rparr>)"
proof -
  have "lseg bh_next ((bheap s)(a \<mapsto> b')) p xs None = lseg bh_next (bheap s) p xs None" for p xs
    using assms(2,3) by (intro lseg_cong) simp
  then show "represents (s\<lparr>bheap := (bheap s)(a \<mapsto> b'), woken := n\<rparr>) (t\<lparr>info := (info t)(a \<mapsto> unlinked b')\<rparr>)"
    "represents (s\<lparr>bheap := (bheap s)(a \<mapsto> b')\<rparr>) (t\<lparr>info := (info t)(a \<mapsto> unlinked b')\<rparr>)"
    using assms(1) by (simp_all add: represents_def)
qed

lemma bh_spec_refined:
  assumes r: "represents s t" and t: "bh_spec x t = Some t'"
  shows "\<exists>s'. bh_exec x s = Inr s' \<and> represents s' t' \<and> (\<exists>new. order t' = new @ order t)"
proof (cases x)
  case (BhNew a cb obj)
  then have n: "bheap s a = None" "info t a = None" using t r represents_info [OF r, of a] by (auto split: if_splits)
  then have "a \<notin> set (order t)" using lseg_alloc [of bh_next "bheap s" "first_bh (async_context s)" "order t" None a] r by (auto simp: represents_def)
  then show ?thesis using BhNew t r n by (auto simp: represents_def qemu_bh_new_def set_first_def lseg_frame unlinked_def)
next
  case (BhSchedule a)
  then obtain b where b: "bheap s a = Some b" "info t a = Some (unlinked b)" using t represents_info [OF r, of a] by (auto simp: on_info_def)
  show ?thesis
  proof (cases "scheduled b")
    case True
    then have "t' = t" using BhSchedule t b by (auto simp: on_info_def) (metis (no_types, lifting) bh_state.surjective bh_state.update_convs(2) fun_upd_triv)
    then show ?thesis using True BhSchedule b r by (simp add: qemu_bh_schedule_def)
  next
    case False
    then show ?thesis using BhSchedule t b represents_on(1) [OF r b(1), of "b\<lparr>scheduled := True, idle := False\<rparr>"]
      by (auto simp: on_info_def qemu_bh_schedule_def unlinked_updates)
  qed
next
  case (BhScheduleIdle a)
  then obtain b where b: "bheap s a = Some b" "info t a = Some (unlinked b)" using t represents_info [OF r, of a] by (auto simp: on_info_def)
  then show ?thesis using BhScheduleIdle t represents_on(2) [OF r b(1), of "if scheduled b then b else b\<lparr>scheduled := True, idle := True\<rparr>"]
    by (auto simp: on_info_def qemu_bh_schedule_idle_def on_bh_def unlinked_updates split: if_splits)
next
  case (BhCancel a)
  then obtain b where b: "bheap s a = Some b" "info t a = Some (unlinked b)" using t represents_info [OF r, of a] by (auto simp: on_info_def)
  then show ?thesis using BhCancel t represents_on(2) [OF r b(1), of "b\<lparr>scheduled := False\<rparr>"]
    by (auto simp: on_info_def qemu_bh_cancel_def on_bh_def unlinked_updates)
next
  case (BhDelete a)
  then obtain b where b: "bheap s a = Some b" "info t a = Some (unlinked b)" using t represents_info [OF r, of a] by (auto simp: on_info_def)
  then show ?thesis using BhDelete t represents_on(2) [OF r b(1), of "b\<lparr>scheduled := False, deleted := True\<rparr>"]
    by (auto simp: on_info_def qemu_bh_delete_def on_bh_def unlinked_updates)
qed

lemma bh_specs_refined:
  "represents s t \<Longrightarrow> bh_specs ops t = Some t' \<Longrightarrow> \<exists>s'. bh_execs ops s = Inr s' \<and> represents s' t' \<and> (\<exists>new. order t' = new @ order t)"
proof (induction ops arbitrary: s t)
  case (Cons x ops)
  then obtain t1 where t1: "bh_spec x t = Some t1" "bh_specs ops t1 = Some t'" by (auto split: Option.bind_splits)
  from bh_spec_refined [OF Cons.prems(1) t1(1)] obtain s1 new where s1: "bh_exec x s = Inr s1" "represents s1 t1" "order t1 = new @ order t" by blast
  from Cons.IH [OF s1(2) t1(2)] s1(1,3) show ?case by auto
qed simp

lemma poll_loop_refined:
  assumes "represents s t" "order t = pre @ as" "lseg bh_next (bheap s) p as None" "spec_run script as ret t d = Some (ret', t', d')"
  shows "\<exists>s'. poll_loop (scripted script) p ret s d = Some (Inr (ret', s', d')) \<and> represents s' t'"
  using assms
proof (induction as arbitrary: s t pre p ret d)
  case Nil
  then show ?case by (subst poll_loop.simps) simp
next
  case (Cons a as)
  then obtain b where b: "p = Some a" "bheap s a = Some b" "lseg bh_next (bheap s) (bh_next b) as None" by (auto split: option.splits)
  have i: "info t a = Some (unlinked b)" using represents_info [OF Cons.prems(1), of a] b(2) by simp
  show ?case
  proof (cases "\<not> deleted b \<and> scheduled b")
    case False
    then have "spec_run script as ret t d = Some (ret', t', d')" using Cons.prems(4) i by auto
    from Cons.IH [OF Cons.prems(1) _ b(3) this, of "pre @ [a]"] False Cons.prems(2) b show ?thesis by (subst poll_loop.simps) auto
  next
    case True
    let ?b = "b\<lparr>scheduled := False, idle := False\<rparr>"
    let ?s = "s\<lparr>bheap := (bheap s)(a \<mapsto> ?b)\<rparr>" and ?t = "t\<lparr>info := (info t)(a \<mapsto> unlinked ?b)\<rparr>"
    have r1: "represents ?s ?t" using represents_on(2) [OF Cons.prems(1) b(2), of ?b] by simp
    obtain ops d1 where o: "script (bh_cb b) (bh_opaque b) d = (ops, d1)" by fastforce
    then obtain t2 where t2: "bh_specs ops ?t = Some t2" "spec_run script as (ret \<or> \<not> idle b) t2 d1 = Some (ret', t', d')"
      using Cons.prems(4) i True by (auto simp: unlinked_updates split: Option.bind_splits)
    from bh_specs_refined [OF r1 t2(1)] obtain s2 new where s2: "bh_execs ops ?s = Inr s2" "represents s2 t2" "order t2 = new @ pre @ a # as"
      using Cons.prems(2) by auto
    then obtain b2 where b2: "bheap s2 a = Some b2" "lseg bh_next (bheap s2) (bh_next b2) as None"
      by (auto simp: represents_def lseg_append split: option.splits)
    have "scripted script (bh_cb b) (bh_opaque b) ?s d = Some (Inr (s2, d1))" by (simp add: scripted_def o s2(1))
    then show ?thesis using Cons.IH [OF s2(2) _ b2(2) t2(2), of "new @ pre @ [a]"] s2(3) b2(1) b(1,2) True
      by (subst poll_loop.simps) auto
  qed
qed

definition slot_behind :: "nat list \<Rightarrow> bh_slot" where
  "slot_behind xs = (if xs = [] then FirstBh else NextBh (last xs))"

lemma read_behind:
  "lseg bh_next (bheap s) (first_bh (async_context s)) xs r \<Longrightarrow> read_bh s (slot_behind xs) = Inr r"
  using lseg_last [of bh_next "bheap s" "first_bh (async_context s)" xs r] by (cases "xs = []") (auto simp: slot_behind_def read_bh_def)

lemma write_behind:
  assumes "lseg bh_next (bheap s) (first_bh (async_context s)) xs r" "distinct xs"
  shows "\<exists>s'. write_bh s (slot_behind xs) r' = Inr s' \<and> lseg bh_next (bheap s') (first_bh (async_context s')) xs r' \<and>
    (\<forall>a. map_option unlinked (bheap s' a) = map_option unlinked (bheap s a)) \<and> (\<forall>a. a \<notin> set xs \<longrightarrow> bheap s' a = bheap s a)"
proof (cases "xs = []")
  case False
  then obtain b where b: "bheap s (last xs) = Some b" using lseg_last [OF assms(1)] by blast
  show ?thesis using False b lseg_relink [OF assms False, of "b\<lparr>bh_next := r'\<rparr>" r']
    by (auto simp: slot_behind_def write_bh_def on_bh_def unlinked_def)
qed (auto simp: slot_behind_def write_bh_def set_first_def)

text \<open>Freeing: the list behind the bottom halves that stay.\<close>

definition dead :: "async \<Rightarrow> nat \<Rightarrow> bool" where
  "dead s a \<longleftrightarrow> (case bheap s a of None \<Rightarrow> False | Some b \<Rightarrow> deleted b)"

lemma sweep_refined:
  assumes "lseg bh_next (bheap s) (first_bh (async_context s)) (xs @ ys) None" "distinct (xs @ ys)" "\<forall>a \<in> set xs. \<not> dead s a"
  shows "\<exists>s'. sweep_loop (slot_behind xs) s = Some (Inr s') \<and>
    lseg bh_next (bheap s') (first_bh (async_context s')) (xs @ filter (\<lambda>a. \<not> dead s a) ys) None \<and>
    (\<forall>a. map_option unlinked (bheap s' a) = (if a \<in> set ys \<and> dead s a then None else map_option unlinked (bheap s a)))"
  using assms
proof (induction ys arbitrary: xs s)
  case Nil
  then show ?case using read_behind [of s xs None] by (subst sweep_loop.simps) simp
next
  case (Cons a ys)
  then obtain b where b: "lseg bh_next (bheap s) (first_bh (async_context s)) xs (Some a)" "bheap s a = Some b" "lseg bh_next (bheap s) (bh_next b) ys None"
    by (auto simp: lseg_append split: option.splits)
  show ?case
  proof (cases "deleted b")
    case False
    then show ?thesis using Cons.IH [of s "xs @ [a]"] Cons.prems b read_behind [OF b(1)]
      by (subst sweep_loop.simps) (auto simp: slot_behind_def dead_def split: if_splits)
  next
    case True
    obtain s1 where s1: "write_bh s (slot_behind xs) (bh_next b) = Inr s1" "lseg bh_next (bheap s1) (first_bh (async_context s1)) xs (bh_next b)"
      "\<forall>c. map_option unlinked (bheap s1 c) = map_option unlinked (bheap s c)" "\<forall>c. c \<notin> set xs \<longrightarrow> bheap s1 c = bheap s c"
      using write_behind [OF b(1), of "bh_next b"] Cons.prems(2) by auto
    let ?s = "s1\<lparr>bheap := (bheap s1)(a := None)\<rparr>"
    have d: "dead ?s c = (dead s c \<and> c \<noteq> a)" for c
      using s1(3) [rule_format, of c] by (cases "bheap s1 c"; cases "bheap s c") (auto simp: dead_def dest: arg_cong [of _ _ deleted])
    have "lseg bh_next (bheap s1) (bh_next b) ys None" using b(3) s1(4) Cons.prems(2) by (subst lseg_cong [of ys bh_next "bheap s1" "bheap s"]) auto
    then have l: "lseg bh_next (bheap ?s) (first_bh (async_context ?s)) (xs @ ys) None"
      using s1(2) Cons.prems(2) by (auto simp: lseg_append lseg_frame)
    have f: "filter (\<lambda>c. \<not> dead ?s c) ys = filter (\<lambda>c. \<not> dead s c) ys" using Cons.prems(2) d by (intro filter_cong) auto
    obtain s' where s': "sweep_loop (slot_behind xs) ?s = Some (Inr s')"
      "lseg bh_next (bheap s') (first_bh (async_context s')) (xs @ filter (\<lambda>c. \<not> dead s c) ys) None"
      "\<forall>c. map_option unlinked (bheap s' c) = (if c \<in> set ys \<and> dead ?s c then None else map_option unlinked (bheap ?s c))"
      using Cons.IH [OF l] Cons.prems(2,3) d unfolding f by auto
    have "map_option unlinked (bheap s' c) = (if c \<in> set (a # ys) \<and> dead s c then None else map_option unlinked (bheap s c))" for c
      using s'(3) [rule_format, of c] s1(3) [rule_format, of c] d [of c] b(2) True by (cases "c = a") (simp_all add: dead_def)
    moreover have "sweep_loop (slot_behind xs) s = Some (Inr s')"
      using True b(2) read_behind [OF b(1)] s1(1) s'(1) by (subst sweep_loop.simps) simp
    ultimately show ?thesis using s'(2) True b(2) by (intro exI [of _ s']) (simp add: dead_def)
  qed
qed

lemma sweep_represents:
  assumes "represents s t"
  shows "\<exists>s'. sweep_loop FirstBh s = Some (Inr s') \<and> represents s' (spec_sweep t)"
proof -
  have g: "dead s a = gone t a" for a using represents_info [OF assms, of a] by (cases "bheap s a") (simp_all add: dead_def gone_def)
  obtain s' where "sweep_loop FirstBh s = Some (Inr s')" "lseg bh_next (bheap s') (first_bh (async_context s')) (filter (\<lambda>a. \<not> dead s a) (order t)) None"
    "\<forall>a. map_option unlinked (bheap s' a) = (if a \<in> set (order t) \<and> dead s a then None else map_option unlinked (bheap s a))"
    using sweep_refined [of s "[]" "order t"] assms by (auto simp: represents_def slot_behind_def)
  then show ?thesis using assms by (auto simp: represents_def spec_sweep_def g)
qed

text \<open>Bottom halves that wait for the next poll, idle or not.\<close>

definition waits :: "bh_state \<Rightarrow> bool \<Rightarrow> bool" where
  "waits t is_idle \<longleftrightarrow> (\<exists>a \<in> set (order t). case info t a of None \<Rightarrow> False | Some b \<Rightarrow> \<not> deleted b \<and> scheduled b \<and> idle b = is_idle)"

lemma timeout_loop_spec:
  assumes "lseg bh_next (bheap s) p as None"
  shows "timeout_loop s p k = Some (Inr (if \<exists>a \<in> set as. case bheap s a of None \<Rightarrow> False | Some b \<Rightarrow> \<not> deleted b \<and> scheduled b \<and> idle b = False then 0
    else if \<exists>a \<in> set as. case bheap s a of None \<Rightarrow> False | Some b \<Rightarrow> \<not> deleted b \<and> scheduled b \<and> idle b = True then min 10 k else k))"
  using assms
proof (induction as arbitrary: p k)
  case Nil then show ?case by (subst timeout_loop.simps) simp
next
  case (Cons a as)
  then obtain b where "p = Some a" "bheap s a = Some b" "lseg bh_next (bheap s) (bh_next b) as None" by (auto split: option.splits)
  then show ?case using Cons.IH [of "bh_next b"] by (subst timeout_loop.simps) (auto simp: min_def)
qed

lemma timeout_spec:
  assumes "represents s t"
  shows "qemu_bh_update_timeout s k = Some (Inr (if waits t False then 0 else if waits t True then min 10 k else k))"
proof -
  have w: "waits t x = (\<exists>a \<in> set (order t). case bheap s a of None \<Rightarrow> False | Some b \<Rightarrow> \<not> deleted b \<and> scheduled b \<and> idle b = x)" for x
    unfolding waits_def represents_info [OF assms] by (simp add: option.case_eq_if option.map_sel)
  have "lseg bh_next (bheap s) (first_bh (async_context s)) (order t) None" using assms by (simp add: represents_def)
  from timeout_loop_spec [OF this, of k] show ?thesis unfolding w qemu_bh_update_timeout_def .
qed

text \<open>
  C18. Polling bottom halves does what is meant. With functions that create, schedule, cancel and delete bottom halves, among them the one that
  is running, by the rules of use, a poll ends without touching freed memory; it runs each bottom half of the context that is
  scheduled when its turn comes exactly once and in order, leaves new ones to the next poll, frees the deleted
  ones, and tells whether one ran that was not idle. The main loop does not sleep while one waits that is not idle, and at most 10
  milliseconds while an idle one waits.
\<close>

theorem bh_poll_refines:
  assumes "represents s t" "spec_poll script t d = Some (ret, t', d')"
  shows "(\<exists>s'. qemu_bh_poll (scripted script) s d = Some (Inr (ret, s', d')) \<and> represents s' t') \<and>
    qemu_bh_update_timeout s k = Some (Inr (if waits t False then 0 else if waits t True then min 10 k else k))"
proof -
  obtain t1 where t1: "spec_run script (order t) False t d = Some (ret, t1, d')" "t' = spec_sweep t1" using assms(2) by (auto simp: spec_poll_def)
  have "lseg bh_next (bheap s) (first_bh (async_context s)) (order t) None" using assms(1) by (simp add: represents_def)
  from poll_loop_refined [OF assms(1) _ this t1(1), of "[]"] obtain s1 where
    s1: "poll_loop (scripted script) (first_bh (async_context s)) False s d = Some (Inr (ret, s1, d'))" "represents s1 t1" by auto
  from sweep_represents [OF s1(2)] s1(1) t1(2) timeout_spec [OF assms(1)] show ?thesis by (auto simp: qemu_bh_poll_def bindL_def)
qed

definition no_bhs :: async where
  "no_bhs = \<lparr>bheap = Map.empty, async_context = \<lparr>ctx_id = 0, first_bh = None\<rparr>, parents = [], woken = 0\<rparr>"

text \<open>Two bottom halves; the function of the newer one deletes its own, schedules the other and creates a third.\<close>

definition ex_script :: "nat \<Rightarrow> nat \<Rightarrow> nat list \<Rightarrow> bh_op list \<times> nat list" where
  "ex_script cb obj log = (if cb = 2 then [BhDelete 2, BhSchedule 1, BhNew 3 0 0, BhSchedule 3] else [], log @ [cb])"

theorem bh_poll_refines_witness:
  "\<exists>s s'. bh_execs [BhNew 1 1 0, BhNew 2 2 0, BhSchedule 2] no_bhs = Inr s \<and> qemu_bh_poll (scripted ex_script) s [] = Some (Inr (True, s', [2, 1])) \<and>
    bheap s' 2 = None"
proof -
  let ?t = "\<lparr>order = [], info = Map.empty\<rparr>"
  have r: "represents no_bhs ?t" by (simp add: represents_def no_bhs_def)
  have "case bh_specs [BhNew 1 1 0, BhNew 2 2 0, BhSchedule 2] ?t of None \<Rightarrow> False | Some t \<Rightarrow>
    (case spec_poll ex_script t [] of None \<Rightarrow> False | Some (ret, t', log) \<Rightarrow> ret \<and> log = [2, 1] \<and> info t' 2 = None)"
    by (simp add: on_info_def spec_poll_def ex_script_def spec_sweep_def gone_def)
  then obtain t where t: "bh_specs [BhNew 1 1 0, BhNew 2 2 0, BhSchedule 2] ?t = Some t"
    "case spec_poll ex_script t [] of None \<Rightarrow> False | Some (ret, t', log) \<Rightarrow> ret \<and> log = [2, 1] \<and> info t' 2 = None" by (cases "bh_specs [BhNew 1 1 0, BhNew 2 2 0, BhSchedule 2] ?t") auto
  then obtain t' where t': "spec_poll ex_script t [] = Some (True, t', [2, 1])" "info t' 2 = None" by (auto split: option.splits)
  obtain s where s: "bh_execs [BhNew 1 1 0, BhNew 2 2 0, BhSchedule 2] no_bhs = Inr s" "represents s t" using bh_specs_refined [OF r t(1)] by blast
  from bh_poll_refines [OF s(2) t'(1)] obtain s' where s': "qemu_bh_poll (scripted ex_script) s [] = Some (Inr (True, s', [2, 1]))" "represents s' t'" by blast
  have "bheap s' 2 = None" using represents_info [OF s'(2), of 2] t'(2) by simp
  then show ?thesis using s(1) s'(1) by blast
qed

text \<open>
  A function that deletes its own bottom half and then polls again, as the function that runs queued completions may do through
  \<^verbatim>\<open>qemu_aio_wait\<close>: the inner poll frees the bottom half the outer one is working on.
\<close>

definition repoll :: "unit bh_call" where
  "repoll cb obj s d =
     (case qemu_bh_delete obj s of Inl err \<Rightarrow> Some (Inl err)
      | Inr s \<Rightarrow> bindL (qemu_bh_poll (\<lambda>_ _ s d. Some (Inr (s, d))) s d) (\<lambda>(_, s, d). Some (Inr (s, d))))"

theorem bh_poll_not_reentrant:
  "\<exists>s. bh_execs [BhNew a cb a, BhSchedule a] no_bhs = Inr s \<and> qemu_bh_poll repoll s () = Some (Inl BhFault)"
proof -
  let ?b = "\<lparr>bh_cb = cb, bh_opaque = a, scheduled = True, idle = False, deleted = False, bh_next = None\<rparr>"
  let ?s = "\<lambda>h. \<lparr>bheap = h, async_context = \<lparr>ctx_id = 0, first_bh = Some a\<rparr>, parents = [], woken = 1\<rparr>"
  have s: "bh_execs [BhNew a cb a, BhSchedule a] no_bhs = Inr (?s [a \<mapsto> ?b])"
    by (simp add: no_bhs_def qemu_bh_new_def set_first_def qemu_bh_schedule_def)
  let ?d = "?b\<lparr>scheduled := False, deleted := True\<rparr>"
  have p: "poll_loop (\<lambda>_ _ s d. Some (Inr (s, d))) (Some a) False (?s [a \<mapsto> ?d]) () = Some (Inr (False, ?s [a \<mapsto> ?d], ()))"
    by (subst poll_loop.simps, simp, subst poll_loop.simps, simp)
  have w: "sweep_loop FirstBh (?s [a \<mapsto> ?d]) = Some (Inr ((?s Map.empty)\<lparr>async_context := \<lparr>ctx_id = 0, first_bh = None\<rparr>\<rparr>))"
    by (subst sweep_loop.simps, simp add: read_bh_def write_bh_def set_first_def, subst sweep_loop.simps, simp add: read_bh_def)
  have "repoll cb a (?s [a \<mapsto> ?b\<lparr>scheduled := False, idle := False\<rparr>]) () = Some (Inr ((?s Map.empty)\<lparr>async_context := \<lparr>ctx_id = 0, first_bh = None\<rparr>\<rparr>, ()))"
    using p w by (simp add: repoll_def qemu_bh_delete_def on_bh_def qemu_bh_poll_def bindL_def)
  then have "poll_loop repoll (Some a) False (?s [a \<mapsto> ?b]) () = Some (Inl BhFault)" by (subst poll_loop.simps) simp
  then show ?thesis using s by (simp add: qemu_bh_poll_def bindL_def)
qed

end
