(* ===== verification/Spec2Isabelle.thy ===== *)
theory Spec2Isabelle
  imports Backend PCSnapshot PCClock RTCTime Async
begin

text \<open>
  A verification of the video accelerator of \<^verbatim>\<open>vm-playback-driver\<close> and of the emulator it lives in.

  \<^bold>\<open>The program.\<close> A driver in the guest sends compressed video over the network to the host, where a back end inside the
  emulator decodes it and draws it over the window of the guest. Its own parts are the message layer and the
  connections (\<^verbatim>\<open>src/comm/bknd\<close>, \<^verbatim>\<open>src/comm/ftnd\<close>), the two threads of the back end (\<^verbatim>\<open>src/qemu/vabknd/vabknd.cc\<close>)
  and the drawing routine (\<^verbatim>\<open>va.c\<close>, \<^verbatim>\<open>va.h\<close> in the tree of the emulator). The emulator is QEMU-KVM 0.12.3
  (\<^verbatim>\<open>src/qemu/qemu-kvm-0.12.3+noroms\<close>); of it the development has the snapshots of the machine
  (\<^verbatim>\<open>savevm.c\<close>, \<^verbatim>\<open>hw/hw.h\<close>) and the path of an input event to the guest: keyboard and mouse (\<^verbatim>\<open>hw/ps2.c\<close>), keyboard
  controller (\<^verbatim>\<open>hw/pckbd.c\<close>), interrupt controllers (\<^verbatim>\<open>hw/i8259.c\<close>), timer (\<^verbatim>\<open>hw/i8254.c\<close>), ports
  (\<^verbatim>\<open>ioport.c\<close>) and their wiring (\<^verbatim>\<open>hw/pc.c\<close>, \<^verbatim>\<open>hw/isa-bus.c\<close>), and beside it the real time clock
  (\<^verbatim>\<open>hw/mc146818rtc.c\<close>), whose date the guest shows, on the timers of the main loop (\<^verbatim>\<open>vl.c\<close>), and
  the bottom halves (\<^verbatim>\<open>async.c\<close>).

  \<^bold>\<open>Conventions.\<close> Integers that wrap are words of their width, results that may fail are sums with the error on the left
  (\<^const>\<open>bindR\<close>): a thrown exception, a call that ends the process and a violation of the rules of C
  (an access outside a block, a signed overflow, a division by zero, a null pointer) are all values. Libraries outside
  the sources are parameters: the socket calls and UDT, SDL, libswscale, libavcodec. Loops are recursive
  functions with a termination proof; the loops whose end depends on the other side are partial functions with
  the value None for not returning, and the properties show that they do return. No fuel is used.

  \<^bold>\<open>The theories.\<close>
  \<^item> \<open>VA_Prelude\<close>: words, results, blocks of bytes of which some may be uninitialised, byte order, checked arithmetic of the C
    type \<open>int\<close>; the collections \<open>buffer_simps\<close>, \<open>c_arith\<close> and \<open>bit_facts\<close>.
  \<^item> \<open>Messages\<close> (\<^verbatim>\<open>Message.cpp\<close>): messages share reference-counted blocks on an explicit heap. No sequence of constructions, copies,
    assignments and destructions touches a freed block or leaks one.
  \<^item> \<open>Marshal\<close> (\<^verbatim>\<open>MessageBuilder.cpp\<close>, \<^verbatim>\<open>MessageReader.cpp\<close>): the locale \<open>wire_type\<close> is the contract between a write and the read of
    the same type; it is interpreted for all ten types, from which whole messages round-trip. Readers stay
    inside the message; the two places where 32-bit sums wrap are shown.
  \<^item> \<open>Sockets\<close>, \<open>Transport\<close> (\<^verbatim>\<open>connection.cpp\<close>, \<^verbatim>\<open>UdpConnection.cpp\<close> of both sides, \<^verbatim>\<open>MessageConnection.cpp\<close>): the four connection
    classes over a socket library; the locale \<open>os_stream\<close> says what a reliable stream is, \<open>stream_endpoint\<close> what a
    connection promises, a sublocale per class that it keeps the promise. Messages arrive as they were sent; failures close
    the connection and later calls only throw; listeners stay consistent.
  \<^item> \<open>Drawing\<close> (\<^verbatim>\<open>va.c\<close>): placing the picture, converting and showing it. The picture is centred and keeps its shape, the mutex
    and the overlay are balanced on every path, and a context of sensible size draws without a fault.
  \<^item> \<open>Backend\<close> (\<^verbatim>\<open>vabknd.cc\<close>): both threads as turns on messages, interleaved with the drawing routine. The mutex is free between
    turns and no overlay is lost; each message has the effect its type says; malformed messages and a codec message at
    the wrong moment end the process, as shown.
  \<^item> \<open>QemuFile\<close>, \<open>VMState\<close>, \<open>SaveVM\<close> (\<^verbatim>\<open>savevm.c\<close>): buffered files over the locales \<open>sink\<close> and \<open>source\<close>, the codecs of
    fields over the locale \<open>value_codec\<close>, descriptions of devices, and whole snapshots. What was written is read back;
    a snapshot restores every registered device.
  \<^item> \<open>I8259\<close>: both interrupt controllers; the line of highest priority is delivered, its vector is in range, its cycle of
    request, acknowledge and end of interrupt works, and its state survives a snapshot.
  \<^item> \<open>I8254\<close>: the timer; no operation in a reachable state divides by zero or leaves its ranges, the next transition is
    in the future, \<open>muldiv64\<close> is exact, and a snapshot restores it.
  \<^item> \<open>PS2\<close>: keyboard and mouse; the ring is a bounded queue (locale \<open>byte_fifo\<close>), the packets of a movement add up to it, and the
    registers keep to their types.
  \<^item> \<open>Pckbd\<close>: the keyboard controller with both devices behind it; its status port and interrupt lines always say which device
    has bytes, and reading drains them in order.
  \<^item> \<open>RTC\<close>: the real time clock; a second of it is a second of the Gregorian calendar, a guest that writes a date sets the
    clock to it in each of the formats, and its interrupt line agrees with the flag the guest reads, also when missed
    interrupts are injected again; a snapshot restores it.
  \<^item> \<open>Heap_Lists\<close>: singly linked lists on a heap, shared by the next theories.
  \<^item> \<open>Async\<close>: bottom halves on an explicit heap; a poll refines the plain order of their runs, and a poll inside a poll reads
    freed memory.
  \<^item> \<open>Timers\<close>: the timers and clocks of the main loop. The linked lists on an explicit heap refine sorted queues; the locale
    \<open>timer_callbacks\<close> says what the handlers of the devices owe to the main loop, and under it every run of expired timers ends
    (by the multiset of the delays). The alarm of the host is never armed too late, and the time of the guest is the time
    the machine has been running.
  \<^item> \<open>RTCTime\<close>: the real time clock on these timers. Its handlers fulfil the locale, and the clock keeps the time
    exactly however late the main loop runs.
  \<^item> \<open>IOPort\<close>: the table of the ports; an access reaches the latest registration for it.
  \<^item> \<open>PC\<close>: the machine of these devices; a key press reaches the guest through the controllers and ports.
  \<^item> \<open>PCClock\<close>: that machine with the real time clock; the end of a second reaches the guest through the cascade of both controllers,
    and leaves them ready for the next one.
  \<^item> \<open>PCSnapshot\<close>: the sections of that machine; a snapshot of it restores all its devices.

  \<^bold>\<open>Bounds.\<close> Sizes of messages are 32 bits wide as in the code, with the wrap-around kept. The times of the timer are 64 bits wide;
  the properties on its transitions state the range of times they hold for. The movement of the mouse is an
  unbounded integer; the snapshot asks that it fits the C type \<open>int\<close>. The fields of the date and the
  readings of the clocks of the host are unbounded integers as well. The real time clock keeps its time up to the year 2043, half of the range
  of 64-bit nanoseconds being kept free for what the handlers add.

  \<^bold>\<open>Not modelled.\<close> The listener class \<^verbatim>\<open>TcpListener\<close> the back end uses is not in the sources, so accepting the two connections
  is part of the environment; the call of the drawing routine from the display code is not in the sources
  either, and the routine is a step of its own. Of \<^verbatim>\<open>savevm.c\<close> the back ends on sockets, pipes and disk images, arrays
  of variable length and the monitor commands are left out. The machine lacks the APIC and the other devices of the PC, and the real time clock joins it with its ports and the tick of the second only, not in the snapshot of the machine;
  its ports take further registrations. The fix for lost timer ticks is modelled in the two devices but is
  off in the machine. The processor emulation, KVM, block layer, network, displays, monitor, migration and the other
  boards of the emulator are not modelled: they do input and output on the host, generate code, or have no
  part in the accelerator. Log output is left out everywhere.
\<close>

end
